(* ===== verification/Rust_Std.thy ===== *)
theory Rust_Std
  imports Trip_Prelude "HOL-Library.List_Lexorder"
begin

text \<open>
  The parts of the Rust standard library that the sources call: big-endian integer bytes,
  fixed-size byte arrays with their derived order, UTF-8 validity, slice chunking, checked
  integer conversions, and collecting an iterator of results.
\<close>

section \<open>ASCII literals\<close>

text \<open>Byte-string literals of the sources are written as HOL strings.\<close>

definition ascii :: "string \<Rightarrow> u8 list" where
  "ascii s = map of_char s"

section \<open>Integer conversions\<close>

definition u32_try_from :: "nat \<Rightarrow> u32 option" where
  "u32_try_from n = (if n \<le> u32_max then Some (of_nat n) else None)"

definition u64_try_from :: "nat \<Rightarrow> u64 option" where
  "u64_try_from n = (if n \<le> u64_max then Some (of_nat n) else None)"

definition u16_try_from :: "nat \<Rightarrow> u16 option" where
  "u16_try_from n = (if n < 2 ^ 16 then Some (of_nat n) else None)"

fun unwrap_or :: "'a option \<Rightarrow> 'a \<Rightarrow> 'a" where
  "unwrap_or None d = d"
| "unwrap_or (Some x) d = x"

lemma u32_try_from_Some_iff: "u32_try_from n = Some w \<longleftrightarrow> unat w = n"
  using unat_lt_u32 [of w] by (auto simp: u32_try_from_def unat_of_nat_u32)

lemma u64_try_from_Some_iff: "u64_try_from n = Some w \<longleftrightarrow> unat w = n"
  using unat_lt_u64 [of w] by (auto simp: u64_try_from_def unat_of_nat_u64)

lemma u16_try_from_Some_iff: "u16_try_from n = Some w \<longleftrightarrow> unat w = n"
proof -
  have "unat w < 2 ^ LENGTH(16)" by (rule unsigned_less)
  then show ?thesis by (auto simp: u16_try_from_def unat_of_nat)
qed

section \<open>Big-endian integers\<close>

fun be_nat_bytes :: "nat \<Rightarrow> nat \<Rightarrow> u8 list" where
  "be_nat_bytes 0 v = []"
| "be_nat_bytes (Suc n) v = be_nat_bytes n (v div 256) @ [of_nat (v mod 256)]"

definition be_nat :: "u8 list \<Rightarrow> nat" where
  "be_nat bs = foldl (\<lambda>a b. a * 256 + unat b) 0 bs"

text \<open>\<open>to_be_bytes\<close> and \<open>from_be_bytes\<close> at the four widths of the wire format.\<close>

definition u16_to_be_bytes :: "u16 \<Rightarrow> u8 list" where
  "u16_to_be_bytes w = be_nat_bytes 2 (unat w)"

definition u32_to_be_bytes :: "u32 \<Rightarrow> u8 list" where
  "u32_to_be_bytes w = be_nat_bytes 4 (unat w)"

definition u64_to_be_bytes :: "u64 \<Rightarrow> u8 list" where
  "u64_to_be_bytes w = be_nat_bytes 8 (unat w)"

definition u16_from_be_bytes :: "u8 list \<Rightarrow> u16" where
  "u16_from_be_bytes bs = of_nat (be_nat bs)"

definition u32_from_be_bytes :: "u8 list \<Rightarrow> u32" where
  "u32_from_be_bytes bs = of_nat (be_nat bs)"

definition u64_from_be_bytes :: "u8 list \<Rightarrow> u64" where
  "u64_from_be_bytes bs = of_nat (be_nat bs)"

lemma unat_u8_less: "unat (b :: u8) < 256"
proof -
  have "unat b < 2 ^ LENGTH(8)" by (rule unsigned_less)
  then show ?thesis by simp
qed

lemma be_nat_simps [simp]:
  "be_nat [] = 0" "be_nat (bs @ [b]) = be_nat bs * 256 + unat b"
  by (simp_all add: be_nat_def)

lemma length_be_nat_bytes [simp]: "length (be_nat_bytes n v) = n"
  by (induction n arbitrary: v) auto

lemma be_nat_less: "be_nat bs < 256 ^ length bs"
proof (induction bs rule: rev_induct)
  case (snoc b bs)
  have "be_nat bs * 256 + unat b < (be_nat bs + 1) * 256" using unat_u8_less [of b] by simp
  also have "\<dots> \<le> 256 ^ length bs * 256" using snoc by (intro mult_right_mono) auto
  finally show ?case by simp
qed simp

lemma be_nat_be_nat_bytes: "v < 256 ^ n \<Longrightarrow> be_nat (be_nat_bytes n v) = v"
proof (induction n arbitrary: v)
  case (Suc n)
  then have "v div 256 < 256 ^ n" by (simp add: div_less_iff_less_mult mult.commute)
  moreover have "unat (of_nat (v mod 256) :: u8) = v mod 256" by (simp add: unat_of_nat)
  ultimately show ?case using Suc.IH by simp
qed simp

lemma be_nat_bytes_be_nat: "length bs = n \<Longrightarrow> be_nat_bytes n (be_nat bs) = bs"
proof (induction bs arbitrary: n rule: rev_induct)
  case (snoc b bs)
  have "(be_nat bs * 256 + unat b) div 256 = be_nat bs" using unat_u8_less [of b] by simp
  moreover have "(be_nat bs * 256 + unat b) mod 256 = unat b" using unat_u8_less [of b] by simp
  ultimately show ?case using snoc by auto
qed simp

lemma length_to_be_bytes [simp]:
  "length (u16_to_be_bytes w16) = 2" "length (u32_to_be_bytes w32) = 4"
  "length (u64_to_be_bytes w64) = 8"
  by (simp_all add: u16_to_be_bytes_def u32_to_be_bytes_def u64_to_be_bytes_def)

lemma u16_be_roundtrip [simp]: "u16_from_be_bytes (u16_to_be_bytes w) = w"
proof -
  have "unat w < 2 ^ LENGTH(16)" by (rule unsigned_less)
  then show ?thesis
    by (simp add: u16_from_be_bytes_def u16_to_be_bytes_def be_nat_be_nat_bytes)
qed

lemma u32_be_roundtrip [simp]: "u32_from_be_bytes (u32_to_be_bytes w) = w"
proof -
  have "unat w < 2 ^ LENGTH(32)" by (rule unsigned_less)
  then show ?thesis
    by (simp add: u32_from_be_bytes_def u32_to_be_bytes_def be_nat_be_nat_bytes)
qed

lemma u64_be_roundtrip [simp]: "u64_from_be_bytes (u64_to_be_bytes w) = w"
proof -
  have "unat w < 2 ^ LENGTH(64)" by (rule unsigned_less)
  then show ?thesis
    by (simp add: u64_from_be_bytes_def u64_to_be_bytes_def be_nat_be_nat_bytes)
qed

lemma u16_be_project [simp]: "length bs = 2 \<Longrightarrow> u16_to_be_bytes (u16_from_be_bytes bs) = bs"
  using be_nat_less [of bs]
  by (simp add: u16_from_be_bytes_def u16_to_be_bytes_def unat_of_nat be_nat_bytes_be_nat)

lemma u32_be_project [simp]: "length bs = 4 \<Longrightarrow> u32_to_be_bytes (u32_from_be_bytes bs) = bs"
  using be_nat_less [of bs]
  by (simp add: u32_from_be_bytes_def u32_to_be_bytes_def unat_of_nat be_nat_bytes_be_nat)

lemma u64_be_project [simp]: "length bs = 8 \<Longrightarrow> u64_to_be_bytes (u64_from_be_bytes bs) = bs"
  using be_nat_less [of bs]
  by (simp add: u64_from_be_bytes_def u64_to_be_bytes_def unat_of_nat be_nat_bytes_be_nat)

section \<open>Arrays of 32 bytes\<close>

typedef bytes32 = "{bs :: u8 list. length bs = 32}"
  morphisms bytes_of Bytes32
  by (rule exI [of _ "replicate 32 0"]) simp

lemma bytes32_abstype [code abstype]: "Bytes32 (bytes_of a) = a"
  by (rule bytes_of_inverse)

definition mk_bytes32 :: "u8 list \<Rightarrow> bytes32" where
  "mk_bytes32 bs = Bytes32 (if length bs = 32 then bs else replicate 32 0)"

lemma mk_bytes32_rep [code abstract]:
  "bytes_of (mk_bytes32 bs) = (if length bs = 32 then bs else replicate 32 0)"
  by (simp add: mk_bytes32_def Bytes32_inverse)

text \<open>\<open>TryFrom<Vec<u8>>\<close> (or of a slice) for \<open>[u8; 32]\<close>.\<close>

definition try_bytes32 :: "u8 list \<Rightarrow> bytes32 option" where
  "try_bytes32 bs = (if length bs = 32 then Some (mk_bytes32 bs) else None)"

text \<open>The array literal \<open>[b; 32]\<close>.\<close>

definition bytes32_fill :: "u8 \<Rightarrow> bytes32" where
  "bytes32_fill b = Bytes32 (replicate 32 b)"

lemma bytes_of_fill [simp, code abstract]: "bytes_of (bytes32_fill b) = replicate 32 b"
  by (simp add: bytes32_fill_def Bytes32_inverse)

lemma length_bytes_of [simp]: "length (bytes_of a) = 32"
  using bytes_of by simp

lemma bytes_of_mk [simp]: "length bs = 32 \<Longrightarrow> bytes_of (mk_bytes32 bs) = bs"
  by (simp add: mk_bytes32_rep)

lemma mk_bytes_of [simp]: "mk_bytes32 (bytes_of a) = a"
  by (simp add: bytes_of_inject [symmetric] mk_bytes32_rep)

lemma try_bytes32_bytes_of [simp]: "try_bytes32 (bytes_of a) = Some a"
  by (simp add: try_bytes32_def)

lemma try_bytes32_Some_iff: "try_bytes32 bs = Some a \<longleftrightarrow> bs = bytes_of a"
  by (auto simp: try_bytes32_def)

lemma bytes32_fill_eq_iff [simp]: "bytes32_fill a = bytes32_fill b \<longleftrightarrow> a = b"
  by (simp add: bytes_of_inject [symmetric])

instantiation bytes32 :: equal
begin

definition equal_bytes32 :: "bytes32 \<Rightarrow> bytes32 \<Rightarrow> bool" where
  "equal_bytes32 a b \<longleftrightarrow> bytes_of a = bytes_of b"

instance
  by standard (simp add: equal_bytes32_def bytes_of_inject)

end

text \<open>The derived order of the array is the lexicographic order of its bytes.\<close>

instantiation bytes32 :: linorder
begin

definition less_eq_bytes32 :: "bytes32 \<Rightarrow> bytes32 \<Rightarrow> bool" where
  "less_eq_bytes32 a b \<longleftrightarrow> bytes_of a \<le> bytes_of b"

definition less_bytes32 :: "bytes32 \<Rightarrow> bytes32 \<Rightarrow> bool" where
  "less_bytes32 a b \<longleftrightarrow> bytes_of a < bytes_of b"

instance
  by standard (auto simp: less_eq_bytes32_def less_bytes32_def less_le bytes_of_inject)

end

section \<open>UTF-8\<close>

definition utf8_cont :: "u8 \<Rightarrow> bool" where
  "utf8_cont b \<longleftrightarrow> 0x80 \<le> b \<and> b \<le> 0xBF"

text \<open>
  \<open>core::str::from_utf8\<close> succeeds exactly on these byte sequences: no overlong forms, no
  surrogates, nothing above U+10FFFF.
\<close>

fun utf8 :: "u8 list \<Rightarrow> bool" where
  "utf8 [] = True"
| "utf8 (b # bs) =
    (if b < 0x80 then utf8 bs
     else if 0xC2 \<le> b \<and> b \<le> 0xDF then
       (case bs of c1 # r \<Rightarrow> utf8_cont c1 \<and> utf8 r | _ \<Rightarrow> False)
     else if 0xE0 \<le> b \<and> b \<le> 0xEF then
       (case bs of
          c1 # c2 # r \<Rightarrow>
            (if b = 0xE0 then 0xA0 \<le> c1 \<and> c1 \<le> 0xBF
             else if b = 0xED then 0x80 \<le> c1 \<and> c1 \<le> 0x9F
             else utf8_cont c1)
            \<and> utf8_cont c2 \<and> utf8 r
        | _ \<Rightarrow> False)
     else if 0xF0 \<le> b \<and> b \<le> 0xF4 then
       (case bs of
          c1 # c2 # c3 # r \<Rightarrow>
            (if b = 0xF0 then 0x90 \<le> c1 \<and> c1 \<le> 0xBF
             else if b = 0xF4 then 0x80 \<le> c1 \<and> c1 \<le> 0x8F
             else utf8_cont c1)
            \<and> utf8_cont c2 \<and> utf8_cont c3 \<and> utf8 r
        | _ \<Rightarrow> False)
     else False)"

lemma utf8_ascii: "(\<And>b. b \<in> set bs \<Longrightarrow> b < 0x80) \<Longrightarrow> utf8 bs"
  by (induction bs) auto

section \<open>Slices and iterators\<close>

text \<open>\<open>slice::chunks(n)\<close> (which panics for \<open>n = 0\<close>; the sources call it with constants).\<close>

function slice_chunks :: "nat \<Rightarrow> 'a list \<Rightarrow> 'a list list" where
  "slice_chunks n xs =
    (if n = 0 \<or> xs = [] then [] else take n xs # slice_chunks n (drop n xs))"
  by pat_completeness auto
termination
  by (relation "measure (\<lambda>(n, xs). length xs)") auto

declare slice_chunks.simps [simp del]

lemma slice_chunks_Nil [simp]: "slice_chunks n [] = []"
  by (simp add: slice_chunks.simps)

lemma concat_slice_chunks: "0 < n \<Longrightarrow> concat (slice_chunks n xs) = xs"
proof (induction n xs rule: slice_chunks.induct)
  case (1 n xs)
  then show ?case by (subst slice_chunks.simps) (simp add: append_take_drop_id)
qed

lemma div_ceil_step: "0 < n \<Longrightarrow> 0 < m \<Longrightarrow> div_ceil m n = Suc (div_ceil (m - n) n)"
proof -
  assume n: "0 < n" and m: "0 < m"
  show ?thesis
  proof (cases "m < n")
    case True
    then show ?thesis using m n by (simp add: div_ceil_def)
  next
    case False
    then show ?thesis using n by (simp add: div_ceil_def le_div_geq le_mod_geq)
  qed
qed

lemma length_slice_chunks: "0 < n \<Longrightarrow> length (slice_chunks n xs) = div_ceil (length xs) n"
proof (induction n xs rule: slice_chunks.induct)
  case (1 n xs)
  then show ?case
    by (subst slice_chunks.simps) (auto simp: div_ceil_step)
qed

lemma slice_chunks_nth:
  "0 < n \<Longrightarrow> i < length (slice_chunks n xs) \<Longrightarrow>
   slice_chunks n xs ! i = take n (drop (i * n) xs)"
proof (induction n xs arbitrary: i rule: slice_chunks.induct)
  case (1 n xs)
  show ?case
  proof (cases "xs = []")
    case False
    have eq: "slice_chunks n xs = take n xs # slice_chunks n (drop n xs)"
      using False 1(2) by (subst slice_chunks.simps) simp
    show ?thesis
    proof (cases i)
      case (Suc j)
      then have "slice_chunks n (drop n xs) ! j = take n (drop (j * n) (drop n xs))"
        using 1 False eq by auto
      then show ?thesis using Suc by (simp add: eq add.commute)
    qed (simp add: eq)
  qed (use 1 in simp)
qed

text \<open>\<open>iter.map(f).collect::<Result<Vec<_>, _>>()\<close>: the first error wins.\<close>

fun collect_results :: "('a \<Rightarrow> 'e + 'b) \<Rightarrow> 'a list \<Rightarrow> 'e + 'b list" where
  "collect_results f [] = Inr []"
| "collect_results f (x # xs) =
    and_then (f x) (\<lambda>y. and_then (collect_results f xs) (\<lambda>ys. Inr (y # ys)))"

lemma collect_results_Inr_iff [result_iffs]:
  "collect_results f xs = Inr ys \<longleftrightarrow> list_all2 (\<lambda>x y. f x = Inr y) xs ys"
proof (induction xs arbitrary: ys)
  case (Cons x xs)
  then show ?case by (cases ys) (auto simp: result_iffs)
qed auto

text \<open>\<open>iter.try_for_each(f)\<close> and \<open>for x in xs { f(x)?; }\<close>.\<close>

fun try_for_each :: "('a \<Rightarrow> 'e + unit) \<Rightarrow> 'a list \<Rightarrow> 'e + unit" where
  "try_for_each f [] = Inr ()"
| "try_for_each f (x # xs) = and_then (f x) (\<lambda>_. try_for_each f xs)"

lemma try_for_each_Inr_iff [result_iffs]:
  "try_for_each f xs = Inr u \<longleftrightarrow> (\<forall>x \<in> set xs. f x = Inr ())"
  by (induction xs) (auto simp: result_iffs)

end
