(* ===== verification/Content.thy ===== *)
theory Content
  imports Rust_Std
begin

text \<open>
  The content model of \<open>triptorrent-core/src/lib.rs\<close>: identifiers, manifests and chunks, the
  construction of a manifest from file bytes, and the verified reconstruction of the bytes.
  BLAKE3 is a third-party hash: it is the parameter \<open>H\<close> of every definition that digests.
  The \<open>hex\<close> crate is the pair of parameters \<open>hex_encode\<close> and \<open>hex_decode\<close>.
\<close>

section \<open>Constants and identifiers\<close>

definition PROTOCOL_VERSION :: u16 where
  "PROTOCOL_VERSION = 1"

definition NETWORK_ID :: str where
  "NETWORK_ID = ascii ''triptorrent-testnet-1''"

definition CHUNK_SIZE :: nat where
  "CHUNK_SIZE = 32 * 1024"

definition MAX_MANIFEST_CHUNKS :: nat where
  "MAX_MANIFEST_CHUNKS = 1048576"

definition MAX_CONTENT_LENGTH :: u64 where
  "MAX_CONTENT_LENGTH = 32 * 1024 * 1048576"

type_synonym hash = "u8 list \<Rightarrow> bytes32"

datatype content_id = ContentId bytes32

datatype peer_id = PeerId bytes32

datatype chunk_id = ChunkId bytes32

definition content_id_digest :: "hash \<Rightarrow> u8 list \<Rightarrow> content_id" where
  "content_id_digest H bytes = ContentId (H bytes)"

fun content_id_as_bytes :: "content_id \<Rightarrow> bytes32" where
  "content_id_as_bytes (ContentId b) = b"

definition peer_id_from_public_key :: "hash \<Rightarrow> bytes32 \<Rightarrow> peer_id" where
  "peer_id_from_public_key H public_key = PeerId (H (bytes_of public_key))"

fun peer_id_as_bytes :: "peer_id \<Rightarrow> bytes32" where
  "peer_id_as_bytes (PeerId b) = b"

definition chunk_id_digest :: "hash \<Rightarrow> u8 list \<Rightarrow> chunk_id" where
  "chunk_id_digest H bytes = ChunkId (H bytes)"

fun chunk_id_as_bytes :: "chunk_id \<Rightarrow> bytes32" where
  "chunk_id_as_bytes (ChunkId b) = b"

lemma id_as_bytes_inverse [simp]:
  "ContentId (content_id_as_bytes c) = c" "PeerId (peer_id_as_bytes p) = p"
  "ChunkId (chunk_id_as_bytes k) = k"
  by (cases c, simp) (cases p, simp, cases k, simp)

text \<open>\<open>PeerId\<close> derives \<open>Ord\<close>, which orders the keys of the bootstrap registry.\<close>

instantiation peer_id :: linorder
begin

definition less_eq_peer_id :: "peer_id \<Rightarrow> peer_id \<Rightarrow> bool" where
  "less_eq_peer_id p q \<longleftrightarrow> peer_id_as_bytes p \<le> peer_id_as_bytes q"

definition less_peer_id :: "peer_id \<Rightarrow> peer_id \<Rightarrow> bool" where
  "less_peer_id p q \<longleftrightarrow> peer_id_as_bytes p < peer_id_as_bytes q"

instance
proof
  fix p q :: peer_id
  show "p \<le> q \<Longrightarrow> q \<le> p \<Longrightarrow> p = q"
    by (cases p; cases q) (simp add: less_eq_peer_id_def)
qed (auto simp: less_eq_peer_id_def less_peer_id_def)

end

section \<open>Textual identifiers\<close>

datatype 'h parse_id_error = ParseHex 'h | ParseLength nat

definition content_id_display :: "(u8 list \<Rightarrow> str) \<Rightarrow> content_id \<Rightarrow> str" where
  "content_id_display hex_encode c = hex_encode (bytes_of (content_id_as_bytes c))"

definition content_id_from_str ::
  "(str \<Rightarrow> 'h + u8 list) \<Rightarrow> str \<Rightarrow> 'h parse_id_error + content_id" where
  "content_id_from_str hex_decode v =
    and_then (map_err ParseHex (hex_decode v)) (\<lambda>decoded.
    and_then (ok_or (try_bytes32 decoded) (ParseLength (length v))) (\<lambda>bytes.
    Inr (ContentId bytes)))"

section \<open>Manifests and chunks\<close>

record manifest =
  m_content_id :: content_id
  m_length :: u64
  m_chunk_size :: u32
  m_chunks :: "chunk_id list"

record chunk =
  c_index :: u32
  c_id :: chunk_id
  c_data :: "u8 list"

datatype content_error =
    InvalidIndex u32
  | InvalidChunk u32
  | WrongChunkCount nat nat
  | InvalidContent
  | TooManyChunks
  | InvalidChunkSize
  | InvalidManifestShape
  | ContentTooLarge

text \<open>The closure of \<open>Manifest::from_bytes\<close> that numbers and digests one slice.\<close>

definition make_chunk :: "hash \<Rightarrow> nat \<times> u8 list \<Rightarrow> content_error + chunk" where
  "make_chunk H p = (case p of (index, data) \<Rightarrow>
    and_then (ok_or (u32_try_from index) TooManyChunks) (\<lambda>i.
    Inr \<lparr>c_index = i, c_id = chunk_id_digest H data, c_data = data\<rparr>))"

definition from_bytes :: "hash \<Rightarrow> u8 list \<Rightarrow> content_error + manifest \<times> chunk list" where
  "from_bytes H bytes =
    (if MAX_CONTENT_LENGTH < unwrap_or (u64_try_from (length bytes)) (- 1)
     then Inl ContentTooLarge
     else
       and_then (collect_results (make_chunk H) (enumerate_list (slice_chunks CHUNK_SIZE bytes)))
         (\<lambda>chunks.
       and_then (ok_or (u64_try_from (length bytes)) TooManyChunks) (\<lambda>len.
       Inr (\<lparr>m_content_id = content_id_digest H bytes, m_length = len,
             m_chunk_size = 32 * 1024, m_chunks = map c_id chunks\<rparr>, chunks))))"

definition validate_shape :: "manifest \<Rightarrow> content_error + unit" where
  "validate_shape m =
    (if unat (m_chunk_size m) \<noteq> CHUNK_SIZE then Inl InvalidChunkSize
     else if MAX_CONTENT_LENGTH < m_length m \<or> MAX_MANIFEST_CHUNKS < length (m_chunks m)
     then Inl ContentTooLarge
     else if div_ceil (unat (m_length m)) (unat (m_chunk_size m)) \<noteq> length (m_chunks m)
     then Inl InvalidManifestShape
     else Inr ())"

definition verify_chunk :: "hash \<Rightarrow> manifest \<Rightarrow> chunk \<Rightarrow> content_error + unit" where
  "verify_chunk H m c =
    (let index = unat (c_index c) in
     if index < length (m_chunks m) then
       (let expected = m_chunks m ! index in
        if c_id c \<noteq> expected \<or> chunk_id_digest H (c_data c) \<noteq> expected
        then Inl (InvalidChunk (c_index c))
        else Inr ())
     else Inl (InvalidIndex (c_index c)))"

text \<open>The loop of \<open>Manifest::reconstruct\<close> over the enumerated chunks.\<close>

fun reconstruct_loop ::
  "hash \<Rightarrow> manifest \<Rightarrow> nat \<Rightarrow> chunk list \<Rightarrow> u8 list \<Rightarrow> content_error + u8 list" where
  "reconstruct_loop H m index [] bytes = Inr bytes"
| "reconstruct_loop H m index (c # cs) bytes =
    (if unat (c_index c) \<noteq> index then Inl (InvalidIndex (c_index c))
     else and_then (verify_chunk H m c) (\<lambda>_.
          reconstruct_loop H m (index + 1) cs (bytes @ c_data c)))"

definition reconstruct :: "hash \<Rightarrow> manifest \<Rightarrow> chunk list \<Rightarrow> content_error + u8 list" where
  "reconstruct H m chunks =
    (if length chunks \<noteq> length (m_chunks m)
     then Inl (WrongChunkCount (length (m_chunks m)) (length chunks))
     else and_then (reconstruct_loop H m 0 chunks []) (\<lambda>bytes.
       if u64_try_from (length bytes) \<noteq> Some (m_length m)
          \<or> content_id_digest H bytes \<noteq> m_content_id m
       then Inl InvalidContent
       else Inr bytes))"

section \<open>Verification of chunks and reconstruction\<close>

lemma verify_chunk_Inr_iff:
  "verify_chunk H m c = Inr u \<longleftrightarrow>
   unat (c_index c) < length (m_chunks m) \<and> c_id c = m_chunks m ! unat (c_index c)
   \<and> chunk_id_digest H (c_data c) = m_chunks m ! unat (c_index c)"
  by (auto simp: verify_chunk_def Let_def)

lemma reconstruct_loop_Inr_iff:
  "reconstruct_loop H m i cs acc = Inr b \<longleftrightarrow>
   (\<forall>j<length cs. unat (c_index (cs ! j)) = i + j \<and> verify_chunk H m (cs ! j) = Inr ())
   \<and> b = acc @ concat (map c_data cs)"
proof (induction cs arbitrary: i acc)
  case (Cons c cs)
  show ?case
    by (auto simp: result_iffs Cons.IH All_less_Suc2)
qed auto

text \<open>What the chunks of a file are, as a closed form of the loop of \<open>from_bytes\<close>.\<close>

definition chunk_at :: "hash \<Rightarrow> u8 list \<Rightarrow> nat \<Rightarrow> chunk" where
  "chunk_at H bytes i =
    (let d = take CHUNK_SIZE (drop (i * CHUNK_SIZE) bytes)
     in \<lparr>c_index = of_nat i, c_id = chunk_id_digest H d, c_data = d\<rparr>)"

definition chunks_of :: "hash \<Rightarrow> u8 list \<Rightarrow> chunk list" where
  "chunks_of H bytes = map (chunk_at H bytes) [0..<div_ceil (length bytes) CHUNK_SIZE]"

definition manifest_of :: "hash \<Rightarrow> u8 list \<Rightarrow> manifest" where
  "manifest_of H bytes =
    \<lparr>m_content_id = content_id_digest H bytes, m_length = of_nat (length bytes),
     m_chunk_size = 32 * 1024, m_chunks = map c_id (chunks_of H bytes)\<rparr>"

lemma CHUNK_SIZE_pos [simp]: "0 < CHUNK_SIZE"
  by (simp add: CHUNK_SIZE_def)

lemma unat_MAX_CONTENT_LENGTH: "unat MAX_CONTENT_LENGTH = MAX_MANIFEST_CHUNKS * CHUNK_SIZE"
  by (simp add: MAX_CONTENT_LENGTH_def MAX_MANIFEST_CHUNKS_def CHUNK_SIZE_def)

lemma chunk_count_bound:
  "n \<le> unat MAX_CONTENT_LENGTH \<Longrightarrow> div_ceil n CHUNK_SIZE \<le> MAX_MANIFEST_CHUNKS"
  by (simp add: div_ceil_le_iff unat_MAX_CONTENT_LENGTH mult.commute)

lemma content_too_large_iff:
  "MAX_CONTENT_LENGTH < unwrap_or (u64_try_from n) (- 1) \<longleftrightarrow> unat MAX_CONTENT_LENGTH < n"
proof (cases "n \<le> u64_max")
  case True
  then show ?thesis
    by (simp add: u64_try_from_def word_less_nat_alt unat_of_nat_u64)
next
  case False
  have "MAX_CONTENT_LENGTH < - 1" by (simp add: MAX_CONTENT_LENGTH_def)
  moreover have "unat MAX_CONTENT_LENGTH \<le> u64_max" by (rule unat_lt_u64)
  ultimately show ?thesis using False by (simp add: u64_try_from_def)
qed

lemma from_bytes_eq:
  "from_bytes H bytes =
   (if length bytes \<le> unat MAX_CONTENT_LENGTH
    then Inr (manifest_of H bytes, chunks_of H bytes) else Inl ContentTooLarge)"
proof (cases "length bytes \<le> unat MAX_CONTENT_LENGTH")
  case True
  let ?s = "slice_chunks CHUNK_SIZE bytes"
  have n: "length ?s = div_ceil (length bytes) CHUNK_SIZE" by (simp add: length_slice_chunks)
  have bound: "i \<le> u32_max" if "i < length ?s" for i
    using that chunk_count_bound [OF True] n by (simp add: u32_max_def MAX_MANIFEST_CHUNKS_def)
  have "collect_results (make_chunk H) (enumerate_list ?s) = Inr (chunks_of H bytes)"
    unfolding collect_results_Inr_iff list_all2_conv_all_nth
    using bound
    by (auto simp: chunks_of_def n make_chunk_def chunk_at_def Let_def u32_try_from_def
        slice_chunks_nth)
  moreover have "u64_try_from (length bytes) = Some (of_nat (length bytes))"
    using True unat_lt_u64 [of MAX_CONTENT_LENGTH] by (simp add: u64_try_from_def)
  moreover have "\<not> MAX_CONTENT_LENGTH < unwrap_or (u64_try_from (length bytes)) (- 1)"
    using True by (simp only: content_too_large_iff not_less)
  ultimately show ?thesis
    using True by (simp add: from_bytes_def manifest_of_def)
qed (simp add: from_bytes_def content_too_large_iff)

lemma concat_chunks_of: "concat (map c_data (chunks_of H bytes)) = bytes"
proof -
  have "map c_data (chunks_of H bytes) = slice_chunks CHUNK_SIZE bytes"
    by (rule list_eq_nthI)
      (auto simp: chunks_of_def chunk_at_def Let_def length_slice_chunks slice_chunks_nth)
  then show ?thesis by (simp add: concat_slice_chunks)
qed

lemma reconstruct_Inr_iff:
  "reconstruct H m cs = Inr b \<longleftrightarrow>
   length cs = length (m_chunks m)
   \<and> (\<forall>i<length cs. unat (c_index (cs ! i)) = i \<and> c_id (cs ! i) = m_chunks m ! i
        \<and> chunk_id_digest H (c_data (cs ! i)) = m_chunks m ! i)
   \<and> b = concat (map c_data cs) \<and> length b = unat (m_length m)
   \<and> content_id_digest H b = m_content_id m"
proof -
  have "reconstruct_loop H m 0 cs [] = Inr b \<longleftrightarrow>
     (\<forall>i<length cs. unat (c_index (cs ! i)) = i \<and> c_id (cs ! i) = m_chunks m ! i
        \<and> chunk_id_digest H (c_data (cs ! i)) = m_chunks m ! i) \<and> b = concat (map c_data cs)"
    if "length cs = length (m_chunks m)" for b
    using that by (auto simp: reconstruct_loop_Inr_iff verify_chunk_Inr_iff)
  then show ?thesis
    by (auto simp: reconstruct_def result_iffs u64_try_from_Some_iff)
qed

lemma validate_shape_Inr_iff:
  "validate_shape m = Inr u \<longleftrightarrow>
   unat (m_chunk_size m) = CHUNK_SIZE \<and> m_length m \<le> MAX_CONTENT_LENGTH
   \<and> length (m_chunks m) \<le> MAX_MANIFEST_CHUNKS
   \<and> length (m_chunks m) = div_ceil (unat (m_length m)) CHUNK_SIZE"
  by (auto simp: validate_shape_def not_less)

lemma length_chunks_of: "length (chunks_of H bytes) = div_ceil (length bytes) CHUNK_SIZE"
  by (simp add: chunks_of_def)

lemma chunks_of_nth: "i < length (chunks_of H bytes) \<Longrightarrow> chunks_of H bytes ! i = chunk_at H bytes i"
  by (simp add: chunks_of_def)

lemma manifest_of_valid_shape:
  assumes "length bytes \<le> unat MAX_CONTENT_LENGTH"
  shows "validate_shape (manifest_of H bytes) = Inr ()"
proof -
  have "length bytes \<le> u64_max" using assms unat_lt_u64 [of MAX_CONTENT_LENGTH] by linarith
  then have "unat (of_nat (length bytes) :: u64) = length bytes" by (rule unat_of_nat_u64)
  then show ?thesis
    using assms chunk_count_bound [OF assms]
    by (simp add: validate_shape_Inr_iff manifest_of_def length_chunks_of word_le_nat_alt
        CHUNK_SIZE_def)
qed

lemma reconstruct_manifest_of:
  assumes "length bytes \<le> unat MAX_CONTENT_LENGTH"
  shows "reconstruct H (manifest_of H bytes) (chunks_of H bytes) = Inr bytes"
proof -
  have "unat (of_nat (length bytes) :: u64) = length bytes"
    using assms unat_lt_u64 [of MAX_CONTENT_LENGTH] by (intro unat_of_nat_u64) linarith
  moreover have "unat (of_nat i :: u32) = i" if "i < length (chunks_of H bytes)" for i
    using that chunk_count_bound [OF assms]
    by (intro unat_of_nat_u32) (simp add: length_chunks_of MAX_MANIFEST_CHUNKS_def u32_max_def)
  ultimately show ?thesis
    by (auto simp: reconstruct_Inr_iff manifest_of_def concat_chunks_of chunks_of_nth chunk_at_def
        Let_def simp del: unat_of_nat)
qed

lemma reconstruct_loop_bad_chunk:
  assumes "i < length cs"
    and "\<And>j. j < i \<Longrightarrow> unat (c_index (cs ! j)) = k + j \<and> verify_chunk H m (cs ! j) = Inr ()"
    and "unat (c_index (cs ! i)) = k + i" and "verify_chunk H m (cs ! i) = Inl e"
  shows "reconstruct_loop H m k cs acc = Inl e"
  using assms
proof (induction cs arbitrary: i k acc)
  case (Cons c cs)
  show ?case
  proof (cases i)
    case 0
    then show ?thesis using Cons.prems by simp
  next
    case (Suc i')
    have "reconstruct_loop H m (k + 1) cs (acc @ c_data c) = Inl e"
    proof (rule Cons.IH)
      show "i' < length cs" using Cons.prems(1) Suc by simp
      show "unat (c_index (cs ! j)) = k + 1 + j \<and> verify_chunk H m (cs ! j) = Inr ()"
        if "j < i'" for j
        using Cons.prems(2) [of "Suc j"] that Suc by simp
      show "unat (c_index (cs ! i')) = k + 1 + i'" using Cons.prems(3) Suc by simp
      show "verify_chunk H m (cs ! i') = Inl e" using Cons.prems(4) Suc by simp
    qed
    then show ?thesis using Cons.prems(2) [of 0] Suc by simp
  qed
qed simp

section \<open>Properties\<close>

text \<open>
  (C14) A file of at most 32 GiB always yields a manifest of valid shape and chunks from which
  \<open>reconstruct\<close> returns exactly the file; a larger file is refused with \<open>ContentTooLarge\<close>.
\<close>

theorem from_bytes_reconstruct:
  "if length bytes \<le> unat MAX_CONTENT_LENGTH
   then (\<exists>m cs. from_bytes H bytes = Inr (m, cs) \<and> validate_shape m = Inr ()
           \<and> reconstruct H m cs = Inr bytes)
   else from_bytes H bytes = Inl ContentTooLarge"
  by (simp add: from_bytes_eq manifest_of_valid_shape reconstruct_manifest_of)

text \<open>
  \<open>reconstruct\<close> succeeds exactly on a complete, ordered list of chunks each of which has the
  identifier and the digest of its manifest entry, whose concatenation has the manifest's length
  and digest; the result is that concatenation.
\<close>

theorem reconstruct_iff:
  "reconstruct H m cs = Inr b \<longleftrightarrow>
   length cs = length (m_chunks m)
   \<and> (\<forall>i<length cs. unat (c_index (cs ! i)) = i \<and> c_id (cs ! i) = m_chunks m ! i
        \<and> ChunkId (H (c_data (cs ! i))) = m_chunks m ! i)
   \<and> b = concat (map c_data cs) \<and> length b = unat (m_length m)
   \<and> ContentId (H b) = m_content_id m"
  using reconstruct_Inr_iff by (simp add: chunk_id_digest_def content_id_digest_def)

theorem reconstruct_iff_witness:
  "reconstruct (\<lambda>_. bytes32_fill 7)
     \<lparr>m_content_id = ContentId (bytes32_fill 7), m_length = 2, m_chunk_size = 32768,
      m_chunks = [ChunkId (bytes32_fill 7)]\<rparr>
     [\<lparr>c_index = 0, c_id = ChunkId (bytes32_fill 7), c_data = [1, 2]\<rparr>] = Inr [1, 2]"
  by (subst reconstruct_iff) simp

text \<open>
  (C15) Content binding: whatever chunks a peer sends for the manifest of a file, a successful
  reconstruction is that file, or the peer has exhibited a collision of the content hash.
\<close>

theorem reconstruct_binding:
  assumes "from_bytes H bytes = Inr (m, cs)" and "reconstruct H m cs' = Inr bytes'"
  shows "bytes' = bytes \<or> H bytes' = H bytes \<and> bytes' \<noteq> bytes \<and> length bytes' = length bytes"
proof -
  have m: "m = manifest_of H bytes" and b: "length bytes \<le> unat MAX_CONTENT_LENGTH"
    using assms(1) by (auto simp: from_bytes_eq split: if_splits)
  have "unat (of_nat (length bytes) :: u64) = length bytes"
    using b unat_lt_u64 [of MAX_CONTENT_LENGTH] by (intro unat_of_nat_u64) linarith
  then show ?thesis
    using assms(2) m by (auto simp: reconstruct_Inr_iff manifest_of_def content_id_digest_def)
qed

theorem reconstruct_binding_witness:
  "\<exists>m cs bytes'. from_bytes (\<lambda>_. bytes32_fill 7) [1, 2] = Inr (m, cs)
    \<and> reconstruct (\<lambda>_. bytes32_fill 7) m cs = Inr bytes' \<and> length bytes' = length [1, 2 :: u8]"
proof -
  let ?H = "\<lambda>_. bytes32_fill 7"
  have f: "from_bytes ?H [1, 2] = Inr (manifest_of ?H [1, 2], chunks_of ?H [1, 2])"
    by (simp add: from_bytes_eq MAX_CONTENT_LENGTH_def)
  have r: "reconstruct ?H (manifest_of ?H [1, 2]) (chunks_of ?H [1, 2]) = Inr [1, 2]"
    by (rule reconstruct_manifest_of) (simp add: MAX_CONTENT_LENGTH_def)
  show ?thesis using reconstruct_binding [OF f r] f r by blast
qed

text \<open>
  (C16) The first chunk, in order, whose claimed identifier or whose data's digest differs from the
  manifest makes \<open>reconstruct\<close> fail with \<open>InvalidChunk\<close> of its index, whatever follows it.
\<close>

theorem reconstruct_rejects_corrupt:
  assumes "length cs = length (m_chunks m)" and "i < length cs"
    and "\<And>j. j < i \<Longrightarrow> unat (c_index (cs ! j)) = j \<and> verify_chunk H m (cs ! j) = Inr ()"
    and "unat (c_index (cs ! i)) = i"
    and "c_id (cs ! i) \<noteq> m_chunks m ! i \<or> ChunkId (H (c_data (cs ! i))) \<noteq> m_chunks m ! i"
  shows "reconstruct H m cs = Inl (InvalidChunk (c_index (cs ! i)))"
proof -
  have "verify_chunk H m (cs ! i) = Inl (InvalidChunk (c_index (cs ! i)))"
    using assms by (simp add: verify_chunk_def chunk_id_digest_def)
  then have "reconstruct_loop H m 0 cs [] = Inl (InvalidChunk (c_index (cs ! i)))"
    using assms by (intro reconstruct_loop_bad_chunk [of i]) auto
  then show ?thesis using assms(1) by (simp add: reconstruct_def)
qed

theorem reconstruct_rejects_corrupt_witness:
  "reconstruct (\<lambda>b. bytes32_fill (hd b))
     \<lparr>m_content_id = ContentId (bytes32_fill 7), m_length = 1, m_chunk_size = 32768,
      m_chunks = [ChunkId (bytes32_fill 7)]\<rparr>
     [\<lparr>c_index = 0, c_id = ChunkId (bytes32_fill 7), c_data = [8]\<rparr>] = Inl (InvalidChunk 0)"
  using reconstruct_rejects_corrupt
    [of "[\<lparr>c_index = 0, c_id = ChunkId (bytes32_fill 7), c_data = [8]\<rparr>]"
      "\<lparr>m_content_id = ContentId (bytes32_fill 7), m_length = 1, m_chunk_size = 32768,
        m_chunks = [ChunkId (bytes32_fill 7)]\<rparr>" 0 "\<lambda>b. bytes32_fill (hd b)"]
  by simp

end
