(* ===== verification/Availability.thy ===== *)
theory Availability
  imports Content
begin

text \<open>
  The piece-availability bitmap of \<open>triptorrent-protocol/src/lib.rs\<close> (\<open>PieceAvailability\<close>):
  one bit per chunk, least significant bit first, with unused bits of the last byte zero.
  The lemmas relate the bitmap to the set of chunk indices it stands for.
\<close>

unbundle bit_operations_syntax

section \<open>The bitmap\<close>

record piece_availability =
  pa_chunk_count :: u32
  pa_bits :: "u8 list"

definition bitmap_len :: "u32 \<Rightarrow> nat" where
  "bitmap_len chunk_count = div_ceil (unat chunk_count) 8"

definition clear_unused_bits :: "piece_availability \<Rightarrow> piece_availability" where
  "clear_unused_bits a =
    (let remainder = unat (pa_chunk_count a) mod 8 in
     if remainder \<noteq> 0 \<and> pa_bits a \<noteq> []
     then a\<lparr>pa_bits := butlast (pa_bits a) @ [last (pa_bits a) AND (push_bit remainder 1 - 1)]\<rparr>
     else a)"

definition availability_all :: "u32 \<Rightarrow> piece_availability" where
  "availability_all chunk_count =
    clear_unused_bits
      \<lparr>pa_chunk_count = chunk_count, pa_bits = replicate (bitmap_len chunk_count) 0xff\<rparr>"

text \<open>The loop body of \<open>from_indices\<close>.\<close>

definition set_index :: "u32 \<Rightarrow> u32 \<Rightarrow> u8 list \<Rightarrow> u8 list" where
  "set_index chunk_count index bits =
    (if index < chunk_count
     then (let i = unat (index div 8)
           in bits[i := bits ! i OR push_bit (unat (index mod 8)) 1])
     else bits)"

definition from_indices :: "u32 \<Rightarrow> u32 list \<Rightarrow> piece_availability" where
  "from_indices chunk_count indices =
    \<lparr>pa_chunk_count = chunk_count,
     pa_bits = fold (set_index chunk_count) indices (replicate (bitmap_len chunk_count) 0)\<rparr>"

definition availability_is_valid :: "piece_availability \<Rightarrow> bool" where
  "availability_is_valid a =
    (if length (pa_bits a) \<noteq> bitmap_len (pa_chunk_count a) then False
     else (let remainder = unat (pa_chunk_count a) mod 8 in
       remainder = 0
       \<or> (pa_bits a = [] \<or> last (pa_bits a) AND NOT (push_bit remainder 1 - 1) = 0)))"

definition availability_contains :: "piece_availability \<Rightarrow> u32 \<Rightarrow> bool" where
  "availability_contains a index \<longleftrightarrow>
    availability_is_valid a \<and> index < pa_chunk_count a
    \<and> pa_bits a ! unat (index div 8) AND push_bit (unat (index mod 8)) 1 \<noteq> 0"

section \<open>Bits\<close>

declare push_bit_of_1 [simp del]

lemma bit_u8_bound: "bit (w :: u8) k \<Longrightarrow> k < 8"
  using bit_imp_le_length [of w k] by simp

lemma and_push_bit_1_iff: "w AND push_bit n 1 \<noteq> 0 \<longleftrightarrow> bit w n" for w :: u8
  by (simp add: push_bit_of_1 and_exp_eq_0_iff_not_bit)

lemma push_bit_minus_1_mask: "push_bit n 1 - 1 = (mask n :: u8)"
  by (simp add: mask_eq_decr_exp push_bit_of_1)

lemma and_not_mask_iff:
  "w AND NOT (push_bit n 1 - 1) = 0 \<longleftrightarrow> (\<forall>k. bit w k \<longrightarrow> k < n)" for w :: u8
  unfolding push_bit_minus_1_mask bit_eq_iff
  by (auto simp: bit_and_iff bit_not_iff bit_mask_iff dest: bit_u8_bound)

lemma bit_or_push_bit_1: "k < 8 \<Longrightarrow> bit (w OR push_bit n 1) k \<longleftrightarrow> bit w k \<or> k = n" for w :: u8
  by (auto simp: bit_or_iff push_bit_of_1 bit_exp_iff)

text \<open>The bit of a list of bytes at position \<open>8 * i + k\<close>.\<close>

definition bit_at :: "u8 list \<Rightarrow> nat \<Rightarrow> bool" where
  "bit_at bits n \<longleftrightarrow> n div 8 < length bits \<and> bit (bits ! (n div 8)) (n mod 8)"

lemma bit_at_eqI:
  assumes "length bs = length cs" and "\<And>n. bit_at bs n \<longleftrightarrow> bit_at cs n"
  shows "bs = cs"
proof (rule list_eq_nthI)
  fix i assume i: "i < length bs"
  show "bs ! i = cs ! i"
  proof (rule bit_word_eqI)
    fix k :: nat assume "k < LENGTH(8)"
    then show "bit (bs ! i) k \<longleftrightarrow> bit (cs ! i) k"
      using assms(2) [of "8 * i + k"] i assms(1) by (simp add: bit_at_def)
  qed
qed (rule assms(1))

lemma bit_at_update:
  assumes "k < 8 * length bits"
  shows "bit_at (bits[k div 8 := bits ! (k div 8) OR push_bit (k mod 8) 1]) n
         \<longleftrightarrow> bit_at bits n \<or> n = k"
proof (cases "n div 8 = k div 8")
  case True
  then have "n mod 8 = k mod 8 \<longleftrightarrow> n = k" by (metis div_mult_mod_eq)
  moreover have "k div 8 < length bits" using assms by (simp add: div_less_iff_less_mult)
  ultimately show ?thesis using True by (simp add: bit_at_def bit_or_push_bit_1)
next
  case False
  then show ?thesis by (auto simp: bit_at_def)
qed

lemma bit_at_replicate_0 [simp]: "\<not> bit_at (replicate m 0) n"
  by (simp add: bit_at_def)

section \<open>Validity and membership\<close>

lemma unat_div_mod_8:
  "unat ((index :: u32) div 8) = unat index div 8" "unat (index mod 8) = unat index mod 8"
  by (simp_all add: unat_div unat_mod)

lemma bitmap_len_bound: "n < unat cc \<Longrightarrow> n div 8 < bitmap_len cc"
proof -
  assume "n < unat cc"
  then have "8 * (n div 8) < unat cc" using times_div_less_eq_dividend [of 8 n] by linarith
  then show ?thesis by (simp add: bitmap_len_def less_div_ceil_iff)
qed

text \<open>A bitmap is valid when it has the length for its chunk count and no bit beyond the count.\<close>

lemma availability_is_valid_iff:
  "availability_is_valid a \<longleftrightarrow>
   length (pa_bits a) = bitmap_len (pa_chunk_count a)
   \<and> (\<forall>n. bit_at (pa_bits a) n \<longrightarrow> n < unat (pa_chunk_count a))"
proof -
  define c where "c = unat (pa_chunk_count a)"
  define bs where "bs = pa_bits a"
  have "(c mod 8 = 0 \<or> (bs = [] \<or> last bs AND NOT (push_bit (c mod 8) 1 - 1) = 0))
        \<longleftrightarrow> (\<forall>n. bit_at bs n \<longrightarrow> n < c)" if len: "length bs = div_ceil c 8"
  proof (cases "c mod 8 = 0")
    case True
    then have "c = 8 * length bs" using len by (auto simp: div_ceil_def)
    then show ?thesis using True by (auto simp: bit_at_def div_less_iff_less_mult)
  next
    case False
    then have l: "length bs = c div 8 + 1" using len by (simp add: div_ceil_def)
    then have ne: "bs \<noteq> []" by auto
    have la: "last bs = bs ! (c div 8)" using ne l by (simp add: last_conv_nth)
    have "(\<forall>k. bit (last bs) k \<longrightarrow> k < c mod 8) \<longleftrightarrow> (\<forall>n. bit_at bs n \<longrightarrow> n < c)"
    proof (intro iffI allI impI)
      fix n assume *: "\<forall>k. bit (last bs) k \<longrightarrow> k < c mod 8" and n: "bit_at bs n"
      have "n div 8 \<le> c div 8" using n l by (simp add: bit_at_def)
      moreover have "n mod 8 < c mod 8" if "n div 8 = c div 8"
        using * n that la by (simp add: bit_at_def)
      moreover have "n = 8 * (n div 8) + n mod 8" "c = 8 * (c div 8) + c mod 8" "n mod 8 < 8"
        by simp_all
      ultimately show "n < c" by (cases "n div 8 = c div 8") linarith+
    next
      fix k assume *: "\<forall>n. bit_at bs n \<longrightarrow> n < c" and k: "bit (last bs) k"
      have "k < 8" using k by (rule bit_u8_bound)
      then have "bit_at bs (8 * (c div 8) + k)" using k l la by (simp add: bit_at_def)
      then have "8 * (c div 8) + k < c" using * by blast
      moreover have "c = 8 * (c div 8) + c mod 8" by simp
      ultimately show "k < c mod 8" by linarith
    qed
    then show ?thesis using False ne by (simp add: and_not_mask_iff)
  qed
  then show ?thesis
    by (auto simp: availability_is_valid_def bitmap_len_def c_def bs_def Let_def)
qed

lemma availability_contains_iff:
  "availability_contains a i \<longleftrightarrow> availability_is_valid a \<and> bit_at (pa_bits a) (unat i)"
proof -
  have "bit_at (pa_bits a) (unat i) \<longleftrightarrow> i < pa_chunk_count a \<and> bit (pa_bits a ! (unat i div 8)) (unat i mod 8)"
    if "availability_is_valid a"
  proof -
    have "length (pa_bits a) = bitmap_len (pa_chunk_count a)"
      and "\<And>n. bit_at (pa_bits a) n \<Longrightarrow> n < unat (pa_chunk_count a)"
      using that by (auto simp: availability_is_valid_iff)
    then show ?thesis
      using bitmap_len_bound by (auto simp: bit_at_def word_less_nat_alt)
  qed
  then show ?thesis
    by (auto simp: availability_contains_def and_push_bit_1_iff unat_div_mod_8)
qed

lemma length_set_index [simp]: "length (set_index cc i bits) = length bits"
  by (simp add: set_index_def Let_def)

lemma bit_at_set_index:
  "length bits = bitmap_len cc \<Longrightarrow>
   bit_at (set_index cc i bits) n \<longleftrightarrow> bit_at bits n \<or> i < cc \<and> n = unat i"
proof -
  assume l: "length bits = bitmap_len cc"
  have "unat i < 8 * length bits" if "i < cc"
    using bitmap_len_bound [of "unat i" cc] that l
    by (simp add: word_less_nat_alt div_less_iff_less_mult mult.commute)
  then show ?thesis
    by (auto simp: set_index_def Let_def unat_div_mod_8 bit_at_update)
qed

lemma from_indices_bits:
  "length bits = bitmap_len cc \<Longrightarrow>
   length (fold (set_index cc) is bits) = bitmap_len cc
   \<and> (bit_at (fold (set_index cc) is bits) n
      \<longleftrightarrow> bit_at bits n \<or> (\<exists>i \<in> set is. i < cc \<and> n = unat i))"
  by (induction "is" arbitrary: bits) (auto simp: bit_at_set_index)

lemma from_indices_valid: "availability_is_valid (from_indices cc is)"
  using from_indices_bits [of "replicate (bitmap_len cc) 0" cc "is"]
  by (auto simp: availability_is_valid_iff from_indices_def word_less_nat_alt)

lemma from_indices_contains_iff:
  "availability_contains (from_indices cc is) i \<longleftrightarrow> i \<in> set is \<and> i < cc"
proof -
  have "bit_at (pa_bits (from_indices cc is)) (unat i) \<longleftrightarrow> i \<in> set is \<and> i < cc"
    using from_indices_bits [of "replicate (bitmap_len cc) 0" cc "is" "unat i"]
    by (auto simp: from_indices_def)
  then show ?thesis by (simp add: availability_contains_iff from_indices_valid)
qed

lemma availability_eqI:
  assumes "availability_is_valid a" "availability_is_valid b"
    and "pa_chunk_count a = pa_chunk_count b"
    and "\<And>i. availability_contains a i \<longleftrightarrow> availability_contains b i"
  shows "a = b"
proof -
  have "pa_bits a = pa_bits b"
  proof (rule bit_at_eqI)
    show "length (pa_bits a) = length (pa_bits b)"
      using assms by (simp add: availability_is_valid_iff)
    have in_range: "n < unat (pa_chunk_count a)" if "bit_at (pa_bits a) n \<or> bit_at (pa_bits b) n" for n
      using that assms by (auto simp: availability_is_valid_iff)
    show "bit_at (pa_bits a) n \<longleftrightarrow> bit_at (pa_bits b) n" for n
    proof (cases "n < unat (pa_chunk_count a)")
      case True
      then have "unat (of_nat n :: u32) = n"
        using unat_lt_u32 [of "pa_chunk_count a"] by (intro unat_of_nat_u32) linarith
      then show ?thesis
        using assms(4) [of "of_nat n"] assms(1,2) by (simp add: availability_contains_iff)
    qed (use in_range in blast)
  qed
  then show ?thesis using assms(3) by simp
qed

lemma bit_0xff: "bit (0xff :: u8) k \<longleftrightarrow> k < 8"
proof -
  have eq: "(0xff :: u8) = - 1" by simp
  show ?thesis unfolding eq by simp
qed

lemma bit_at_clear:
  assumes "0 < c mod 8" "length bs = c div 8 + 1"
  shows "bit_at (butlast bs @ [last bs AND (push_bit (c mod 8) 1 - 1)]) n \<longleftrightarrow> bit_at bs n \<and> n < c"
proof -
  have ne: "bs \<noteq> []" using assms by auto
  have last: "last bs = bs ! (c div 8)" using ne assms by (simp add: last_conv_nth)
  have nc: "n = 8 * (n div 8) + n mod 8" "c = 8 * (c div 8) + c mod 8" "n mod 8 < 8"
    by simp_all
  consider "n div 8 < c div 8" | "n div 8 = c div 8" | "c div 8 < n div 8" by linarith
  then show ?thesis
  proof cases
    case 1
    then have "n < c" using nc by linarith
    then show ?thesis using 1 assms by (simp add: bit_at_def nth_append nth_butlast)
  next
    case 2
    then have "n < c \<longleftrightarrow> n mod 8 < c mod 8" using nc by linarith
    then show ?thesis
      using 2 assms last by (auto simp: bit_at_def nth_append push_bit_minus_1_mask bit_and_iff bit_mask_iff)
  next
    case 3
    then show ?thesis using assms by (simp add: bit_at_def)
  qed
qed

lemma availability_all_bits:
  "length (pa_bits (availability_all cc)) = bitmap_len cc
   \<and> pa_chunk_count (availability_all cc) = cc
   \<and> (bit_at (pa_bits (availability_all cc)) n \<longleftrightarrow> n < unat cc)"
proof (cases "unat cc mod 8 = 0")
  case True
  then have "bitmap_len cc * 8 = unat cc" by (auto simp: bitmap_len_def div_ceil_def)
  moreover have "bit (0xff :: u8) (n mod 8)" by (simp only: bit_0xff)
  ultimately show ?thesis
    using True
    by (auto simp: availability_all_def clear_unused_bits_def Let_def bit_at_def
        div_less_iff_less_mult)
next
  case False
  define bs where "bs = replicate (bitmap_len cc) (0xff :: u8)"
  have l: "length bs = unat cc div 8 + 1" using False by (simp add: bs_def bitmap_len_def div_ceil_def)
  then have ne: "bs \<noteq> []" by auto
  have "bit_at bs n" if "n < unat cc"
    using bitmap_len_bound [OF that] bit_0xff [of "n mod 8"] by (simp add: bit_at_def bs_def)
  then have "bit_at (butlast bs @ [last bs AND (push_bit (unat cc mod 8) 1 - 1)]) n \<longleftrightarrow> n < unat cc"
    using bit_at_clear [OF _ l] False by auto
  moreover have "availability_all cc =
      \<lparr>pa_chunk_count = cc,
       pa_bits = butlast bs @ [last bs AND (push_bit (unat cc mod 8) 1 - 1)]\<rparr>"
    using False ne by (simp add: availability_all_def clear_unused_bits_def Let_def bs_def [symmetric])
  moreover have "bitmap_len cc = length bs" by (simp add: bs_def)
  ultimately show ?thesis using ne by simp
qed

section \<open>Properties\<close>

text \<open>
  \<open>from_indices\<close> builds a valid bitmap that contains exactly the given indices below the
  chunk count, and \<open>all\<close> builds a valid bitmap that contains every index below it.
\<close>

theorem availability_membership:
  "availability_is_valid (from_indices cc is)
   \<and> (availability_contains (from_indices cc is) i \<longleftrightarrow> i \<in> set is \<and> i < cc)
   \<and> availability_is_valid (availability_all cc)
   \<and> (availability_contains (availability_all cc) i \<longleftrightarrow> i < cc)"
proof -
  have all: "availability_is_valid (availability_all cc)"
    using availability_all_bits [of cc] by (simp add: availability_is_valid_iff)
  then have "availability_contains (availability_all cc) i \<longleftrightarrow> i < cc"
    using availability_all_bits [of cc]
    by (simp add: availability_contains_iff word_less_nat_alt)
  with all show ?thesis by (simp add: from_indices_valid from_indices_contains_iff)
qed

text \<open>
  The representation is canonical: a valid bitmap is determined by its chunk count and the
  indices it contains, and rebuilding it from those indices gives it back.
\<close>

theorem availability_canonical:
  assumes "availability_is_valid a"
  shows "from_indices (pa_chunk_count a)
           (filter (availability_contains a) (map of_nat [0..<unat (pa_chunk_count a)])) = a"
proof (rule availability_eqI)
  let ?is = "filter (availability_contains a) (map of_nat [0..<unat (pa_chunk_count a)])"
  have "i \<in> set ?is" if "availability_contains a i" for i
  proof -
    have "unat i < unat (pa_chunk_count a)"
      using that by (simp add: availability_contains_def word_less_nat_alt)
    moreover have "i = of_nat (unat i)" by simp
    ultimately have "i \<in> of_nat ` {0..<unat (pa_chunk_count a)}" by (intro image_eqI) auto
    then show ?thesis using that by simp
  qed
  moreover have "i < pa_chunk_count a" if "availability_contains a i" for i
    using that by (simp add: availability_contains_def)
  ultimately show "availability_contains (from_indices (pa_chunk_count a) ?is) i
      \<longleftrightarrow> availability_contains a i" for i
    unfolding from_indices_contains_iff by auto
  show "availability_is_valid (from_indices (pa_chunk_count a) ?is)" by (rule from_indices_valid)
  show "pa_chunk_count (from_indices (pa_chunk_count a) ?is) = pa_chunk_count a"
    by (simp add: from_indices_def)
qed (rule assms)

theorem availability_canonical_witness:
  "from_indices 10 (filter (availability_contains (from_indices 10 [1, 9])) (map of_nat [0..<10]))
   = from_indices 10 [1, 9]"
  using availability_canonical [of "from_indices 10 [1, 9]"]
  by (simp add: from_indices_valid) (simp add: from_indices_def)

end
