(* ===== verification/Wire.thy ===== *)
theory Wire
  imports Availability
begin

text \<open>
  The byte-level \<open>Writer\<close> and \<open>Reader\<close> of \<open>triptorrent-protocol/src/lib.rs\<close>, the bounds of the
  format, and the error type.  Every field codec satisfies the laws of the locale
  \<open>wire_codec\<close>: writing a valid value appends its encoding, and reading succeeds exactly where
  the input continues with the encoding of a valid value, which it consumes.  The locale carries
  the facts about counted sequences and about unique decoding.
\<close>

section \<open>Bounds and errors\<close>

definition MAX_APPLICATION_MESSAGE_BYTES :: nat where
  "MAX_APPLICATION_MESSAGE_BYTES = 65519"

definition MAX_OVERLAY_MESSAGE_BYTES :: nat where
  "MAX_OVERLAY_MESSAGE_BYTES = 256 * 1024"

definition MAX_ADVERTISED_CONTENT_IDS :: nat where
  "MAX_ADVERTISED_CONTENT_IDS = 256"

definition WIRE_MAGIC :: "u8 list" where
  "WIRE_MAGIC = ascii ''TTP1''"

definition MAX_ERROR_TEXT_BYTES :: nat where
  "MAX_ERROR_TEXT_BYTES = 1024"

definition MAX_CAPABILITIES :: nat where
  "MAX_CAPABILITIES = 8"

definition MAX_DISCOVERY_ROUTES :: nat where
  "MAX_DISCOVERY_ROUTES = 16"

definition MAX_TESTNET_MANIFEST_CHUNKS :: nat where
  "MAX_TESTNET_MANIFEST_CHUNKS = 2036"

definition DOMAIN_APPLICATION :: u8 where
  "DOMAIN_APPLICATION = 1"

definition DOMAIN_OVERLAY_REQUEST :: u8 where
  "DOMAIN_OVERLAY_REQUEST = 2"

definition DOMAIN_OVERLAY_RESPONSE :: u8 where
  "DOMAIN_OVERLAY_RESPONSE = 3"

datatype protocol_error =
    Malformed string
  | UnsupportedVersion u16
  | WrongNetwork str
  | UnsupportedCapability u16
  | UnknownMessage u8
  | InvalidMessage string
  | MessageTooLarge nat

definition ensure_size :: "u8 list \<Rightarrow> nat \<Rightarrow> protocol_error + unit" where
  "ensure_size bytes limit =
    (if limit < length bytes then Inl (MessageTooLarge limit) else Inr ())"

lemma ensure_size_Inr_iff [result_iffs]: "ensure_size bs n = Inr u \<longleftrightarrow> length bs \<le> n"
  by (simp add: ensure_size_def)

section \<open>Writer\<close>

record writer =
  w_bytes :: "u8 list"

definition write_raw :: "u8 list \<Rightarrow> writer \<Rightarrow> writer" where
  "write_raw v w = w\<lparr>w_bytes := w_bytes w @ v\<rparr>"

definition write_u8 :: "u8 \<Rightarrow> writer \<Rightarrow> writer" where
  "write_u8 v w = w\<lparr>w_bytes := w_bytes w @ [v]\<rparr>"

definition write_u16 :: "u16 \<Rightarrow> writer \<Rightarrow> writer" where
  "write_u16 v w = write_raw (u16_to_be_bytes v) w"

definition write_u32 :: "u32 \<Rightarrow> writer \<Rightarrow> writer" where
  "write_u32 v w = write_raw (u32_to_be_bytes v) w"

definition write_u64 :: "u64 \<Rightarrow> writer \<Rightarrow> writer" where
  "write_u64 v w = write_raw (u64_to_be_bytes v) w"

definition write_bytes :: "u8 list \<Rightarrow> writer \<Rightarrow> protocol_error + writer" where
  "write_bytes v w =
    and_then (ok_or (u32_try_from (length v)) (Malformed ''byte string too long'')) (\<lambda>n.
    Inr (write_raw v (write_u32 n w)))"

definition write_string :: "str \<Rightarrow> writer \<Rightarrow> protocol_error + writer" where
  "write_string v w =
    and_then (ok_or (u16_try_from (length v)) (Malformed ''string too long'')) (\<lambda>n.
    Inr (write_raw v (write_u16 n w)))"

definition write_content_id :: "content_id \<Rightarrow> writer \<Rightarrow> writer" where
  "write_content_id v w = write_raw (bytes_of (content_id_as_bytes v)) w"

definition write_peer_id :: "peer_id \<Rightarrow> writer \<Rightarrow> writer" where
  "write_peer_id v w = write_raw (bytes_of (peer_id_as_bytes v)) w"

text \<open>\<open>Writer::new\<close>: magic, version, network identifier and message domain.\<close>

definition writer_new :: "u8 \<Rightarrow> writer" where
  "writer_new domain =
    write_u8 domain
      (write_raw NETWORK_ID
        (write_u8 (of_nat (length NETWORK_ID))
          (write_u16 PROTOCOL_VERSION
            (write_raw WIRE_MAGIC \<lparr>w_bytes = []\<rparr>))))"

definition writer_finish :: "nat \<Rightarrow> writer \<Rightarrow> protocol_error + u8 list" where
  "writer_finish limit w = and_then (ensure_size (w_bytes w) limit) (\<lambda>_. Inr (w_bytes w))"

text \<open>The \<open>for\<close> loops that write every element of a vector.\<close>

fun write_each :: "('a \<Rightarrow> writer \<Rightarrow> protocol_error + writer) \<Rightarrow> 'a list \<Rightarrow> writer \<Rightarrow> protocol_error + writer" where
  "write_each wr [] w = Inr w"
| "write_each wr (v # vs) w = and_then (wr v w) (write_each wr vs)"

section \<open>Reader\<close>

record reader =
  r_bytes :: "u8 list"
  r_offset :: nat

type_synonym 'a read = "reader \<Rightarrow> protocol_error + 'a \<times> reader"

definition read_take :: "nat \<Rightarrow> u8 list read" where
  "read_take n r =
    and_then (ok_or (checked_add_usize (r_offset r) n) (Malformed ''length overflow'')) (\<lambda>end.
    if r_offset r \<le> end \<and> end \<le> length (r_bytes r)
    then Inr (take n (drop (r_offset r) (r_bytes r)), r\<lparr>r_offset := end\<rparr>)
    else Inl (Malformed ''truncated input''))"

definition read_u8 :: "u8 read" where
  "read_u8 r = and_then (read_take 1 r) (\<lambda>(bs, r). Inr (hd bs, r))"

text \<open>\<open>Reader::array\<close>: the slice has the requested length, so the conversion cannot fail.\<close>

definition read_array :: "nat \<Rightarrow> u8 list read" where
  "read_array n r =
    and_then (read_take n r) (\<lambda>(bs, r).
    if length bs = n then Inr (bs, r) else Inl (Malformed ''truncated fixed field''))"

definition read_u16 :: "u16 read" where
  "read_u16 r = and_then (read_array 2 r) (\<lambda>(bs, r). Inr (u16_from_be_bytes bs, r))"

definition read_u32 :: "u32 read" where
  "read_u32 r = and_then (read_array 4 r) (\<lambda>(bs, r). Inr (u32_from_be_bytes bs, r))"

definition read_u64 :: "u64 read" where
  "read_u64 r = and_then (read_array 8 r) (\<lambda>(bs, r). Inr (u64_from_be_bytes bs, r))"

definition read_bytes32 :: "bytes32 read" where
  "read_bytes32 r = and_then (read_array 32 r) (\<lambda>(bs, r). Inr (mk_bytes32 bs, r))"

definition read_bytes :: "nat \<Rightarrow> u8 list read" where
  "read_bytes maximum r =
    and_then (read_u32 r) (\<lambda>(n, r).
    if maximum < unat n then Inl (InvalidMessage ''byte string exceeds bound'')
    else read_take (unat n) r)"

definition read_string :: "nat \<Rightarrow> str read" where
  "read_string maximum r =
    and_then (read_u16 r) (\<lambda>(n, r).
    if maximum < unat n then Inl (InvalidMessage ''string exceeds bound'')
    else and_then (read_take (unat n) r) (\<lambda>(bs, r).
      if utf8 bs then Inr (bs, r) else Inl (Malformed ''string is not UTF-8'')))"

definition read_content_id :: "content_id read" where
  "read_content_id r = and_then (read_bytes32 r) (\<lambda>(b, r). Inr (ContentId b, r))"

definition read_peer_id :: "peer_id read" where
  "read_peer_id r = and_then (read_bytes32 r) (\<lambda>(b, r). Inr (PeerId b, r))"

definition read_chunk_id :: "chunk_id read" where
  "read_chunk_id r = and_then (read_bytes32 r) (\<lambda>(b, r). Inr (ChunkId b, r))"

definition reader_end :: "reader \<Rightarrow> protocol_error + unit" where
  "reader_end r =
    (if r_offset r = length (r_bytes r) then Inr () else Inl (Malformed ''trailing bytes''))"

text \<open>\<open>Reader::new\<close>: the header checks, in order, on a reader at offset 0.\<close>

definition read_header :: "u8 \<Rightarrow> unit read" where
  "read_header domain r =
    and_then (read_take 4 r) (\<lambda>(magic, r).
    if magic \<noteq> WIRE_MAGIC then Inl (Malformed ''invalid magic'')
    else and_then (read_u16 r) (\<lambda>(version, r).
    if version \<noteq> PROTOCOL_VERSION then Inl (UnsupportedVersion version)
    else and_then (read_u8 r) (\<lambda>(n, r).
    and_then (read_take (unat n) r) (\<lambda>(network, r).
    if \<not> utf8 network then Inl (Malformed ''network identifier is not UTF-8'')
    else if network \<noteq> NETWORK_ID then Inl (WrongNetwork network)
    else and_then (read_u8 r) (\<lambda>(d, r).
    if d \<noteq> domain then Inl (Malformed ''wrong message domain'') else Inr ((), r))))))"

definition reader_new :: "u8 list \<Rightarrow> u8 \<Rightarrow> protocol_error + reader" where
  "reader_new bytes domain =
    and_then (read_header domain \<lparr>r_bytes = bytes, r_offset = 0\<rparr>) (\<lambda>(_, r). Inr r)"

text \<open>The \<open>for _ in 0..count\<close> loops that read a counted sequence.\<close>

fun read_n :: "'a read \<Rightarrow> nat \<Rightarrow> 'a list read" where
  "read_n rd 0 r = Inr ([], r)"
| "read_n rd (Suc n) r =
    and_then (rd r) (\<lambda>(v, r). and_then (read_n rd n r) (\<lambda>(vs, r). Inr (v # vs, r)))"

section \<open>Laws of readers\<close>

text \<open>
  \<open>rest r\<close> is the unread input.  A reader is \<open>reader_ok\<close> when its offset lies inside a slice that
  fits in memory; every reader the code builds is.
\<close>

definition reader_ok :: "reader \<Rightarrow> bool" where
  "reader_ok r \<longleftrightarrow> r_offset r \<le> length (r_bytes r) \<and> length (r_bytes r) \<le> usize_max"

definition rest :: "reader \<Rightarrow> u8 list" where
  "rest r = drop (r_offset r) (r_bytes r)"

definition advance :: "nat \<Rightarrow> reader \<Rightarrow> reader" where
  "advance n r = r\<lparr>r_offset := r_offset r + n\<rparr>"

definition decodes :: "'a read \<Rightarrow> ('a \<Rightarrow> u8 list) \<Rightarrow> ('a \<Rightarrow> bool) \<Rightarrow> bool" where
  "decodes rd enc valid \<longleftrightarrow>
    (\<forall>r v r'. reader_ok r \<longrightarrow>
      (rd r = Inr (v, r') \<longleftrightarrow>
       valid v \<and> r' = advance (length (enc v)) r \<and> (\<exists>suf. rest r = enc v @ suf)))"

lemma decodesD:
  "decodes rd enc valid \<Longrightarrow> reader_ok r \<Longrightarrow>
   rd r = Inr (v, r') \<longleftrightarrow> valid v \<and> r' = advance (length (enc v)) r \<and> (\<exists>suf. rest r = enc v @ suf)"
  by (simp add: decodes_def)

lemma decodesI:
  assumes "\<And>r v r'. reader_ok r \<Longrightarrow>
    rd r = Inr (v, r') \<longleftrightarrow> valid v \<and> r' = advance (length (enc v)) r \<and> (\<exists>suf. rest r = enc v @ suf)"
  shows "decodes rd enc valid"
  using assms by (simp add: decodes_def)

lemma advance_simps [simp]:
  "advance 0 r = r" "advance m (advance n r) = advance (n + m) r"
  "r_bytes (advance n r) = r_bytes r" "r_offset (advance n r) = r_offset r + n"
  by (simp_all add: advance_def)

lemma rest_length: "reader_ok r \<Longrightarrow> length (rest r) = length (r_bytes r) - r_offset r"
  by (simp add: rest_def)

lemma reader_ok_advance:
  "reader_ok r \<Longrightarrow> rest r = a @ suf \<Longrightarrow> reader_ok (advance (length a) r)"
  using rest_length [of r] by (auto simp: reader_ok_def)

lemma rest_advance: "rest r = a @ suf \<Longrightarrow> rest (advance (length a) r) = suf"
  by (simp add: rest_def advance_def add.commute flip: drop_drop)

text \<open>
  Sequencing: the value read first is a projection \<open>g\<close> of the final value, and its encoding comes
  first.
\<close>

lemma decodes_bind:
  assumes "decodes ra ea va"
    and "\<And>a. va a \<Longrightarrow> decodes (k a) (e a) (\<lambda>c. g c = a \<and> v a c)"
  shows "decodes (\<lambda>r. and_then (ra r) (\<lambda>(a, r). k a r))
           (\<lambda>c. ea (g c) @ e (g c) c) (\<lambda>c. va (g c) \<and> v (g c) c)"
proof (rule decodesI)
  fix r c r' assume ok: "reader_ok r"
  show "and_then (ra r) (\<lambda>(a, r). k a r) = Inr (c, r') \<longleftrightarrow>
    (va (g c) \<and> v (g c) c) \<and> r' = advance (length (ea (g c) @ e (g c) c)) r
    \<and> (\<exists>suf. rest r = (ea (g c) @ e (g c) c) @ suf)" (is "?L \<longleftrightarrow> ?R")
  proof
    assume ?L
    then obtain a r1 where a: "ra r = Inr (a, r1)" and c: "k a r1 = Inr (c, r')"
      by (auto simp: result_iffs)
    then obtain suf where va: "va a" and r1: "r1 = advance (length (ea a)) r"
      and suf: "rest r = ea a @ suf"
      using decodesD [OF assms(1) ok] by auto
    have "reader_ok r1" "rest r1 = suf"
      using reader_ok_advance [OF ok suf] rest_advance [OF suf] r1 by auto
    then obtain suf' where "g c = a" "v a c" "r' = advance (length (e a c)) r1" "suf = e a c @ suf'"
      using decodesD [OF assms(2) [OF va], of r1 c r'] c by auto
    then show ?R using va suf r1 by auto
  next
    assume R: ?R
    then obtain suf where suf: "rest r = ea (g c) @ e (g c) c @ suf" by auto
    let ?r1 = "advance (length (ea (g c))) r"
    have "ra r = Inr (g c, ?r1)"
      using decodesD [OF assms(1) ok, of "g c" ?r1] R suf by auto
    moreover have "k (g c) ?r1 = Inr (c, r')"
      using decodesD [OF assms(2) reader_ok_advance [OF ok suf], of "g c" c r'] R
        rest_advance [OF suf] by auto
    ultimately show ?L by simp
  qed
qed

lemma decodes_return: "decodes (\<lambda>r. Inr (c0, r)) (\<lambda>_. []) (\<lambda>c. c = c0)"
  by (rule decodesI) auto

lemma decodes_fail: "decodes (\<lambda>r. Inl e) enc (\<lambda>_. False)"
  by (rule decodesI) simp

lemma decodes_cong:
  "decodes rd enc valid \<Longrightarrow> (\<And>v. valid v \<longleftrightarrow> valid' v) \<Longrightarrow> (\<And>v. valid' v \<Longrightarrow> enc v = enc' v) \<Longrightarrow>
   decodes rd enc' valid'"
  unfolding decodes_def by (metis (no_types, lifting))

text \<open>Applying a constructor to the value read.\<close>

lemma decodes_map:
  assumes "decodes rd e v"
    and "\<And>c. valid c \<longleftrightarrow> (\<exists>a. c = f a \<and> v a)"
    and "\<And>a. v a \<Longrightarrow> enc (f a) = e a"
  shows "decodes (\<lambda>r. and_then (rd r) (\<lambda>(a, r). Inr (f a, r))) enc valid"
proof (rule decodesI)
  fix r c r' assume "reader_ok r"
  note rd = decodesD [OF assms(1) this]
  show "and_then (rd r) (\<lambda>(a, r). Inr (f a, r)) = Inr (c, r') \<longleftrightarrow>
    valid c \<and> r' = advance (length (enc c)) r \<and> (\<exists>suf. rest r = enc c @ suf)"
    using assms(3) by (auto simp: result_iffs rd assms(2))
qed

text \<open>The same with a projection \<open>g\<close> that inverts the constructor.\<close>

lemma decodes_build:
  assumes "decodes rd e v" and "\<And>a. g (f a) = a"
  shows "decodes (\<lambda>r. and_then (rd r) (\<lambda>(a, r). Inr (f a, r)))
    (\<lambda>c. e (g c)) (\<lambda>c. c = f (g c) \<and> v (g c))"
  by (rule decodes_map [OF assms(1)]) (use assms(2) in auto)

lemma decodes_take: "decodes (read_take n) (\<lambda>v. v) (\<lambda>v. length v = n)"
proof (rule decodesI)
  fix r v r' assume ok: "reader_ok r"
  have "read_take n r =
    (if n \<le> length (rest r) then Inr (take n (rest r), advance n r)
     else if usize_max < r_offset r + n then Inl (Malformed ''length overflow'')
     else Inl (Malformed ''truncated input''))"
    using ok by (auto simp: read_take_def rest_def advance_def checked_add_usize_def reader_ok_def)
  then show "read_take n r = Inr (v, r') \<longleftrightarrow>
    length v = n \<and> r' = advance (length v) r \<and> (\<exists>suf. rest r = v @ suf)"
    by (auto intro: exI [of _ "drop n (rest r)"])
qed

lemma decodes_array: "decodes (read_array n) (\<lambda>v. v) (\<lambda>v. length v = n)"
proof (rule decodesI)
  fix r v r' assume "reader_ok r"
  note take = decodesD [OF decodes_take this]
  show "read_array n r = Inr (v, r') \<longleftrightarrow>
    length v = n \<and> r' = advance (length v) r \<and> (\<exists>suf. rest r = v @ suf)"
    by (auto simp: read_array_def result_iffs take split: if_splits)
qed

section \<open>The interface of a field codec\<close>

locale wire_codec =
  fixes wr :: "'a \<Rightarrow> writer \<Rightarrow> protocol_error + writer"
    and rd :: "'a read"
    and enc :: "'a \<Rightarrow> u8 list"
    and valid :: "'a \<Rightarrow> bool"
  assumes writes: "valid v \<Longrightarrow> wr v w = Inr (write_raw (enc v) w)"
    and reads: "decodes rd enc valid"
begin

lemma read_back:
  "valid v \<Longrightarrow> reader_ok r \<Longrightarrow> rest r = enc v @ suf \<Longrightarrow> rd r = Inr (v, advance (length (enc v)) r)"
  using decodesD [OF reads] by blast

lemma unique_decoding:
  assumes "valid v" "valid v'" "enc v @ s = enc v' @ s'" "length (enc v @ s) \<le> usize_max"
  shows "v = v' \<and> s = s'"
proof -
  let ?r = "\<lparr>r_bytes = enc v @ s, r_offset = 0\<rparr>"
  have r: "reader_ok ?r" "rest ?r = enc v @ s" "rest ?r = enc v' @ s'"
    using assms(3,4) by (simp_all add: reader_ok_def rest_def)
  then have "rd ?r = Inr (v, advance (length (enc v)) ?r)"
    and "rd ?r = Inr (v', advance (length (enc v')) ?r)"
    using read_back assms(1,2) by blast+
  then have "v = v'" by simp
  with assms(3) show ?thesis by simp
qed

lemma writes_each:
  "list_all valid vs \<Longrightarrow> write_each wr vs w = Inr (write_raw (concat (map enc vs)) w)"
  by (induction vs arbitrary: w) (auto simp: writes write_raw_def)

lemma reads_n:
  "decodes (read_n rd n) (\<lambda>vs. concat (map enc vs)) (\<lambda>vs. length vs = n \<and> list_all valid vs)"
proof (induction n)
  case 0
  show ?case by (rule decodesI) auto
next
  case (Suc n)
  have tail: "decodes (\<lambda>r. and_then (read_n rd n r) (\<lambda>(vs, r). Inr (v # vs, r)))
      (\<lambda>vs. concat (map enc (tl vs)))
      (\<lambda>vs. hd vs = v \<and> (vs \<noteq> [] \<and> length vs = Suc n \<and> list_all valid (tl vs)))" for v
    by (rule decodes_map [OF Suc]) (auto simp: neq_Nil_conv)
  have step: "read_n rd (Suc n) = (\<lambda>r. and_then (rd r) (\<lambda>(v, r).
      and_then (read_n rd n r) (\<lambda>(vs, r). Inr (v # vs, r))))"
    by (rule ext) simp
  show ?case
    unfolding step
    by (rule decodes_cong [OF decodes_bind [OF reads tail]]) (auto simp: neq_Nil_conv length_Suc_conv)
qed

end

section \<open>The field codecs\<close>

lemma write_raw_append [simp]: "write_raw b (write_raw a w) = write_raw (a @ b) w"
  by (simp add: write_raw_def)

lemma write_u8_raw: "write_u8 v w = write_raw [v] w"
  by (simp add: write_u8_def write_raw_def)

lemma write_raw_Nil [simp]: "write_raw [] w = w"
  by (simp add: write_raw_def)

lemmas write_raws = write_u8_raw write_u16_def write_u32_def write_u64_def write_content_id_def
  write_peer_id_def

interpretation u8_codec: wire_codec "\<lambda>v w. Inr (write_u8 v w)" read_u8 "\<lambda>v. [v]" "\<lambda>_. True"
proof
  show "decodes read_u8 (\<lambda>v. [v]) (\<lambda>_. True)"
    unfolding read_u8_def [abs_def]
    by (rule decodes_map [OF decodes_take])
      (auto simp: length_Suc_conv intro: exI [of _ "[c]" for c])
qed (simp add: write_raws)

interpretation u16_codec: wire_codec "\<lambda>v w. Inr (write_u16 v w)" read_u16 u16_to_be_bytes "\<lambda>_. True"
proof
  show "decodes read_u16 u16_to_be_bytes (\<lambda>_. True)"
    unfolding read_u16_def [abs_def]
    by (rule decodes_map [OF decodes_array]) (auto intro: exI [of _ "u16_to_be_bytes c" for c])
qed (simp add: write_raws)

interpretation u32_codec: wire_codec "\<lambda>v w. Inr (write_u32 v w)" read_u32 u32_to_be_bytes "\<lambda>_. True"
proof
  show "decodes read_u32 u32_to_be_bytes (\<lambda>_. True)"
    unfolding read_u32_def [abs_def]
    by (rule decodes_map [OF decodes_array]) (auto intro: exI [of _ "u32_to_be_bytes c" for c])
qed (simp add: write_raws)

interpretation u64_codec: wire_codec "\<lambda>v w. Inr (write_u64 v w)" read_u64 u64_to_be_bytes "\<lambda>_. True"
proof
  show "decodes read_u64 u64_to_be_bytes (\<lambda>_. True)"
    unfolding read_u64_def [abs_def]
    by (rule decodes_map [OF decodes_array]) (auto intro: exI [of _ "u64_to_be_bytes c" for c])
qed (simp add: write_raws)

interpretation key_codec:
  wire_codec "\<lambda>v w. Inr (write_raw (bytes_of v) w)" read_bytes32 bytes_of "\<lambda>_. True"
proof
  show "decodes read_bytes32 bytes_of (\<lambda>_. True)"
    unfolding read_bytes32_def [abs_def]
    by (rule decodes_map [OF decodes_array]) (auto intro: exI [of _ "bytes_of c" for c])
qed simp

interpretation content_id_codec:
  wire_codec "\<lambda>v w. Inr (write_content_id v w)" read_content_id "\<lambda>v. bytes_of (content_id_as_bytes v)"
    "\<lambda>_. True"
proof
  show "decodes read_content_id (\<lambda>v. bytes_of (content_id_as_bytes v)) (\<lambda>_. True)"
    unfolding read_content_id_def [abs_def]
    by (rule decodes_map [OF key_codec.reads]) (auto intro: exI [of _ "content_id_as_bytes c" for c])
qed (simp add: write_raws)

interpretation peer_id_codec:
  wire_codec "\<lambda>v w. Inr (write_peer_id v w)" read_peer_id "\<lambda>v. bytes_of (peer_id_as_bytes v)" "\<lambda>_. True"
proof
  show "decodes read_peer_id (\<lambda>v. bytes_of (peer_id_as_bytes v)) (\<lambda>_. True)"
    unfolding read_peer_id_def [abs_def]
    by (rule decodes_map [OF key_codec.reads]) (auto intro: exI [of _ "peer_id_as_bytes c" for c])
qed (simp add: write_raws)

interpretation chunk_id_codec:
  wire_codec "\<lambda>v w. Inr (write_raw (bytes_of (chunk_id_as_bytes v)) w)" read_chunk_id
    "\<lambda>v. bytes_of (chunk_id_as_bytes v)" "\<lambda>_. True"
proof
  show "decodes read_chunk_id (\<lambda>v. bytes_of (chunk_id_as_bytes v)) (\<lambda>_. True)"
    unfolding read_chunk_id_def [abs_def]
    by (rule decodes_map [OF key_codec.reads]) (auto intro: exI [of _ "chunk_id_as_bytes c" for c])
qed simp

text \<open>Length-prefixed byte strings and UTF-8 strings.\<close>

definition enc_bytes :: "u8 list \<Rightarrow> u8 list" where
  "enc_bytes v = u32_to_be_bytes (of_nat (length v)) @ v"

definition enc_string :: "str \<Rightarrow> u8 list" where
  "enc_string v = u16_to_be_bytes (of_nat (length v)) @ v"

lemma decodes_unless:
  "(\<not> P \<Longrightarrow> decodes rd e v) \<Longrightarrow> decodes (\<lambda>r. if P then Inl err else rd r) e (\<lambda>c. \<not> P \<and> v c)"
  by (cases P) (simp_all add: decodes_fail)

lemma decodes_bytes: "decodes (read_bytes n) enc_bytes (\<lambda>v. length v \<le> n \<and> length v \<le> u32_max)"
proof -
  have "decodes (\<lambda>r. if n < unat a then Inl (InvalidMessage ''byte string exceeds bound'')
      else read_take (unat a) r) (\<lambda>v. v)
      (\<lambda>v. of_nat (length v) = a \<and> length v = unat a \<and> length v \<le> n)" for a :: u32
    by (rule decodes_cong [OF decodes_unless [OF decodes_take]]) auto
  then show ?thesis
    unfolding read_bytes_def [abs_def]
    by (rule decodes_cong [OF decodes_bind [OF u32_codec.reads]])
      (auto simp: enc_bytes_def eq_unat_of_nat_u32)
qed

interpretation bytes_codec:
  wire_codec write_bytes "read_bytes n" enc_bytes "\<lambda>v. length v \<le> n \<and> length v \<le> u32_max" for n
proof
  show "write_bytes v w = Inr (write_raw (enc_bytes v) w)"
    if "length v \<le> n \<and> length v \<le> u32_max" for v w
    using that by (simp add: write_bytes_def u32_try_from_def write_raws enc_bytes_def)
qed (rule decodes_bytes)

lemma decodes_string:
  "decodes (read_string n) enc_string (\<lambda>v. length v \<le> n \<and> length v < 2 ^ 16 \<and> utf8 v)"
proof -
  have "decodes (\<lambda>r. and_then (read_take (unat a) r) (\<lambda>(bs, r).
      if utf8 bs then Inr (bs, r) else Inl (Malformed ''string is not UTF-8'')))
      (\<lambda>v. v @ []) (\<lambda>v. length v = unat a \<and> utf8 v)" for a :: u16
  proof (rule decodes_bind [OF decodes_take])
    fix v :: str
    show "decodes (\<lambda>r. if utf8 v then Inr (v, r) else Inl (Malformed ''string is not UTF-8''))
        (\<lambda>_. []) (\<lambda>c. c = v \<and> utf8 c)"
      by (cases "utf8 v") (auto intro: decodes_cong [OF decodes_return] decodes_cong [OF decodes_fail])
  qed
  then have "decodes (\<lambda>r. if n < unat a then Inl (InvalidMessage ''string exceeds bound'')
      else and_then (read_take (unat a) r) (\<lambda>(bs, r).
      if utf8 bs then Inr (bs, r) else Inl (Malformed ''string is not UTF-8'')))
      (\<lambda>v. v) (\<lambda>v. of_nat (length v) = a \<and> length v = unat a \<and> length v \<le> n \<and> utf8 v)"
    for a :: u16
    by (intro decodes_cong [OF decodes_unless]) auto
  then show ?thesis
    unfolding read_string_def [abs_def]
    by (rule decodes_cong [OF decodes_bind [OF u16_codec.reads]])
      (auto simp: enc_string_def unat_of_nat intro: sym)
qed

interpretation string_codec:
  wire_codec write_string "read_string n" enc_string
    "\<lambda>v. length v \<le> n \<and> length v < 2 ^ 16 \<and> utf8 v" for n
proof
  show "write_string v w = Inr (write_raw (enc_string v) w)"
    if "length v \<le> n \<and> length v < 2 ^ 16 \<and> utf8 v" for v w
    using that by (simp add: write_string_def u16_try_from_def write_raws enc_string_def)
qed (rule decodes_string)

section \<open>The record header\<close>

definition header :: "u8 \<Rightarrow> u8 list" where
  "header domain =
    WIRE_MAGIC @ u16_to_be_bytes PROTOCOL_VERSION @ [of_nat (length NETWORK_ID)]
    @ NETWORK_ID @ [domain]"

lemma writer_new_header: "writer_new domain = \<lparr>w_bytes = header domain\<rparr>"
  by (simp add: writer_new_def header_def write_raws write_raw_def)

lemma length_NETWORK_ID: "length NETWORK_ID = 21"
  by (simp add: NETWORK_ID_def ascii_def)

lemma length_header [simp]: "length (header domain) = 29"
  by (simp add: header_def WIRE_MAGIC_def ascii_def length_NETWORK_ID)

lemma utf8_NETWORK_ID: "utf8 NETWORK_ID"
  by (simp add: NETWORK_ID_def ascii_def)

lemma decodes_header: "decodes (read_header domain) (\<lambda>_. header domain) (\<lambda>_. True)"
proof -
  let ?dom = "\<lambda>r. and_then (read_u8 r) (\<lambda>(d, r).
      if d \<noteq> domain then Inl (Malformed ''wrong message domain'') else Inr ((), r))"
  let ?net = "\<lambda>n r. and_then (read_take (unat (n :: u8)) r) (\<lambda>(network, r).
      if \<not> utf8 network then Inl (Malformed ''network identifier is not UTF-8'')
      else if network \<noteq> NETWORK_ID then Inl (WrongNetwork network) else ?dom r)"
  let ?len = "\<lambda>r. and_then (read_u8 r) (\<lambda>(n, r). ?net n r)"
  let ?ver = "\<lambda>r. and_then (read_u16 r) (\<lambda>(version, r).
      if version \<noteq> PROTOCOL_VERSION then Inl (UnsupportedVersion version) else ?len r)"
  have dom: "decodes ?dom (\<lambda>_. [domain] @ []) (\<lambda>_. True \<and> True)"
    by (rule decodes_bind [OF u8_codec.reads, where g = "\<lambda>_. domain"])
      (rule decodes_cong [OF decodes_unless [OF decodes_return]], auto)
  have net: "decodes (?net n) (\<lambda>_. NETWORK_ID @ [domain]) (\<lambda>_. length NETWORK_ID = unat n \<and> True)"
    for n :: u8
    by (rule decodes_bind [OF decodes_take, where g = "\<lambda>_. NETWORK_ID"])
      (rule decodes_cong [OF decodes_unless [OF decodes_unless [OF dom]]],
        auto simp: utf8_NETWORK_ID)
  have len: "decodes ?len (\<lambda>_. [of_nat (length NETWORK_ID)] @ NETWORK_ID @ [domain]) (\<lambda>_. True \<and> True)"
    by (rule decodes_bind [OF u8_codec.reads, where g = "\<lambda>_. of_nat (length NETWORK_ID)"])
      (rule decodes_cong [OF net], auto simp: length_NETWORK_ID dest: sym eq_of_nat_unat)
  have ver: "decodes ?ver (\<lambda>_. u16_to_be_bytes PROTOCOL_VERSION
      @ [of_nat (length NETWORK_ID)] @ NETWORK_ID @ [domain]) (\<lambda>_. True \<and> True)"
    by (rule decodes_bind [OF u16_codec.reads, where g = "\<lambda>_. PROTOCOL_VERSION"])
      (rule decodes_cong [OF decodes_unless [OF len]], auto)
  have "decodes (\<lambda>r. and_then (read_take 4 r) (\<lambda>(magic, r).
      if magic \<noteq> WIRE_MAGIC then Inl (Malformed ''invalid magic'') else ?ver r))
      (\<lambda>_. WIRE_MAGIC @ u16_to_be_bytes PROTOCOL_VERSION
        @ [of_nat (length NETWORK_ID)] @ NETWORK_ID @ [domain]) (\<lambda>_. length WIRE_MAGIC = 4 \<and> True)"
    by (rule decodes_bind [OF decodes_take, where g = "\<lambda>_. WIRE_MAGIC"])
      (rule decodes_cong [OF decodes_unless [OF ver]], auto)
  then show ?thesis
    unfolding read_header_def [abs_def]
    by (rule decodes_cong) (auto simp: header_def WIRE_MAGIC_def ascii_def)
qed

lemma reader_new_Inr_iff:
  assumes "length bytes \<le> usize_max"
  shows "reader_new bytes domain = Inr r \<longleftrightarrow>
    (\<exists>suf. bytes = header domain @ suf) \<and> r = \<lparr>r_bytes = bytes, r_offset = 29\<rparr>"
proof -
  let ?r = "\<lparr>r_bytes = bytes, r_offset = 0\<rparr>"
  have "reader_ok ?r" "rest ?r = bytes" using assms by (simp_all add: reader_ok_def rest_def)
  note hd = decodesD [OF decodes_header this(1), unfolded this(2), of domain "()"]
  show ?thesis by (auto simp: reader_new_def result_iffs hd advance_def)
qed

text \<open>
  A complete record: header, body, the end of the input and the validation of the value.  The three decoders of the protocol
  and the three encoders have this shape.
\<close>

lemma record_read_iff:
  assumes "decodes rd enc valid" and "length bytes \<le> usize_max"
  shows "and_then (reader_new bytes domain) (\<lambda>r.
           and_then (rd r) (\<lambda>(v, r). and_then (reader_end r) (\<lambda>_.
           and_then (validate v) (\<lambda>_. Inr v)))) = Inr v
         \<longleftrightarrow> valid v \<and> validate v = Inr () \<and> bytes = header domain @ enc v"
proof -
  let ?r = "\<lparr>r_bytes = bytes, r_offset = 29\<rparr>"
  have step: "rd ?r = Inr (v, r') \<and> r_offset r' = length (r_bytes r') \<longleftrightarrow>
      valid v \<and> r' = advance (length (enc v)) ?r \<and> suf = enc v"
    if b: "bytes = header domain @ suf" for suf r'
  proof -
    have "reader_ok ?r" "rest ?r = suf" using b assms(2) by (simp_all add: reader_ok_def rest_def)
    note rd = decodesD [OF assms(1) this(1), unfolded this(2), of v r']
    have "length bytes = 29 + length suf" using b by simp
    then show ?thesis unfolding rd by auto
  qed
  show ?thesis
    using step by (auto simp: result_iffs reader_new_Inr_iff [OF assms(2)] reader_end_def
        split: if_splits)
qed

section \<open>Header failures\<close>

lemma read_take_back:
  "reader_ok r \<Longrightarrow> rest r = v @ suf \<Longrightarrow> length v = n \<Longrightarrow> read_take n r = Inr (v, advance n r)"
  using decodesD [OF decodes_take, of r n v "advance n r"] by auto

lemma reader_new_version:
  assumes "length bytes \<le> usize_max" "bytes = WIRE_MAGIC @ u16_to_be_bytes v @ suf"
    and "v \<noteq> PROTOCOL_VERSION"
  shows "reader_new bytes domain = Inl (UnsupportedVersion v)"
proof -
  let ?r = "\<lparr>r_bytes = bytes, r_offset = 0\<rparr>"
  have r: "reader_ok ?r" "rest ?r = WIRE_MAGIC @ u16_to_be_bytes v @ suf" and m: "length WIRE_MAGIC = 4"
    using assms by (simp_all add: reader_ok_def rest_def WIRE_MAGIC_def ascii_def)
  have r1: "reader_ok (advance 4 ?r)" "rest (advance 4 ?r) = u16_to_be_bytes v @ suf"
    using reader_ok_advance [OF r] rest_advance [OF r(2)] m by simp_all
  show ?thesis
    using read_take_back [OF r m] u16_codec.read_back [OF _ r1] assms(3)
    by (simp add: reader_new_def read_header_def)
qed

lemma reader_new_network:
  assumes "length bytes \<le> usize_max"
    and b: "bytes = WIRE_MAGIC @ u16_to_be_bytes PROTOCOL_VERSION @ [of_nat (length n)] @ n @ suf"
    and n: "length n < 256" "utf8 n" "n \<noteq> NETWORK_ID"
  shows "reader_new bytes domain = Inl (WrongNetwork n)"
proof -
  let ?r = "\<lparr>r_bytes = bytes, r_offset = 0\<rparr>" and ?v = "u16_to_be_bytes PROTOCOL_VERSION"
  let ?l = "[of_nat (length n) :: u8]"
  have r: "reader_ok ?r" "rest ?r = WIRE_MAGIC @ ?v @ ?l @ n @ suf" and m: "length WIRE_MAGIC = 4"
    using assms by (simp_all add: reader_ok_def rest_def WIRE_MAGIC_def ascii_def)
  have r1: "reader_ok (advance 4 ?r)" "rest (advance 4 ?r) = ?v @ ?l @ n @ suf"
    using reader_ok_advance [OF r] rest_advance [OF r(2)] m by simp_all
  have r2: "reader_ok (advance 6 ?r)" "rest (advance 6 ?r) = ?l @ n @ suf"
    using reader_ok_advance [OF r1] rest_advance [OF r1(2)] by simp_all
  have r3: "reader_ok (advance 7 ?r)" "rest (advance 7 ?r) = n @ suf"
    using reader_ok_advance [OF r2] rest_advance [OF r2(2)] by simp_all
  have "read_take 4 ?r = Inr (WIRE_MAGIC, advance 4 ?r)" by (rule read_take_back [OF r m])
  moreover have "read_u16 (advance 4 ?r) = Inr (PROTOCOL_VERSION, advance 6 ?r)"
    using u16_codec.read_back [OF _ r1] by simp
  moreover have "read_u8 (advance 6 ?r) = Inr (of_nat (length n), advance 7 ?r)"
    using u8_codec.read_back [OF _ r2] by simp
  moreover have "unat (of_nat (length n) :: u8) = length n" using n(1) by (simp add: unat_of_nat)
  moreover have "read_take (length n) (advance 7 ?r) = Inr (n, advance (length n) (advance 7 ?r))"
    by (rule read_take_back [OF r3 refl])
  ultimately show ?thesis using n by (simp add: reader_new_def read_header_def)
qed

lemma reader_new_header_back:
  "length bytes \<le> usize_max \<Longrightarrow> bytes = header domain @ suf \<Longrightarrow>
   reader_new bytes domain = Inr \<lparr>r_bytes = bytes, r_offset = 29\<rparr>"
  by (subst reader_new_Inr_iff) auto

end
