(* ===== verification/Messages.thy ===== *)
theory Messages
  imports Wire
begin

text \<open>
  Application records of \<open>triptorrent-protocol/src/lib.rs\<close>: \<open>Message\<close>, its validation, \<open>encode\<close>
  and \<open>decode\<close>.  The manifest and chunk fields are codecs in the sense of \<open>wire_codec\<close>; the main
  result is that \<open>decode\<close> accepts exactly the outputs of \<open>encode\<close>.
\<close>

section \<open>Messages and validation\<close>

datatype message =
    Request content_id
  | ManifestMsg manifest
  | ChunkMsg chunk
  | Complete
  | ErrorMsg str
  | SwarmRequest content_id
  | SwarmManifest manifest piece_availability
  | ChunkRequest u32
  | ChunkUnavailable u32
  | SwarmComplete

definition validate_manifest :: "manifest \<Rightarrow> protocol_error + unit" where
  "validate_manifest m =
    and_then (map_err (\<lambda>_. InvalidMessage ''malformed manifest shape'') (validate_shape m)) (\<lambda>_.
    if MAX_TESTNET_MANIFEST_CHUNKS < length (m_chunks m)
    then Inl (InvalidMessage ''manifest exceeds Testnet v1 record bound'')
    else Inr ())"

fun validate_message :: "message \<Rightarrow> protocol_error + unit" where
  "validate_message (ManifestMsg m) = validate_manifest m"
| "validate_message (ChunkMsg c) =
    (if CHUNK_SIZE < length (c_data c)
     then Inl (InvalidMessage ''chunk payload exceeds fixed chunk size'') else Inr ())"
| "validate_message (ErrorMsg t) =
    (if MAX_ERROR_TEXT_BYTES < length t
     then Inl (InvalidMessage ''error text exceeds bound'') else Inr ())"
| "validate_message (SwarmManifest m a) =
    and_then (validate_manifest m) (\<lambda>_.
    if pa_chunk_count a \<noteq> unwrap_or (u32_try_from (length (m_chunks m))) (- 1)
       \<or> \<not> availability_is_valid a
    then Inl (InvalidMessage ''piece availability does not match manifest'')
    else Inr ())"
| "validate_message _ = Inr ()"

section \<open>Fields\<close>

definition write_manifest :: "manifest \<Rightarrow> writer \<Rightarrow> protocol_error + writer" where
  "write_manifest m w =
    (let w = write_u32 (m_chunk_size m) (write_u64 (m_length m) (write_content_id (m_content_id m) w))
     in and_then (ok_or (u32_try_from (length (m_chunks m)))
          (InvalidMessage ''too many manifest chunks'')) (\<lambda>n.
        write_each (\<lambda>i w. Inr (write_raw (bytes_of (chunk_id_as_bytes i)) w)) (m_chunks m)
          (write_u32 n w)))"

definition read_manifest :: "manifest read" where
  "read_manifest r =
    and_then (read_content_id r) (\<lambda>(content_id, r).
    and_then (read_u64 r) (\<lambda>(len, r).
    and_then (read_u32 r) (\<lambda>(chunk_size, r).
    and_then (read_u32 r) (\<lambda>(count, r).
    if MAX_TESTNET_MANIFEST_CHUNKS < unat count
    then Inl (InvalidMessage ''too many manifest chunks'')
    else and_then (read_n read_chunk_id (unat count) r) (\<lambda>(chunks, r).
    Inr (\<lparr>m_content_id = content_id, m_length = len, m_chunk_size = chunk_size,
          m_chunks = chunks\<rparr>, r))))))"

definition write_chunk :: "chunk \<Rightarrow> writer \<Rightarrow> protocol_error + writer" where
  "write_chunk c w =
    write_bytes (c_data c) (write_raw (bytes_of (chunk_id_as_bytes (c_id c))) (write_u32 (c_index c) w))"

definition read_chunk :: "chunk read" where
  "read_chunk r =
    and_then (read_u32 r) (\<lambda>(index, r).
    and_then (read_chunk_id r) (\<lambda>(cid, r).
    and_then (read_bytes CHUNK_SIZE r) (\<lambda>(data, r).
    Inr (\<lparr>c_index = index, c_id = cid, c_data = data\<rparr>, r))))"

section \<open>Encoding and decoding\<close>

text \<open>The match of \<open>encode\<close>.\<close>

fun write_message :: "message \<Rightarrow> writer \<Rightarrow> protocol_error + writer" where
  "write_message (Request c) w = Inr (write_content_id c (write_u8 1 w))"
| "write_message (ManifestMsg m) w = write_manifest m (write_u8 2 w)"
| "write_message (ChunkMsg c) w = write_chunk c (write_u8 3 w)"
| "write_message Complete w = Inr (write_u8 4 w)"
| "write_message (ErrorMsg t) w = write_string t (write_u8 5 w)"
| "write_message (SwarmRequest c) w = Inr (write_content_id c (write_u8 16 w))"
| "write_message (SwarmManifest m a) w =
    and_then (write_manifest m (write_u8 17 w)) (\<lambda>w.
    write_bytes (pa_bits a) (write_u32 (pa_chunk_count a) w))"
| "write_message (ChunkRequest i) w = Inr (write_u32 i (write_u8 18 w))"
| "write_message (ChunkUnavailable i) w = Inr (write_u32 i (write_u8 19 w))"
| "write_message SwarmComplete w = Inr (write_u8 20 w)"

definition encode :: "message \<Rightarrow> protocol_error + u8 list" where
  "encode m =
    and_then (validate_message m) (\<lambda>_.
    and_then (write_message m (writer_new DOMAIN_APPLICATION))
      (writer_finish MAX_APPLICATION_MESSAGE_BYTES))"

text \<open>The match of \<open>decode\<close> on the message type.\<close>

definition read_message_kind :: "u8 \<Rightarrow> message read" where
  "read_message_kind kind r =
    (if kind = 1 then and_then (read_content_id r) (\<lambda>(c, r). Inr (Request c, r))
     else if kind = 2 then and_then (read_manifest r) (\<lambda>(m, r). Inr (ManifestMsg m, r))
     else if kind = 3 then and_then (read_chunk r) (\<lambda>(c, r). Inr (ChunkMsg c, r))
     else if kind = 4 then Inr (Complete, r)
     else if kind = 5 then and_then (read_string MAX_ERROR_TEXT_BYTES r) (\<lambda>(t, r). Inr (ErrorMsg t, r))
     else if kind = 16 then and_then (read_content_id r) (\<lambda>(c, r). Inr (SwarmRequest c, r))
     else if kind = 17 then
       and_then (read_manifest r) (\<lambda>(m, r).
       and_then (read_u32 r) (\<lambda>(count, r).
       and_then (read_bytes MAX_APPLICATION_MESSAGE_BYTES r) (\<lambda>(bits, r).
       Inr (SwarmManifest m \<lparr>pa_chunk_count = count, pa_bits = bits\<rparr>, r))))
     else if kind = 18 then and_then (read_u32 r) (\<lambda>(i, r). Inr (ChunkRequest i, r))
     else if kind = 19 then and_then (read_u32 r) (\<lambda>(i, r). Inr (ChunkUnavailable i, r))
     else if kind = 20 then Inr (SwarmComplete, r)
     else Inl (UnknownMessage kind))"

definition read_message :: "message read" where
  "read_message r = and_then (read_u8 r) (\<lambda>(kind, r). read_message_kind kind r)"

definition decode :: "u8 list \<Rightarrow> protocol_error + message" where
  "decode bytes =
    and_then (ensure_size bytes MAX_APPLICATION_MESSAGE_BYTES) (\<lambda>_.
    and_then (reader_new bytes DOMAIN_APPLICATION) (\<lambda>r.
    and_then (read_message r) (\<lambda>(m, r).
    and_then (reader_end r) (\<lambda>_.
    and_then (validate_message m) (\<lambda>_. Inr m)))))"

section \<open>Codecs of the fields\<close>

definition enc_manifest :: "manifest \<Rightarrow> u8 list" where
  "enc_manifest m =
    bytes_of (content_id_as_bytes (m_content_id m)) @ u64_to_be_bytes (m_length m)
    @ u32_to_be_bytes (m_chunk_size m) @ u32_to_be_bytes (of_nat (length (m_chunks m)))
    @ concat (map (\<lambda>i. bytes_of (chunk_id_as_bytes i)) (m_chunks m))"

lemma manifest_eq_conv:
  "m = \<lparr>m_content_id = a, m_length = b, m_chunk_size = c, m_chunks = d\<rparr> \<longleftrightarrow>
   m_content_id m = a \<and> m_length m = b \<and> m_chunk_size m = c \<and> m_chunks m = d"
  by (cases m) auto

lemma chunk_eq_conv:
  "x = \<lparr>c_index = a, c_id = b, c_data = c\<rparr> \<longleftrightarrow> c_index x = a \<and> c_id x = b \<and> c_data x = c"
  by (cases x) auto

lemma decodes_manifest:
  "decodes read_manifest enc_manifest (\<lambda>m. length (m_chunks m) \<le> MAX_TESTNET_MANIFEST_CHUNKS)"
proof -
  let ?ids = "\<lambda>m. concat (map (\<lambda>i. bytes_of (chunk_id_as_bytes i)) (m_chunks m))"
  let ?len = "\<lambda>m. of_nat (length (m_chunks m)) :: u32"
  let ?ok = "\<lambda>m. length (m_chunks m) \<le> MAX_TESTNET_MANIFEST_CHUNKS"
  let ?chunks = "\<lambda>cid len cs n r.
    if MAX_TESTNET_MANIFEST_CHUNKS < unat (n :: u32)
    then Inl (InvalidMessage ''too many manifest chunks'')
    else and_then (read_n read_chunk_id (unat n) r) (\<lambda>(chunks, r).
      Inr (\<lparr>m_content_id = cid, m_length = len, m_chunk_size = cs, m_chunks = chunks\<rparr>, r))"
  have 1: "decodes (?chunks cid len cs n) ?ids
      (\<lambda>m. ?len m = n \<and> m_chunk_size m = cs \<and> m_length m = len \<and> m_content_id m = cid \<and> ?ok m)"
    for cid len cs n
    by (rule decodes_cong [OF decodes_unless [OF decodes_build [OF chunk_id_codec.reads_n,
          where g = m_chunks]]])
      (auto simp: manifest_eq_conv list_all_iff MAX_TESTNET_MANIFEST_CHUNKS_def unat_of_nat)
  have 2: "decodes (\<lambda>r. and_then (read_u32 r) (\<lambda>(n, r). ?chunks cid len cs n r))
      (\<lambda>m. u32_to_be_bytes (?len m) @ ?ids m)
      (\<lambda>m. m_chunk_size m = cs \<and> m_length m = len \<and> m_content_id m = cid \<and> ?ok m)"
    for cid len cs
    by (rule decodes_cong [OF decodes_bind [OF u32_codec.reads 1]]) auto
  have 3: "decodes (\<lambda>r. and_then (read_u32 r) (\<lambda>(cs, r).
      and_then (read_u32 r) (\<lambda>(n, r). ?chunks cid len cs n r)))
      (\<lambda>m. u32_to_be_bytes (m_chunk_size m) @ u32_to_be_bytes (?len m) @ ?ids m)
      (\<lambda>m. m_length m = len \<and> m_content_id m = cid \<and> ?ok m)" for cid len
    by (rule decodes_cong [OF decodes_bind [OF u32_codec.reads 2]]) auto
  have 4: "decodes (\<lambda>r. and_then (read_u64 r) (\<lambda>(len, r). and_then (read_u32 r) (\<lambda>(cs, r).
      and_then (read_u32 r) (\<lambda>(n, r). ?chunks cid len cs n r))))
      (\<lambda>m. u64_to_be_bytes (m_length m) @ u32_to_be_bytes (m_chunk_size m)
        @ u32_to_be_bytes (?len m) @ ?ids m)
      (\<lambda>m. m_content_id m = cid \<and> ?ok m)" for cid
    by (rule decodes_cong [OF decodes_bind [OF u64_codec.reads 3]]) auto
  show ?thesis
    unfolding read_manifest_def [abs_def]
    by (rule decodes_cong [OF decodes_bind [OF content_id_codec.reads 4]]) (auto simp: enc_manifest_def)
qed

interpretation manifest_codec:
  wire_codec write_manifest read_manifest enc_manifest
    "\<lambda>m. length (m_chunks m) \<le> MAX_TESTNET_MANIFEST_CHUNKS"
proof
  show "write_manifest m w = Inr (write_raw (enc_manifest m) w)"
    if "length (m_chunks m) \<le> MAX_TESTNET_MANIFEST_CHUNKS" for m w
    using that chunk_id_codec.writes_each [of "m_chunks m"]
    by (simp add: write_manifest_def Let_def u32_try_from_def MAX_TESTNET_MANIFEST_CHUNKS_def
        u32_max_def write_raws enc_manifest_def list_all_iff)
qed (rule decodes_manifest)

definition enc_chunk :: "chunk \<Rightarrow> u8 list" where
  "enc_chunk c =
    u32_to_be_bytes (c_index c) @ bytes_of (chunk_id_as_bytes (c_id c)) @ enc_bytes (c_data c)"

lemma decodes_chunk: "decodes read_chunk enc_chunk (\<lambda>c. length (c_data c) \<le> CHUNK_SIZE)"
proof -
  let ?ok = "\<lambda>c. length (c_data c) \<le> CHUNK_SIZE"
  let ?data = "\<lambda>i d r. and_then (read_bytes CHUNK_SIZE r) (\<lambda>(data, r).
      Inr (\<lparr>c_index = i, c_id = d, c_data = data\<rparr>, r))"
  have 1: "decodes (?data i d) (\<lambda>c. enc_bytes (c_data c)) (\<lambda>c. c_id c = d \<and> c_index c = i \<and> ?ok c)"
    for i d
    by (rule decodes_cong [OF decodes_build [OF bytes_codec.reads, where g = c_data]])
      (auto simp: chunk_eq_conv CHUNK_SIZE_def u32_max_def)
  have 2: "decodes (\<lambda>r. and_then (read_chunk_id r) (\<lambda>(d, r). ?data i d r))
      (\<lambda>c. bytes_of (chunk_id_as_bytes (c_id c)) @ enc_bytes (c_data c)) (\<lambda>c. c_index c = i \<and> ?ok c)"
    for i
    by (rule decodes_cong [OF decodes_bind [OF chunk_id_codec.reads 1]]) auto
  show ?thesis
    unfolding read_chunk_def [abs_def]
    by (rule decodes_cong [OF decodes_bind [OF u32_codec.reads 2]]) (auto simp: enc_chunk_def)
qed

interpretation chunk_codec:
  wire_codec write_chunk read_chunk enc_chunk "\<lambda>c. length (c_data c) \<le> CHUNK_SIZE"
proof
  show "write_chunk c w = Inr (write_raw (enc_chunk c) w)" if "length (c_data c) \<le> CHUNK_SIZE" for c w
    using that
    by (simp add: write_chunk_def bytes_codec.writes [of _ CHUNK_SIZE] write_raws enc_chunk_def
        CHUNK_SIZE_def u32_max_def)
qed (rule decodes_chunk)

section \<open>The codec of messages\<close>

fun message_kind :: "message \<Rightarrow> u8" where
  "message_kind (Request c) = 1"
| "message_kind (ManifestMsg m) = 2"
| "message_kind (ChunkMsg c) = 3"
| "message_kind Complete = 4"
| "message_kind (ErrorMsg t) = 5"
| "message_kind (SwarmRequest c) = 16"
| "message_kind (SwarmManifest m a) = 17"
| "message_kind (ChunkRequest i) = 18"
| "message_kind (ChunkUnavailable i) = 19"
| "message_kind SwarmComplete = 20"

fun enc_payload :: "message \<Rightarrow> u8 list" where
  "enc_payload (Request c) = bytes_of (content_id_as_bytes c)"
| "enc_payload (ManifestMsg m) = enc_manifest m"
| "enc_payload (ChunkMsg c) = enc_chunk c"
| "enc_payload Complete = []"
| "enc_payload (ErrorMsg t) = enc_string t"
| "enc_payload (SwarmRequest c) = bytes_of (content_id_as_bytes c)"
| "enc_payload (SwarmManifest m a) =
    enc_manifest m @ u32_to_be_bytes (pa_chunk_count a) @ enc_bytes (pa_bits a)"
| "enc_payload (ChunkRequest i) = u32_to_be_bytes i"
| "enc_payload (ChunkUnavailable i) = u32_to_be_bytes i"
| "enc_payload SwarmComplete = []"

definition enc_message :: "message \<Rightarrow> u8 list" where
  "enc_message m = message_kind m # enc_payload m"

text \<open>What the reader's own bounds admit, before validation.\<close>

fun message_fits :: "message \<Rightarrow> bool" where
  "message_fits (ManifestMsg m) \<longleftrightarrow> length (m_chunks m) \<le> MAX_TESTNET_MANIFEST_CHUNKS"
| "message_fits (ChunkMsg c) \<longleftrightarrow> length (c_data c) \<le> CHUNK_SIZE"
| "message_fits (ErrorMsg t) \<longleftrightarrow> length t \<le> MAX_ERROR_TEXT_BYTES \<and> utf8 t"
| "message_fits (SwarmManifest m a) \<longleftrightarrow>
    length (m_chunks m) \<le> MAX_TESTNET_MANIFEST_CHUNKS
    \<and> length (pa_bits a) \<le> MAX_APPLICATION_MESSAGE_BYTES"
| "message_fits _ \<longleftrightarrow> True"

text \<open>Every Rust \<open>String\<close> is UTF-8; in a message only the error text is one.\<close>

fun message_strings_utf8 :: "message \<Rightarrow> bool" where
  "message_strings_utf8 (ErrorMsg t) \<longleftrightarrow> utf8 t"
| "message_strings_utf8 _ \<longleftrightarrow> True"

lemma availability_eq_conv:
  "x = \<lparr>pa_chunk_count = a, pa_bits = b\<rparr> \<longleftrightarrow> pa_chunk_count x = a \<and> pa_bits x = b"
  by (cases x) auto

lemma decodes_swarm_manifest:
  "decodes (\<lambda>r. and_then (read_manifest r) (\<lambda>(m, r).
     and_then (read_u32 r) (\<lambda>(count, r).
     and_then (read_bytes MAX_APPLICATION_MESSAGE_BYTES r) (\<lambda>(bits, r).
     Inr (SwarmManifest m \<lparr>pa_chunk_count = count, pa_bits = bits\<rparr>, r)))))
   enc_payload (\<lambda>x. 17 = message_kind x \<and> message_fits x)"
proof -
  let ?man = "\<lambda>x. case x of SwarmManifest m a \<Rightarrow> m | _ \<Rightarrow> undefined"
  let ?av = "\<lambda>x. case x of SwarmManifest m a \<Rightarrow> a | _ \<Rightarrow> undefined"
  let ?is = "\<lambda>x. \<exists>m a. x = SwarmManifest m a"
  let ?bits = "\<lambda>m n r. and_then (read_bytes MAX_APPLICATION_MESSAGE_BYTES r) (\<lambda>(bits, r).
     Inr (SwarmManifest m \<lparr>pa_chunk_count = n, pa_bits = bits\<rparr>, r))"
  have 1: "decodes (?bits m n) (\<lambda>x. enc_bytes (pa_bits (?av x)))
      (\<lambda>x. pa_chunk_count (?av x) = n \<and> ?man x = m \<and> ?is x
        \<and> length (pa_bits (?av x)) \<le> MAX_APPLICATION_MESSAGE_BYTES)" for m n
    by (rule decodes_map [OF bytes_codec.reads])
      (auto simp: availability_eq_conv MAX_APPLICATION_MESSAGE_BYTES_def u32_max_def)
  have 2: "decodes (\<lambda>r. and_then (read_u32 r) (\<lambda>(n, r). ?bits m n r))
      (\<lambda>x. u32_to_be_bytes (pa_chunk_count (?av x)) @ enc_bytes (pa_bits (?av x)))
      (\<lambda>x. ?man x = m \<and> ?is x \<and> length (pa_bits (?av x)) \<le> MAX_APPLICATION_MESSAGE_BYTES)" for m
    by (rule decodes_cong [OF decodes_bind [OF u32_codec.reads 1]]) auto
  have "17 = message_kind x \<longleftrightarrow> ?is x" for x by (cases x) auto
  then show ?thesis
    by (intro decodes_cong [OF decodes_bind [OF manifest_codec.reads 2]]) auto
qed

lemma read_message_kind_eqs:
  "read_message_kind 1 = (\<lambda>r. and_then (read_content_id r) (\<lambda>(c, r). Inr (Request c, r)))"
  "read_message_kind 2 = (\<lambda>r. and_then (read_manifest r) (\<lambda>(m, r). Inr (ManifestMsg m, r)))"
  "read_message_kind 3 = (\<lambda>r. and_then (read_chunk r) (\<lambda>(c, r). Inr (ChunkMsg c, r)))"
  "read_message_kind 4 = (\<lambda>r. Inr (Complete, r))"
  "read_message_kind 5 =
    (\<lambda>r. and_then (read_string MAX_ERROR_TEXT_BYTES r) (\<lambda>(t, r). Inr (ErrorMsg t, r)))"
  "read_message_kind 16 = (\<lambda>r. and_then (read_content_id r) (\<lambda>(c, r). Inr (SwarmRequest c, r)))"
  "read_message_kind 17 = (\<lambda>r. and_then (read_manifest r) (\<lambda>(m, r).
     and_then (read_u32 r) (\<lambda>(count, r).
     and_then (read_bytes MAX_APPLICATION_MESSAGE_BYTES r) (\<lambda>(bits, r).
     Inr (SwarmManifest m \<lparr>pa_chunk_count = count, pa_bits = bits\<rparr>, r)))))"
  "read_message_kind 18 = (\<lambda>r. and_then (read_u32 r) (\<lambda>(i, r). Inr (ChunkRequest i, r)))"
  "read_message_kind 19 = (\<lambda>r. and_then (read_u32 r) (\<lambda>(i, r). Inr (ChunkUnavailable i, r)))"
  "read_message_kind 20 = (\<lambda>r. Inr (SwarmComplete, r))"
  "a \<notin> {1, 2, 3, 4, 5, 16, 17, 18, 19, 20} \<Longrightarrow> read_message_kind a = (\<lambda>r. Inl (UnknownMessage a))"
  by (rule ext, simp add: read_message_kind_def)+

lemma message_kind_range: "message_kind x \<in> {1, 2, 3, 4, 5, 16, 17, 18, 19, 20}"
  by (cases x) simp_all

lemma range_message_kind: "range message_kind = {1, 2, 3, 4, 5, 16, 17, 18, 19, 20}"
proof
  show "{1, 2, 3, 4, 5, 16, 17, 18, 19, 20} \<subseteq> range message_kind"
    using rangeI [of message_kind "Request undefined"] rangeI [of message_kind "ManifestMsg undefined"]
      rangeI [of message_kind "ChunkMsg undefined"] rangeI [of message_kind Complete]
      rangeI [of message_kind "ErrorMsg []"] rangeI [of message_kind "SwarmRequest undefined"]
      rangeI [of message_kind "SwarmManifest undefined undefined"]
      rangeI [of message_kind "ChunkRequest 0"] rangeI [of message_kind "ChunkUnavailable 0"]
      rangeI [of message_kind SwarmComplete]
    by simp
qed (use message_kind_range in blast)

lemma message_kind_iffs:
  "1 = message_kind x \<and> message_fits x \<longleftrightarrow> (\<exists>c. x = Request c \<and> True)"
  "2 = message_kind x \<and> message_fits x \<longleftrightarrow>
    (\<exists>m. x = ManifestMsg m \<and> length (m_chunks m) \<le> MAX_TESTNET_MANIFEST_CHUNKS)"
  "3 = message_kind x \<and> message_fits x \<longleftrightarrow> (\<exists>c. x = ChunkMsg c \<and> length (c_data c) \<le> CHUNK_SIZE)"
  "4 = message_kind x \<and> message_fits x \<longleftrightarrow> x = Complete"
  "5 = message_kind x \<and> message_fits x \<longleftrightarrow>
    (\<exists>t. x = ErrorMsg t \<and> length t \<le> MAX_ERROR_TEXT_BYTES \<and> length t < 2 ^ 16 \<and> utf8 t)"
  "16 = message_kind x \<and> message_fits x \<longleftrightarrow> (\<exists>c. x = SwarmRequest c \<and> True)"
  "18 = message_kind x \<and> message_fits x \<longleftrightarrow> (\<exists>i. x = ChunkRequest i \<and> True)"
  "19 = message_kind x \<and> message_fits x \<longleftrightarrow> (\<exists>i. x = ChunkUnavailable i \<and> True)"
  "20 = message_kind x \<and> message_fits x \<longleftrightarrow> x = SwarmComplete"
  by (cases x; auto simp: MAX_ERROR_TEXT_BYTES_def)+

lemma decodes_message_kind:
  "decodes (read_message_kind a) enc_payload (\<lambda>x. a = message_kind x \<and> message_fits x)"
proof (cases "a \<in> {1, 2, 3, 4, 5, 16, 17, 18, 19, 20}")
  case True
  have "decodes (read_message_kind 1) enc_payload (\<lambda>x. 1 = message_kind x \<and> message_fits x)"
    unfolding read_message_kind_eqs
    by (rule decodes_map [OF content_id_codec.reads message_kind_iffs(1)]) simp
  moreover have "decodes (read_message_kind 2) enc_payload (\<lambda>x. 2 = message_kind x \<and> message_fits x)"
    unfolding read_message_kind_eqs
    by (rule decodes_map [OF manifest_codec.reads message_kind_iffs(2)]) simp
  moreover have "decodes (read_message_kind 3) enc_payload (\<lambda>x. 3 = message_kind x \<and> message_fits x)"
    unfolding read_message_kind_eqs
    by (rule decodes_map [OF chunk_codec.reads message_kind_iffs(3)]) simp
  moreover have "decodes (read_message_kind 4) enc_payload (\<lambda>x. 4 = message_kind x \<and> message_fits x)"
    unfolding read_message_kind_eqs message_kind_iffs
    by (rule decodes_cong [OF decodes_return]) auto
  moreover have "decodes (read_message_kind 5) enc_payload (\<lambda>x. 5 = message_kind x \<and> message_fits x)"
    unfolding read_message_kind_eqs
    by (rule decodes_map [OF string_codec.reads message_kind_iffs(5)]) simp
  moreover have "decodes (read_message_kind 16) enc_payload (\<lambda>x. 16 = message_kind x \<and> message_fits x)"
    unfolding read_message_kind_eqs
    by (rule decodes_map [OF content_id_codec.reads message_kind_iffs(6)]) simp
  moreover have "decodes (read_message_kind 17) enc_payload (\<lambda>x. 17 = message_kind x \<and> message_fits x)"
    unfolding read_message_kind_eqs by (rule decodes_swarm_manifest)
  moreover have "decodes (read_message_kind 18) enc_payload (\<lambda>x. 18 = message_kind x \<and> message_fits x)"
    unfolding read_message_kind_eqs
    by (rule decodes_map [OF u32_codec.reads message_kind_iffs(7)]) simp
  moreover have "decodes (read_message_kind 19) enc_payload (\<lambda>x. 19 = message_kind x \<and> message_fits x)"
    unfolding read_message_kind_eqs
    by (rule decodes_map [OF u32_codec.reads message_kind_iffs(8)]) simp
  moreover have "decodes (read_message_kind 20) enc_payload (\<lambda>x. 20 = message_kind x \<and> message_fits x)"
    unfolding read_message_kind_eqs message_kind_iffs
    by (rule decodes_cong [OF decodes_return]) auto
  ultimately show ?thesis using True by blast
next
  case False
  then have "a \<noteq> message_kind x" for x using message_kind_range [of x] by auto
  then show ?thesis
    unfolding read_message_kind_eqs(11) [OF False]
    by (intro decodes_cong [OF decodes_fail]) auto
qed

lemma decodes_message: "decodes read_message enc_message message_fits"
proof -
  have "decodes (read_message_kind a) enc_payload (\<lambda>x. message_kind x = a \<and> message_fits x)" for a
    by (rule decodes_cong [OF decodes_message_kind]) auto
  then show ?thesis
    unfolding read_message_def [abs_def]
    by (rule decodes_cong [OF decodes_bind [OF u8_codec.reads]]) (auto simp: enc_message_def)
qed

lemma write_message_enc:
  "message_fits m \<Longrightarrow> write_message m w = Inr (write_raw (enc_message m) w)"
proof (cases m)
  case (SwarmManifest x a)
  assume "message_fits m"
  then show ?thesis
    using SwarmManifest
    by (simp add: manifest_codec.writes bytes_codec.writes [of _ MAX_APPLICATION_MESSAGE_BYTES]
        write_raws enc_message_def MAX_APPLICATION_MESSAGE_BYTES_def u32_max_def)
next
  case (ErrorMsg t)
  assume "message_fits m"
  then show ?thesis
    using ErrorMsg
    by (simp add: string_codec.writes [of _ MAX_ERROR_TEXT_BYTES] write_raws enc_message_def
        MAX_ERROR_TEXT_BYTES_def)
qed (simp_all add: write_raws enc_message_def manifest_codec.writes chunk_codec.writes)

interpretation message_codec: wire_codec write_message read_message enc_message message_fits
  by unfold_locales (simp_all add: write_message_enc decodes_message)

section \<open>Sizes and validity\<close>

lemma length_concat_map_32: "length (concat (map (\<lambda>i. bytes_of (f i)) xs)) = 32 * length xs"
  by (induction xs) auto

lemma length_enc_manifest: "length (enc_manifest m) = 48 + 32 * length (m_chunks m)"
  by (simp add: enc_manifest_def length_concat_map_32)

lemma length_enc_bytes [simp]: "length (enc_bytes v) = 4 + length v"
  by (simp add: enc_bytes_def)

lemma length_enc_string [simp]: "length (enc_string v) = 2 + length v"
  by (simp add: enc_string_def)

lemma validate_manifest_bound:
  "validate_manifest m = Inr u \<Longrightarrow> length (m_chunks m) \<le> MAX_TESTNET_MANIFEST_CHUNKS"
  by (auto simp: validate_manifest_def result_iffs split: if_splits)

lemma validate_swarm_manifest_bits:
  assumes "validate_message (SwarmManifest m a) = Inr u"
  shows "length (m_chunks m) \<le> MAX_TESTNET_MANIFEST_CHUNKS"
    and "length (pa_bits a) = div_ceil (length (m_chunks m)) 8"
proof -
  show b: "length (m_chunks m) \<le> MAX_TESTNET_MANIFEST_CHUNKS"
    using assms by (auto simp: result_iffs dest: validate_manifest_bound)
  then have n: "length (m_chunks m) \<le> u32_max"
    by (simp add: MAX_TESTNET_MANIFEST_CHUNKS_def u32_max_def)
  have "pa_chunk_count a = of_nat (length (m_chunks m))" "availability_is_valid a"
    using assms n by (auto simp: result_iffs u32_try_from_def split: if_splits)
  then show "length (pa_bits a) = div_ceil (length (m_chunks m)) 8"
    using n by (simp add: availability_is_valid_iff bitmap_len_def unat_of_nat_u32 del: unat_of_nat)
qed

lemma div_ceil_8_bound: "n \<le> 2036 \<Longrightarrow> div_ceil n 8 \<le> 255"
  by (simp add: div_ceil_le_iff)

lemma validate_message_fits:
  "validate_message m = Inr u \<Longrightarrow> message_strings_utf8 m \<Longrightarrow> message_fits m"
proof (cases m)
  case (SwarmManifest x a)
  assume "validate_message m = Inr u"
  then have "validate_message (SwarmManifest x a) = Inr u" using SwarmManifest by simp
  note v = validate_swarm_manifest_bits [OF this]
  then have "length (pa_bits a) \<le> 255"
    by (simp add: div_ceil_8_bound MAX_TESTNET_MANIFEST_CHUNKS_def)
  then show ?thesis using SwarmManifest v by (simp add: MAX_APPLICATION_MESSAGE_BYTES_def)
qed (auto split: if_splits dest: validate_manifest_bound)

lemma validate_message_size:
  "validate_message m = Inr u \<Longrightarrow> 29 + length (enc_message m) \<le> MAX_APPLICATION_MESSAGE_BYTES"
proof (cases m)
  case (SwarmManifest x a)
  assume "validate_message m = Inr u"
  then have "validate_message (SwarmManifest x a) = Inr u" using SwarmManifest by simp
  note v = validate_swarm_manifest_bits [OF this]
  then have "length (pa_bits a) \<le> 255"
    by (simp add: div_ceil_8_bound MAX_TESTNET_MANIFEST_CHUNKS_def)
  then show ?thesis
    using SwarmManifest v
    by (simp add: MAX_APPLICATION_MESSAGE_BYTES_def MAX_TESTNET_MANIFEST_CHUNKS_def enc_message_def
        length_enc_manifest)
qed (auto simp: enc_message_def length_enc_manifest enc_chunk_def MAX_APPLICATION_MESSAGE_BYTES_def
    MAX_TESTNET_MANIFEST_CHUNKS_def CHUNK_SIZE_def MAX_ERROR_TEXT_BYTES_def
    split: if_splits dest!: validate_manifest_bound)

lemma encode_eq:
  assumes "message_strings_utf8 m"
  shows "encode m = and_then (validate_message m) (\<lambda>_. Inr (header DOMAIN_APPLICATION @ enc_message m))"
proof (cases "validate_message m")
  case (Inr u)
  then have "message_fits m" using assms by (rule validate_message_fits)
  then show ?thesis
    using Inr validate_message_size [OF Inr]
    by (simp add: encode_def message_codec.writes writer_new_header write_raw_def writer_finish_def
        ensure_size_def)
qed (simp add: encode_def)

lemma message_fits_utf8: "message_fits m \<Longrightarrow> message_strings_utf8 m"
  by (cases m) auto

lemma decode_Inr_iff:
  "decode bytes = Inr m \<longleftrightarrow>
   message_strings_utf8 m \<and> validate_message m = Inr ()
   \<and> bytes = header DOMAIN_APPLICATION @ enc_message m"
proof (cases "length bytes \<le> MAX_APPLICATION_MESSAGE_BYTES")
  case True
  then have u: "length bytes \<le> usize_max" by (simp add: MAX_APPLICATION_MESSAGE_BYTES_def usize_max_def)
  show ?thesis
    using True validate_message_fits [of m] message_fits_utf8 [of m]
    by (auto simp: decode_def ensure_size_def record_read_iff [OF decodes_message u])
next
  case False
  then show ?thesis
    using validate_message_size [of m] by (auto simp: decode_def ensure_size_def)
qed

section \<open>Properties\<close>

text \<open>
  (C8) The application codec is canonical: \<open>decode\<close> returns a message exactly for the bytes that
  \<open>encode\<close> produces for it.  In particular every encoded message decodes to itself, no two byte
  strings decode to the same message, and nothing else is accepted.
\<close>

theorem decode_iff_encode:
  "decode bytes = Inr m \<longleftrightarrow> message_strings_utf8 m \<and> encode m = Inr bytes"
  by (auto simp: decode_Inr_iff encode_eq result_iffs)

text \<open>
  Encoding fails only in validation: for every message that passes \<open>validate_message\<close> the
  record is produced and fits the Noise plaintext bound, so \<open>MessageTooLarge\<close> never arises.
\<close>

theorem encode_total:
  assumes "message_strings_utf8 m"
  shows "case validate_message m of
      Inl e \<Rightarrow> encode m = Inl e
    | Inr _ \<Rightarrow> (\<exists>bytes. encode m = Inr bytes \<and> length bytes \<le> MAX_APPLICATION_MESSAGE_BYTES)"
  using validate_message_size [of m] by (auto simp: encode_eq [OF assms] split: sum.split)

theorem encode_total_witness:
  "\<exists>bytes. encode (ErrorMsg [104, 105]) = Inr bytes \<and> length bytes \<le> MAX_APPLICATION_MESSAGE_BYTES"
  using encode_total [of "ErrorMsg [104, 105]"] by (simp add: MAX_ERROR_TEXT_BYTES_def)

text \<open>
  The bound of 2036 chunks is the exact capacity of a swarm-manifest record: the record of a
  manifest with its bitmap fits the plaintext bound exactly when the manifest has at most that
  many chunks.
\<close>

theorem testnet_manifest_capacity:
  assumes "length (pa_bits a) = div_ceil (length (m_chunks m)) 8"
  shows "length (header DOMAIN_APPLICATION @ enc_message (SwarmManifest m a))
           \<le> MAX_APPLICATION_MESSAGE_BYTES
         \<longleftrightarrow> length (m_chunks m) \<le> MAX_TESTNET_MANIFEST_CHUNKS"
proof -
  define n where "n = length (m_chunks m)"
  have len: "length (header DOMAIN_APPLICATION @ enc_message (SwarmManifest m a))
      = 86 + 32 * n + div_ceil n 8"
    using assms by (simp add: enc_message_def length_enc_manifest n_def)
  have "86 + 32 * n + div_ceil n 8 \<le> 65519 \<longleftrightarrow> n \<le> 2036"
  proof (cases "n \<le> 2036")
    case True
    then show ?thesis using div_ceil_8_bound [OF True] by simp
  next
    case False
    then have "div_ceil 2037 8 \<le> div_ceil n 8" by (intro div_ceil_mono) auto
    then have "255 \<le> div_ceil n 8" by (simp add: div_ceil_def)
    then show ?thesis using False by simp
  qed
  then show ?thesis
    unfolding len n_def [symmetric]
    by (simp add: MAX_APPLICATION_MESSAGE_BYTES_def MAX_TESTNET_MANIFEST_CHUNKS_def)
qed

theorem testnet_manifest_capacity_witness:
  "length (header DOMAIN_APPLICATION @ enc_message (SwarmManifest
       \<lparr>m_content_id = ContentId (bytes32_fill 1), m_length = 1, m_chunk_size = 32768,
        m_chunks = [ChunkId (bytes32_fill 2)]\<rparr> (from_indices 1 [0])))
     \<le> MAX_APPLICATION_MESSAGE_BYTES"
  by (subst testnet_manifest_capacity)
    (simp_all add: MAX_TESTNET_MANIFEST_CHUNKS_def from_indices_def set_index_def bitmap_len_def
      div_ceil_def Let_def)

lemma decode_unknown_kind:
  assumes "length bytes \<le> MAX_APPLICATION_MESSAGE_BYTES"
    and b: "bytes = header DOMAIN_APPLICATION @ [k] @ suf" and k: "k \<notin> range message_kind"
  shows "decode bytes = Inl (UnknownMessage k)"
proof -
  have u: "length bytes \<le> usize_max"
    using assms(1) by (simp add: MAX_APPLICATION_MESSAGE_BYTES_def usize_max_def)
  let ?r = "\<lparr>r_bytes = bytes, r_offset = 29\<rparr>"
  have r: "reader_ok ?r" "rest ?r = [k] @ suf" using u b by (simp_all add: reader_ok_def rest_def)
  have "k \<notin> {1, 2, 3, 4, 5, 16, 17, 18, 19, 20}" using k unfolding range_message_kind .
  then have "read_message ?r = Inl (UnknownMessage k)"
    using u8_codec.read_back [OF _ r] by (simp add: read_message_def read_message_kind_eqs(11))
  then show ?thesis
    using assms(1) reader_new_header_back [OF u b] by (simp add: decode_def ensure_size_def)
qed

lemma decode_trailing_bytes:
  assumes len: "length (b @ suf) \<le> MAX_APPLICATION_MESSAGE_BYTES" and "suf \<noteq> []"
    and "encode m = Inr b" "message_strings_utf8 m"
  shows "decode (b @ suf) = Inl (Malformed ''trailing bytes'')"
proof -
  have v: "validate_message m = Inr ()" and b: "b = header DOMAIN_APPLICATION @ enc_message m"
    using assms by (auto simp: encode_eq result_iffs)
  have u: "length (b @ suf) \<le> usize_max"
    using len by (simp add: MAX_APPLICATION_MESSAGE_BYTES_def usize_max_def)
  let ?r = "\<lparr>r_bytes = b @ suf, r_offset = 29\<rparr>"
  have r: "reader_ok ?r" "rest ?r = enc_message m @ suf" using u b by (simp_all add: reader_ok_def rest_def)
  have "reader_new (b @ suf) DOMAIN_APPLICATION = Inr ?r"
    using u b by (intro reader_new_header_back) auto
  moreover have "read_message ?r = Inr (m, advance (length (enc_message m)) ?r)"
    using v assms(4) r by (intro message_codec.read_back validate_message_fits)
  ultimately show ?thesis
    using len b assms(2) by (simp add: decode_def ensure_size_def reader_end_def)
qed

lemma decode_truncated:
  assumes "suf \<noteq> []" and "encode m = Inr (p @ suf)" "message_strings_utf8 m"
  shows "\<exists>e. decode p = Inl e"
proof (cases "decode p")
  case (Inr m')
  let ?h = "header DOMAIN_APPLICATION"
  have m': "message_fits m'" "p = ?h @ enc_message m'"
    using Inr validate_message_fits by (auto simp: decode_Inr_iff)
  have m: "message_fits m" "p @ suf = ?h @ enc_message m"
    and l: "29 + length (enc_message m) \<le> MAX_APPLICATION_MESSAGE_BYTES"
    using assms(2,3) validate_message_fits validate_message_size by (auto simp: encode_eq result_iffs)
  have "enc_message m' @ suf = enc_message m @ []" using m m' by simp
  moreover have "length (enc_message m' @ suf) \<le> usize_max"
    using calculation l by (simp add: MAX_APPLICATION_MESSAGE_BYTES_def usize_max_def del: length_append)
  ultimately have "suf = []" using message_codec.unique_decoding m m' by blast
  then show ?thesis using assms(1) by simp
qed simp

text \<open>
  Incompatible records are reported as such: a foreign protocol version, a foreign network
  and an unknown message type each give their own error, whatever follows.
\<close>

theorem decode_incompatible:
  assumes "length bytes \<le> MAX_APPLICATION_MESSAGE_BYTES"
  shows "(bytes = WIRE_MAGIC @ u16_to_be_bytes v @ suf \<and> v \<noteq> PROTOCOL_VERSION
           \<longrightarrow> decode bytes = Inl (UnsupportedVersion v))
    \<and> (bytes = WIRE_MAGIC @ u16_to_be_bytes PROTOCOL_VERSION @ [of_nat (length n)] @ n @ suf
         \<and> length n < 256 \<and> utf8 n \<and> n \<noteq> NETWORK_ID \<longrightarrow> decode bytes = Inl (WrongNetwork n))
    \<and> (bytes = header DOMAIN_APPLICATION @ [k] @ suf \<and> k \<notin> range message_kind
         \<longrightarrow> decode bytes = Inl (UnknownMessage k))"
proof -
  have "length bytes \<le> usize_max"
    using assms(1) by (simp add: MAX_APPLICATION_MESSAGE_BYTES_def usize_max_def)
  then show ?thesis
    using assms reader_new_version [of bytes v suf] reader_new_network [of bytes n suf]
      decode_unknown_kind [OF assms, of k suf]
    by (auto simp: decode_def ensure_size_def)
qed

theorem decode_incompatible_witness:
  "decode (WIRE_MAGIC @ u16_to_be_bytes 2 @ [1, 2, 3]) = Inl (UnsupportedVersion 2)"
  using decode_incompatible [of "WIRE_MAGIC @ u16_to_be_bytes 2 @ [1, 2, 3]" 2 "[1, 2, 3]"]
  by (simp add: MAX_APPLICATION_MESSAGE_BYTES_def WIRE_MAGIC_def ascii_def PROTOCOL_VERSION_def)

text \<open>
  Record boundaries are exact: bytes appended to an encoded message are refused as trailing,
  and no proper prefix of an encoded message decodes.
\<close>

theorem decode_exact_length:
  assumes "encode m = Inr b" "message_strings_utf8 m" "suf \<noteq> []"
  shows "(length (b @ suf) \<le> MAX_APPLICATION_MESSAGE_BYTES
           \<longrightarrow> decode (b @ suf) = Inl (Malformed ''trailing bytes''))
         \<and> (b = p @ suf \<longrightarrow> (\<exists>e. decode p = Inl e))"
  using decode_trailing_bytes [OF _ assms(3,1,2)] decode_truncated [OF assms(3), of m p] assms by auto

theorem decode_exact_length_witness:
  "decode ((header DOMAIN_APPLICATION @ [4]) @ [0]) = Inl (Malformed ''trailing bytes'')"
  using decode_exact_length [of Complete "header DOMAIN_APPLICATION @ [4]" "[0]"]
  by (simp add: encode_eq enc_message_def MAX_APPLICATION_MESSAGE_BYTES_def)

end
