(* ===== verification/Ordered_Map.thy ===== *)
theory Ordered_Map
  imports Rust_Std
begin

text \<open>
  \<open>BTreeMap\<close> and \<open>HashMap\<close> as association lists with strictly increasing keys: iteration is in
  key order, as the sources rely on for \<open>BTreeMap\<close> (for \<open>HashMap\<close> they never observe the order).
  The locale \<open>table\<close> is the interface the relay and the registry use.
\<close>

type_synonym ('k, 'v) omap = "('k \<times> 'v) list"

section \<open>Operations\<close>

definition om_lookup :: "('k, 'v) omap \<Rightarrow> 'k \<Rightarrow> 'v option" where
  "om_lookup m k = map_of m k"

fun om_insert :: "'k :: linorder \<Rightarrow> 'v \<Rightarrow> ('k, 'v) omap \<Rightarrow> ('k, 'v) omap" where
  "om_insert k v [] = [(k, v)]"
| "om_insert k v ((k', v') # m) =
    (if k < k' then (k, v) # (k', v') # m
     else if k = k' then (k, v) # m
     else (k', v') # om_insert k v m)"

definition om_retain :: "('k \<Rightarrow> 'v \<Rightarrow> bool) \<Rightarrow> ('k, 'v) omap \<Rightarrow> ('k, 'v) omap" where
  "om_retain P m = filter (\<lambda>(k, v). P k v) m"

definition om_remove :: "'k \<Rightarrow> ('k, 'v) omap \<Rightarrow> ('k, 'v) omap" where
  "om_remove k m = om_retain (\<lambda>k' _. k' \<noteq> k) m"

text \<open>\<open>retain\<close> with a mutable value: the function returns the new value, or None to drop the entry.\<close>

definition om_filter_map :: "('k \<Rightarrow> 'v \<Rightarrow> 'v option) \<Rightarrow> ('k, 'v) omap \<Rightarrow> ('k, 'v) omap" where
  "om_filter_map f m = concat (map (\<lambda>(k, v). case f k v of None \<Rightarrow> [] | Some v' \<Rightarrow> [(k, v')]) m)"

definition om_map_values :: "('v \<Rightarrow> 'v) \<Rightarrow> ('k, 'v) omap \<Rightarrow> ('k, 'v) omap" where
  "om_map_values f m = map (\<lambda>(k, v). (k, f v)) m"

definition om_contains :: "('k, 'v) omap \<Rightarrow> 'k \<Rightarrow> bool" where
  "om_contains m k \<longleftrightarrow> om_lookup m k \<noteq> None"

definition om_ok :: "('k :: linorder, 'v) omap \<Rightarrow> bool" where
  "om_ok m \<longleftrightarrow> sorted_wrt (<) (map fst m)"

section \<open>The interface\<close>

text \<open>
  \<open>entries\<close> is the set of key-value pairs and \<open>size\<close> the number of entries; the laws say what
  each operation does to lookups, sizes and the invariant.
\<close>

locale table =
  fixes ok :: "'m \<Rightarrow> bool"
    and lookup :: "'m \<Rightarrow> 'k \<Rightarrow> 'v option"
    and insert :: "'k \<Rightarrow> 'v \<Rightarrow> 'm \<Rightarrow> 'm"
    and retain :: "('k \<Rightarrow> 'v \<Rightarrow> bool) \<Rightarrow> 'm \<Rightarrow> 'm"
    and entries :: "'m \<Rightarrow> ('k \<times> 'v) set"
    and size :: "'m \<Rightarrow> nat"
  assumes insert_ok: "ok m \<Longrightarrow> ok (insert k v m)"
    and retain_ok: "ok m \<Longrightarrow> ok (retain P m)"
    and lookup_insert: "ok m \<Longrightarrow> lookup (insert k v m) k' = (if k' = k then Some v else lookup m k')"
    and lookup_retain: "ok m \<Longrightarrow> lookup (retain P m) k =
      (case lookup m k of Some v \<Rightarrow> if P k v then Some v else None | None \<Rightarrow> None)"
    and entries_lookup: "ok m \<Longrightarrow> (k, v) \<in> entries m \<longleftrightarrow> lookup m k = Some v"
    and size_insert: "ok m \<Longrightarrow> size (insert k v m) = (if lookup m k = None then Suc (size m) else size m)"
    and size_retain: "size (retain P m) \<le> size m"
begin

lemma size_insert_bound:
  "ok m \<Longrightarrow> size m \<le> n \<Longrightarrow> lookup m k \<noteq> None \<or> size m < n \<Longrightarrow> size (insert k v m) \<le> n"
  by (auto simp: size_insert)

lemma entries_insert:
  "ok m \<Longrightarrow> entries (insert k v m) = Set.insert (k, v) {(k', v'). (k', v') \<in> entries m \<and> k' \<noteq> k}"
  by (auto simp: entries_lookup insert_ok lookup_insert split: if_splits)

lemma entries_retain: "ok m \<Longrightarrow> entries (retain P m) = {(k, v). (k, v) \<in> entries m \<and> P k v}"
  by (auto simp: entries_lookup retain_ok lookup_retain split: option.splits if_splits)

lemma insert_forall:
  "ok m \<Longrightarrow> (\<forall>(k', v') \<in> entries m. Q k' v') \<Longrightarrow> Q k v \<Longrightarrow> (\<forall>(k', v') \<in> entries (insert k v m). Q k' v')"
  by (auto simp: entries_insert)

lemma retain_forall:
  "ok m \<Longrightarrow> (\<forall>(k', v') \<in> entries m. Q k' v') \<Longrightarrow> (\<forall>(k', v') \<in> entries (retain P m). Q k' v')"
  by (auto simp: entries_retain)

end

section \<open>The association lists provide it\<close>

lemma om_insert_keys: "set (map fst (om_insert k v m)) = insert k (set (map fst m))"
  by (induction k v m rule: om_insert.induct) auto

lemma om_insert_ok: "om_ok m \<Longrightarrow> om_ok (om_insert k v m)"
proof (induction k v m rule: om_insert.induct)
  case (2 k v k' v' m)
  have keys: "\<forall>x \<in> set (map fst (om_insert k v m)). k' < x" if "k' < k"
    using 2(2) that unfolding om_insert_keys by (auto simp: om_ok_def)
  show ?case
    using 2 keys by (auto simp: om_ok_def)
qed (simp add: om_ok_def)

lemma om_lookup_insert: "om_lookup (om_insert k v m) k' = (if k' = k then Some v else om_lookup m k')"
  by (induction k v m rule: om_insert.induct) (auto simp: om_lookup_def)

lemma om_ok_distinct: "om_ok m \<Longrightarrow> distinct (map fst m)"
  by (auto simp: om_ok_def intro: strict_sorted_imp_sorted simp: strict_sorted_iff)

lemma om_retain_ok: "om_ok m \<Longrightarrow> om_ok (om_retain P m)"
  unfolding om_ok_def om_retain_def by (induction m) auto

lemma om_lookup_iff: "om_ok m \<Longrightarrow> om_lookup m k = Some v \<longleftrightarrow> (k, v) \<in> set m"
  by (simp add: om_lookup_def om_ok_distinct)

lemma om_lookup_retain:
  assumes "om_ok m"
  shows "om_lookup (om_retain P m) k =
    (case om_lookup m k of Some v \<Rightarrow> if P k v then Some v else None | None \<Rightarrow> None)"
proof (cases "om_lookup (om_retain P m) k")
  case None
  then have "(k, v) \<notin> set (om_retain P m)" for v
    using om_lookup_iff [OF om_retain_ok [OF assms]] by (metis option.distinct(1))
  then show ?thesis
    using None om_lookup_iff [OF assms, of k] by (auto simp: om_retain_def split: option.splits)
next
  case (Some v)
  then have "(k, v) \<in> set (om_retain P m)" using om_lookup_iff [OF om_retain_ok [OF assms]] by blast
  then have "om_lookup m k = Some v" "P k v" using om_lookup_iff [OF assms] by (auto simp: om_retain_def)
  then show ?thesis using Some by simp
qed

lemma om_length_insert:
  "om_ok m \<Longrightarrow> length (om_insert k v m) = (if om_lookup m k = None then Suc (length m) else length m)"
proof (induction k v m rule: om_insert.induct)
  case (2 k v k' v' m)
  have "om_lookup m k = None" if "k < k'"
    using 2(2) that by (auto simp: om_lookup_def om_ok_def map_of_eq_None_iff)
  then show ?case using 2 by (auto simp: om_lookup_def om_ok_def)
qed (simp add: om_lookup_def)

interpretation om: table om_ok om_lookup om_insert om_retain set length
proof
  show "length (om_retain P m) \<le> length m" for P :: "'a \<Rightarrow> 'b \<Rightarrow> bool" and m
    by (simp add: om_retain_def)
qed (simp_all add: om_insert_ok om_retain_ok om_lookup_insert om_lookup_retain om_lookup_iff om_length_insert)

lemma om_ok_Nil [simp]: "om_ok []"
  by (simp add: om_ok_def)

lemma om_lookup_Nil [simp]: "om_lookup [] k = None"
  by (simp add: om_lookup_def)

lemma om_remove_ok: "om_ok m \<Longrightarrow> om_ok (om_remove k m)"
  by (simp add: om_remove_def om_retain_ok)

lemma om_lookup_remove: "om_ok m \<Longrightarrow> om_lookup (om_remove k m) k' = (if k' = k then None else om_lookup m k')"
  by (auto simp: om_remove_def om_lookup_retain split: option.split)

lemma om_length_remove: "length (om_remove k m) \<le> length m"
  by (simp add: om_remove_def om_retain_def)

lemma om_length_remove_present:
  "om_ok m \<Longrightarrow> om_lookup m k = Some v \<Longrightarrow> Suc (length (om_remove k m)) = length m"
proof -
  assume ok: "om_ok m" and k: "om_lookup m k = Some v"
  have "length (filter (\<lambda>x. fst x = k) m) = 1"
  proof -
    have "distinct (map fst m)" using ok by (rule om_ok_distinct)
    moreover have "k \<in> set (map fst m)" using k om_lookup_iff [OF ok] by force
    ultimately show ?thesis by (induction m) (force simp: filter_empty_conv)+
  qed
  moreover have "length (filter (\<lambda>x. fst x = k) m) + length (filter (\<lambda>x. fst x \<noteq> k) m) = length m"
    by (rule sum_length_filter_compl)
  moreover have "filter (\<lambda>(k', v). k' \<noteq> k) m = filter (\<lambda>x. fst x \<noteq> k) m"
    by (rule filter_cong) auto
  ultimately show ?thesis by (simp add: om_remove_def om_retain_def)
qed

lemma om_insert_same: "om_ok m \<Longrightarrow> om_lookup m k = Some v \<Longrightarrow> om_insert k v m = m"
proof (induction k v m rule: om_insert.induct)
  case (2 k v k' v' m)
  have "k \<noteq> k' \<Longrightarrow> k' < k"
    using 2(2,3) by (auto simp: om_ok_def om_lookup_def dest!: map_of_SomeD)
  then show ?case using 2 by (auto simp: om_ok_def om_lookup_def)
qed simp

lemma om_filter_map_Cons:
  "om_filter_map f ((k, v) # m) =
    (case f k v of None \<Rightarrow> om_filter_map f m | Some v' \<Rightarrow> (k, v') # om_filter_map f m)"
  by (simp add: om_filter_map_def split: option.split)

lemma om_filter_map_keys: "set (map fst (om_filter_map f m)) \<subseteq> set (map fst m)"
  by (auto simp: om_filter_map_def image_iff split: option.splits) force+

lemma om_filter_map_ok: "om_ok m \<Longrightarrow> om_ok (om_filter_map f m)"
proof (induction m)
  case (Cons x m)
  obtain k v where x: "x = (k, v)" by (cases x)
  have "\<forall>k' \<in> set (map fst (om_filter_map f m)). k < k'"
  proof
    fix k' assume "k' \<in> set (map fst (om_filter_map f m))"
    then have "k' \<in> set (map fst m)" using om_filter_map_keys by (rule rev_subsetD)
    then show "k < k'" using Cons.prems by (auto simp: om_ok_def x)
  qed
  moreover have "om_ok (om_filter_map f m)" using Cons by (simp add: om_ok_def)
  ultimately show ?case by (simp add: x om_filter_map_Cons om_ok_def split: option.split)
qed (simp add: om_filter_map_def)

lemma om_lookup_filter_map:
  "om_ok m \<Longrightarrow> om_lookup (om_filter_map f m) k = Option.bind (om_lookup m k) (f k)"
proof (induction m)
  case (Cons x m)
  obtain k' v where x: "x = (k', v)" by (cases x)
  have "om_lookup m k' = None"
    using Cons.prems by (auto simp: om_ok_def om_lookup_def x map_of_eq_None_iff)
  moreover have "om_ok m" using Cons.prems by (simp add: om_ok_def)
  ultimately show ?case
    using Cons.IH
    by (auto simp: x om_filter_map_Cons om_lookup_def split: option.split)
qed (simp add: om_filter_map_def)

lemma om_map_values_ok: "om_ok (om_map_values f m) = om_ok m"
  by (simp add: om_ok_def om_map_values_def case_prod_beta comp_def)

lemma om_lookup_map_values: "om_lookup (om_map_values f m) k = map_option f (om_lookup m k)"
  by (induction m) (auto simp: om_map_values_def om_lookup_def)

lemma om_contains_iff: "om_contains m k \<longleftrightarrow> (\<exists>v. om_lookup m k = Some v)"
  by (simp add: om_contains_def)

lemma om_length_filter_map: "length (om_filter_map f m) \<le> length m"
  by (induction m) (auto simp: om_filter_map_Cons om_filter_map_def split: option.split)

end
