(* ===== verification/Framing.thy ===== *)
theory Framing
  imports Rust_Std
begin

text \<open>
  Length-prefixed frames (\<open>write_frame\<close> and \<open>read_frame\<close>), which
  \<open>triptorrent-net\<close>, \<open>triptorrent-relay\<close> and \<open>triptorrent-overlay\<close> each define with their own
  bound, and the relay's \<open>forward\<close> loop.  The reading side of a connection is the list of bytes
  that arrive before it is closed; an operation returns the bytes left unread.
\<close>

section \<open>Frames\<close>

datatype io_error =
    InvalidData string
  | UnexpectedEof string
  | OtherError string

definition MAX_FRAME_LENGTH :: nat where
  "MAX_FRAME_LENGTH = 1024 * 1024"

definition write_frame :: "nat \<Rightarrow> u8 list \<Rightarrow> io_error + u8 list" where
  "write_frame maximum frame =
    (if maximum < length frame then Inl (InvalidData ''frame too large'')
     else and_then (ok_or (u32_try_from (length frame)) (InvalidData ''frame length overflow''))
       (\<lambda>n. Inr (u32_to_be_bytes n @ frame)))"

text \<open>
  \<open>read_exact\<close> of the length fails with \<open>UnexpectedEof\<close> when fewer than four bytes remain, which
  \<open>read_frame\<close> reports as the end of the stream.
\<close>

definition read_frame :: "nat \<Rightarrow> u8 list \<Rightarrow> io_error + u8 list option \<times> u8 list" where
  "read_frame maximum stream =
    (if length stream < 4 then Inr (None, [])
     else
       let n = unat (u32_from_be_bytes (take 4 stream)); stream = drop 4 stream in
       if maximum < n then Inl (InvalidData ''frame too large'')
       else if length stream < n then Inl (UnexpectedEof ''failed to fill whole buffer'')
       else Inr (Some (take n stream), drop n stream))"

section \<open>The interface of a framed connection\<close>

locale frame_channel =
  fixes wr :: "u8 list \<Rightarrow> io_error + u8 list"
    and rd :: "u8 list \<Rightarrow> io_error + u8 list option \<times> u8 list"
  assumes read_written: "wr f = Inr bs \<Longrightarrow> rd (bs @ rest) = Inr (Some f, rest)"
    and read_exact: "rd bs = Inr (Some f, rest) \<Longrightarrow> \<exists>b. wr f = Inr b \<and> bs = b @ rest"
    and read_end: "rd bs = Inr (None, rest) \<longleftrightarrow> length bs < 4 \<and> rest = []"
    and write_length: "wr f = Inr bs \<Longrightarrow> 4 \<le> length bs"
begin

lemma read_shorter: "rd bs = Inr (Some f, rest) \<Longrightarrow> length rest < length bs"
  using read_exact write_length by fastforce

text \<open>A written sequence of frames is read back frame by frame.\<close>

lemma read_written_all:
  "collect_results wr fs = Inr bss \<Longrightarrow> fs \<noteq> [] \<Longrightarrow>
   rd (concat bss @ rest) = Inr (Some (hd fs), concat (tl bss) @ rest)"
  by (cases fs) (auto simp: result_iffs read_written)

lemma write_inject: "wr f = Inr bs \<Longrightarrow> wr g = Inr bs \<Longrightarrow> f = g"
  using read_written [of f bs "[]"] read_written [of g bs "[]"] by simp

end

lemma frame_channel_write_read: "m \<le> u32_max \<Longrightarrow> frame_channel (write_frame m) (read_frame m)"
proof
  assume m: "m \<le> u32_max"
  show "read_frame m (bs @ rest) = Inr (Some f, rest)" if "write_frame m f = Inr bs" for f bs rest
  proof -
    have f: "length f \<le> m" and bs: "bs = u32_to_be_bytes (of_nat (length f)) @ f"
      using that m
      by (auto simp: write_frame_def result_iffs u32_try_from_def split: if_splits)
    have "unat (of_nat (length f) :: u32) = length f"
      using f m by (intro unat_of_nat_u32) simp
    then show ?thesis using f by (simp add: read_frame_def bs)
  qed
  show "\<exists>b. write_frame m f = Inr b \<and> bs = b @ rest" if "read_frame m bs = Inr (Some f, rest)" for bs f rest
  proof -
    let ?n = "u32_from_be_bytes (take 4 bs)"
    have l: "4 \<le> length bs" and n: "unat ?n \<le> m" "unat ?n \<le> length bs - 4"
      and f: "f = take (unat ?n) (drop 4 bs)" "rest = drop (unat ?n) (drop 4 bs)"
      using that by (auto simp: read_frame_def Let_def split: if_splits)
    have len: "length f = unat ?n" using f(1) n l by simp
    then have "u32_try_from (length f) = Some ?n" by (simp add: u32_try_from_Some_iff)
    then have "write_frame m f = Inr (u32_to_be_bytes ?n @ f)" using len n by (simp add: write_frame_def)
    moreover have "u32_to_be_bytes ?n = take 4 bs" using l by simp
    ultimately have "write_frame m f = Inr (take 4 bs @ f)" by simp
    moreover have "f @ rest = drop 4 bs" by (simp only: f append_take_drop_id)
    then have "bs = (take 4 bs @ f) @ rest" by (simp only: append_assoc append_take_drop_id)
    ultimately show ?thesis by blast
  qed
  show "read_frame m bs = Inr (None, rest) \<longleftrightarrow> length bs < 4 \<and> rest = []" for bs rest
    by (auto simp: read_frame_def Let_def)
  show "4 \<le> length bs" if "write_frame m f = Inr bs" for f bs
    using that by (auto simp: write_frame_def result_iffs split: if_splits)
qed

interpretation frames: frame_channel "write_frame MAX_FRAME_LENGTH" "read_frame MAX_FRAME_LENGTH"
  by (rule frame_channel_write_read) (simp add: MAX_FRAME_LENGTH_def u32_max_def)

section \<open>Forwarding\<close>

text \<open>
  The relay's \<open>forward\<close>: every frame read from the source is written to the destination, until
  the source ends (then the destination is shut down) or an operation fails.  The result is the
  bytes written and how the loop ended.
\<close>

lemma read_frame_shorter: "read_frame m bs = Inr (Some f, rest) \<Longrightarrow> length rest < length bs"
  by (auto simp: read_frame_def Let_def split: if_splits)

function forward :: "u8 list \<Rightarrow> u8 list \<times> (io_error + unit)" where
  "forward source =
    (case read_frame MAX_FRAME_LENGTH source of
       Inl e \<Rightarrow> ([], Inl e)
     | Inr (None, _) \<Rightarrow> ([], Inr ())
     | Inr (Some frame, rest) \<Rightarrow>
         (case write_frame MAX_FRAME_LENGTH frame of
            Inl e \<Rightarrow> ([], Inl e)
          | Inr bs \<Rightarrow> (case forward rest of (out, r) \<Rightarrow> (bs @ out, r))))"
  by pat_completeness auto
termination
  by (relation "measure length") (auto dest: read_frame_shorter)

declare forward.simps [simp del]

lemma forward_frame:
  "read_frame MAX_FRAME_LENGTH src = Inr (Some f, rest) \<Longrightarrow>
   \<exists>b. src = b @ rest \<and> forward src = (b @ fst (forward rest), snd (forward rest))"
  using frames.read_exact [of src f rest]
  by (subst forward.simps) (auto split: prod.split)

text \<open>A source that consists of complete frames is copied entirely.\<close>

lemma forward_frames:
  "collect_results (write_frame MAX_FRAME_LENGTH) fs = Inr bss \<Longrightarrow>
   forward (concat bss) = (concat bss, Inr ())"
proof (induction fs arbitrary: bss)
  case Nil
  then show ?case by (subst forward.simps) (simp add: read_frame_def)
next
  case (Cons f fs)
  then obtain b bs where b: "bss = b # bs" "write_frame MAX_FRAME_LENGTH f = Inr b"
    "collect_results (write_frame MAX_FRAME_LENGTH) fs = Inr bs"
    by (auto simp only: collect_results.simps result_iffs)
  then have r: "read_frame MAX_FRAME_LENGTH (b @ concat bs) = Inr (Some f, concat bs)"
    by (simp add: frames.read_written)
  then show ?case using b Cons.IH [OF b(3)] by (subst forward.simps) simp
qed

section \<open>Properties\<close>

text \<open>
  Frames round trip with exact boundaries: reading returns a frame exactly when the stream
  starts with the bytes that writing it produces, and leaves the rest.
\<close>

theorem frame_roundtrip:
  "read_frame MAX_FRAME_LENGTH stream = Inr (Some f, rest) \<longleftrightarrow>
   (\<exists>b. write_frame MAX_FRAME_LENGTH f = Inr b \<and> stream = b @ rest)"
  using frames.read_written frames.read_exact by blast


end
