(* ===== verification/Relay.thy ===== *)
theory Relay
  imports Wire Ordered_Map Framing
begin

text \<open>
  The relay service of \<open>triptorrent-relay/src/lib.rs\<close> and the registration that
  \<open>triptorrent-net/src/lib.rs\<close> sends to it.  Connections are opaque values of a type parameter;
  instants are numbers of a monotonic clock and each call reads it once.
\<close>

section \<open>Registration frames\<close>

datatype role = Sender | Receiver

text \<open>The errors of the Noise library (\<open>snow::Error\<close>) are opaque.\<close>

typedecl snow_error

datatype net_error =
    NetIo io_error
  | NetNoise snow_error
  | NetProtocol protocol_error
  | InvalidRoute
  | InvalidNoisePattern
  | InvalidKeyLength
  | InvalidNetwork

definition REGISTRATION_MAGIC :: "u8 list" where
  "REGISTRATION_MAGIC = ascii ''TTR1''"

definition MAX_ROUTE_LENGTH :: nat where
  "MAX_ROUTE_LENGTH = 128"

fun wire_byte :: "role \<Rightarrow> u8" where
  "wire_byte Sender = 0"
| "wire_byte Receiver = 1"

definition route_byte :: "u8 \<Rightarrow> bool" where
  "route_byte b \<longleftrightarrow>
    (48 \<le> b \<and> b \<le> 57) \<or> (65 \<le> b \<and> b \<le> 90) \<or> (97 \<le> b \<and> b \<le> 122) \<or> b = 45 \<or> b = 95"

text \<open>\<open>validate_route\<close> and the frame built by \<open>TcpRelayTransport::register\<close>.\<close>

definition validate_route :: "str \<Rightarrow> net_error + unit" where
  "validate_route route =
    (if route = [] \<or> 128 < length route \<or> \<not> list_all route_byte route
     then Inl InvalidRoute else Inr ())"

definition registration_frame :: "str \<Rightarrow> role \<Rightarrow> net_error + u8 list" where
  "registration_frame route role =
    and_then (validate_route route) (\<lambda>_.
    and_then (if length NETWORK_ID < 256 then Inr (of_nat (length NETWORK_ID)) else Inl InvalidNetwork) (\<lambda>n.
    and_then (ok_or (u16_try_from (length route)) InvalidRoute) (\<lambda>len.
    Inr (REGISTRATION_MAGIC @ u16_to_be_bytes PROTOCOL_VERSION @ [n] @ NETWORK_ID
         @ [wire_byte role] @ u16_to_be_bytes len @ route))))"

definition register_connection :: "str \<Rightarrow> role \<Rightarrow> net_error + u8 list" where
  "register_connection route role =
    and_then (registration_frame route role) (\<lambda>frame.
    map_err NetIo (write_frame MAX_FRAME_LENGTH frame))"

text \<open>\<open>slice.get(a..b)\<close>.\<close>

definition get_range :: "'a list \<Rightarrow> nat \<Rightarrow> nat \<Rightarrow> 'a list option" where
  "get_range xs a b = (if a \<le> b \<and> b \<le> length xs then Some (take (b - a) (drop a xs)) else None)"

definition parse_registration :: "u8 list \<Rightarrow> io_error + str \<times> role" where
  "parse_registration frame =
    (if length frame < 10 \<or> take 4 frame \<noteq> REGISTRATION_MAGIC
     then Inl (InvalidData ''invalid relay registration'')
     else if u16_from_be_bytes [frame ! 4, frame ! 5] \<noteq> PROTOCOL_VERSION
     then Inl (InvalidData ''unsupported relay protocol version'')
     else
       and_then (ok_or (checked_add_usize 7 (unat (frame ! 6))) (InvalidData ''invalid network length''))
         (\<lambda>network_end.
       if get_range frame 7 network_end \<noteq> Some NETWORK_ID
       then Inl (InvalidData ''wrong relay network'')
       else
         and_then (if network_end < length frame
                   then (if frame ! network_end = 0 then Inr Sender
                         else if frame ! network_end = 1 then Inr Receiver
                         else Inl (InvalidData ''invalid role''))
                   else Inl (InvalidData ''invalid role'')) (\<lambda>role.
         let length_start = network_end + 1 in
         and_then (ok_or (get_range frame length_start (length_start + 2))
           (InvalidData ''missing route length'')) (\<lambda>length_bytes.
         let route_length = unat (u16_from_be_bytes length_bytes);
             route_start = length_start + 2 in
         and_then (ok_or (checked_add_usize route_start route_length)
           (InvalidData ''invalid route length'')) (\<lambda>route_end.
         if route_end \<noteq> length frame
         then Inl (InvalidData ''relay registration length mismatch'')
         else
           let route = drop route_start frame in
           if \<not> utf8 route then Inl (InvalidData ''route is not UTF-8'')
           else if MAX_ROUTE_LENGTH < length route \<or> \<not> list_all route_byte route
           then Inl (InvalidData ''invalid relay route'')
           else Inr (route, role))))))"

definition read_registration :: "u8 list \<Rightarrow> io_error + (str \<times> role) \<times> u8 list" where
  "read_registration stream =
    and_then (read_frame MAX_FRAME_LENGTH stream) (\<lambda>(frame, stream).
    and_then (ok_or frame (UnexpectedEof ''missing relay registration'')) (\<lambda>frame.
    and_then (parse_registration frame) (\<lambda>r. Inr (r, stream))))"

section \<open>Pairing\<close>

record 'st pending_route =
  pr_sender :: "'st option"
  pr_receiver :: "'st option"
  pr_created :: nat

record relay_limits =
  max_pending_routes :: nat
  max_active_pairs :: nat
  max_registration_connections :: nat
  pending_timeout :: nat

record 'st relay_state =
  rl_pending :: "(str, 'st pending_route) omap"
  rl_completed :: "str list"
  rl_limits :: relay_limits
  rl_expired_routes :: nat

definition default_limits :: relay_limits where
  "default_limits =
    \<lparr>max_pending_routes = 1024, max_active_pairs = 256, max_registration_connections = 256,
     pending_timeout = 30000\<rparr>"

definition relay_new :: "relay_limits \<Rightarrow> 'st relay_state" where
  "relay_new limits =
    \<lparr>rl_pending = [], rl_completed = [], rl_limits = limits, rl_expired_routes = 0\<rparr>"

definition prune :: "nat \<Rightarrow> 'st relay_state \<Rightarrow> 'st relay_state" where
  "prune now s =
    (let before = length (rl_pending s);
         kept = om_retain (\<lambda>_ route. now - pr_created route < pending_timeout (rl_limits s)) (rl_pending s)
     in s\<lparr>rl_pending := kept, rl_expired_routes := rl_expired_routes s + (before - length kept)\<rparr>)"

text \<open>The match of \<open>register\<close> that fills one side of the entry.\<close>

fun fill_role :: "role \<Rightarrow> 'st \<Rightarrow> 'st pending_route \<Rightarrow> 'st pending_route option" where
  "fill_role Sender st e = (if pr_sender e = None then Some (e\<lparr>pr_sender := Some st\<rparr>) else None)"
| "fill_role Receiver st e = (if pr_receiver e = None then Some (e\<lparr>pr_receiver := Some st\<rparr>) else None)"

text \<open>The \<open>while\<close> loop that forgets the oldest completed routes.\<close>

definition trim_completed :: "nat \<Rightarrow> str list \<Rightarrow> str list" where
  "trim_completed n c = drop (length c - n) c"

definition register ::
  "nat \<Rightarrow> str \<Rightarrow> role \<Rightarrow> 'st \<Rightarrow> 'st relay_state \<Rightarrow>
   (io_error + ('st \<times> 'st) option) \<times> 'st relay_state" where
  "register now route role st s =
    (let s = prune now s in
     if route \<in> set (rl_completed s)
     then (Inl (InvalidData ''completed route cannot be reused''), s)
     else if \<not> om_contains (rl_pending s) route
          \<and> max_pending_routes (rl_limits s) \<le> length (rl_pending s)
     then (Inl (OtherError ''relay pending-route limit reached''), s)
     else
       let entry = (case om_lookup (rl_pending s) route of
                      Some e \<Rightarrow> e
                    | None \<Rightarrow> \<lparr>pr_sender = None, pr_receiver = None, pr_created = now\<rparr>) in
       case fill_role role st entry of
         None \<Rightarrow>
           (Inl (InvalidData ''duplicate relay role''),
            s\<lparr>rl_pending := om_insert route entry (rl_pending s)\<rparr>)
       | Some entry \<Rightarrow>
           (case (pr_sender entry, pr_receiver entry) of
              (Some a, Some b) \<Rightarrow>
                (Inr (Some (a, b)),
                 s\<lparr>rl_pending := om_remove route (rl_pending s),
                   rl_completed := trim_completed (max_pending_routes (rl_limits s))
                     (rl_completed s @ [route])\<rparr>)
            | _ \<Rightarrow> (Inr None, s\<lparr>rl_pending := om_insert route entry (rl_pending s)\<rparr>)))"

section \<open>Registration frames round trip\<close>

definition registration_bytes :: "str \<Rightarrow> role \<Rightarrow> u8 list" where
  "registration_bytes route role =
    REGISTRATION_MAGIC @ u16_to_be_bytes PROTOCOL_VERSION @ [21] @ NETWORK_ID
    @ [wire_byte role] @ u16_to_be_bytes (of_nat (length route)) @ route"

lemma NETWORK_ID_length: "length NETWORK_ID = 21"
  by (simp add: NETWORK_ID_def ascii_def)

lemma registration_frame_eq:
  "registration_frame route role =
   (if route \<noteq> [] \<and> length route \<le> 128 \<and> list_all route_byte route
    then Inr (registration_bytes route role) else Inl InvalidRoute)"
  by (auto simp: registration_frame_def validate_route_def registration_bytes_def NETWORK_ID_length
      u16_try_from_def)

lemma route_byte_utf8: "list_all route_byte route \<Longrightarrow> utf8 route"
proof (rule utf8_ascii)
  fix b assume "list_all route_byte route" "b \<in> set route"
  then have "route_byte b" by (auto simp: list_all_iff)
  then show "b < 0x80" by (auto simp: route_byte_def intro: order_le_less_trans)
qed

text \<open>The fixed part of a registration, byte by byte.\<close>

lemma registration_prefix:
  "REGISTRATION_MAGIC @ u16_to_be_bytes PROTOCOL_VERSION @ [21] @ NETWORK_ID =
   [84, 84, 82, 49, 0, 1, 21, 116, 114, 105, 112, 116, 111, 114, 114, 101, 110, 116, 45, 116, 101,
    115, 116, 110, 101, 116, 45, 49]"
  by (simp add: REGISTRATION_MAGIC_def NETWORK_ID_def ascii_def PROTOCOL_VERSION_def
      u16_to_be_bytes_def numeral_2_eq_2)

lemma parse_registration_bytes:
  assumes "length route \<le> MAX_ROUTE_LENGTH" "list_all route_byte route"
  shows "parse_registration (registration_bytes route role) = Inr (route, role)"
proof -
  let ?len = "u16_to_be_bytes (of_nat (length route))"
  have f: "registration_bytes route role =
     [84, 84, 82, 49, 0, 1, 21, 116, 114, 105, 112, 116, 111, 114, 114, 101, 110, 116, 45, 116, 101,
      115, 116, 110, 101, 116, 45, 49] @ wire_byte role # ?len @ route"
    using registration_prefix by (simp add: registration_bytes_def)
  define F where "F = registration_bytes route role"
  have n: "unat (of_nat (length route) :: u16) = length route"
    using assms(1) by (simp add: MAX_ROUTE_LENGTH_def unat_of_nat)
  have v: "u16_from_be_bytes [0, 1] = PROTOCOL_VERSION"
    by (simp add: u16_from_be_bytes_def be_nat_def PROTOCOL_VERSION_def)
  have len: "length F = 31 + length route" by (simp add: F_def f)
  have parts: "take 4 F = REGISTRATION_MAGIC" "F ! 4 = 0" "F ! 5 = 1" "F ! 6 = 21"
    "take 21 (drop 7 F) = NETWORK_ID" "F ! 28 = wire_byte role" "take 2 (drop 29 F) = ?len"
    "drop 31 F = route"
    by (simp_all add: F_def f REGISTRATION_MAGIC_def NETWORK_ID_def ascii_def)
  have role: "(if F ! 28 = 0 then Inr Sender else if F ! 28 = 1 then Inr Receiver
      else Inl (InvalidData ''invalid role'')) = Inr role"
    by (cases role) (simp_all add: parts)
  have "parse_registration F = Inr (route, role)"
    using assms n v len route_byte_utf8 [OF assms(2)] role
    by (simp add: MAX_ROUTE_LENGTH_def parts parse_registration_def checked_add_usize_def usize_max_def get_range_def Let_def)
  then show ?thesis by (simp add: F_def)
qed

lemma get_range_Some_iff:
  "get_range xs a b = Some ys \<longleftrightarrow> a \<le> b \<and> b \<le> length xs \<and> ys = take (b - a) (drop a xs)"
  by (auto simp: get_range_def)

lemma parse_registration_bytesD:
  assumes "parse_registration f = Inr (route, role)"
  shows "f = registration_bytes route role \<and> length route \<le> MAX_ROUTE_LENGTH \<and> list_all route_byte route"
proof -
  define e where "e = 7 + unat (f ! 6)"
  from assms have m: "10 \<le> length f" "take 4 f = REGISTRATION_MAGIC"
    and v: "u16_from_be_bytes [f ! 4, f ! 5] = PROTOCOL_VERSION"
    and net: "get_range f 7 e = Some NETWORK_ID"
    and rl: "e < length f" "f ! e = wire_byte role"
    and lb: "e + 3 \<le> length f"
    and len: "e + 3 + unat (u16_from_be_bytes (take 2 (drop (e + 1) f))) = length f"
    and r: "route = drop (e + 3) f" "length route \<le> MAX_ROUTE_LENGTH" "list_all route_byte route"
    by (auto simp: parse_registration_def e_def result_iffs checked_add_usize_def Let_def
        get_range_Some_iff split: if_splits)
  have e: "e = 28" "f ! 6 = 21"
  proof -
    have "length (take (e - 7) (drop 7 f)) = 21"
      using net NETWORK_ID_length by (simp add: get_range_Some_iff)
    moreover have "e \<le> length f" using net by (simp add: get_range_Some_iff)
    ultimately show "e = 28" by (simp add: e_def)
    then have "unat (f ! 6) = 21" by (simp add: e_def)
    then show "f ! 6 = 21" using eq_of_nat_unat [of "f ! 6" 21] by simp
  qed
  have l: "31 \<le> length f" using lb e by simp
  have "[f ! 4, f ! 5] = u16_to_be_bytes PROTOCOL_VERSION"
    using u16_be_project [of "[f ! 4, f ! 5]"] v by simp
  moreover have "take 2 (drop 29 f) = u16_to_be_bytes (of_nat (length route))"
  proof -
    have "length route = unat (u16_from_be_bytes (take 2 (drop 29 f)))" using r(1) len e by simp
    then have "u16_from_be_bytes (take 2 (drop 29 f)) = of_nat (length route)" by simp
    moreover have "length (take 2 (drop 29 f)) = 2" using l by simp
    ultimately show ?thesis using u16_be_project [of "take 2 (drop 29 f)"] by simp
  qed
  moreover have "take 21 (drop 7 f) = NETWORK_ID" using net e by (simp add: get_range_Some_iff)
  moreover have "f = take 4 f @ [f ! 4, f ! 5] @ [f ! 6] @ take 21 (drop 7 f) @ [f ! 28]
      @ take 2 (drop 29 f) @ drop 31 f"
  proof -
    have d4: "drop 4 f = [f ! 4, f ! 5] @ [f ! 6] @ drop 7 f"
      using l Cons_nth_drop_Suc [of 4 f] Cons_nth_drop_Suc [of 5 f] Cons_nth_drop_Suc [of 6 f] by simp
    have d7: "take 21 (drop 7 f) @ drop 28 f = drop 7 f"
      using append_take_drop_id [of 21 "drop 7 f"] by simp
    have d28: "drop 28 f = [f ! 28] @ drop 29 f" using l Cons_nth_drop_Suc [of 28 f] by simp
    have d29: "take 2 (drop 29 f) @ drop 31 f = drop 29 f"
      using append_take_drop_id [of 2 "drop 29 f"] by simp
    have "take 4 f @ drop 4 f = f" by (rule append_take_drop_id)
    then show ?thesis
      by (simp only: d29 d28 [symmetric] d7 d4 [symmetric])
  qed
  ultimately have "f = registration_bytes route role"
    using m rl r e by (simp add: registration_bytes_def)
  then show ?thesis using r by blast
qed

section \<open>The invariant of the pairing table\<close>

text \<open>A pending entry waits for exactly one of its two sides.\<close>

definition half_open :: "'st pending_route \<Rightarrow> bool" where
  "half_open e \<longleftrightarrow> (pr_sender e = None) \<noteq> (pr_receiver e = None)"

definition relay_ok :: "'st relay_state \<Rightarrow> bool" where
  "relay_ok s \<longleftrightarrow>
    om_ok (rl_pending s)
    \<and> length (rl_pending s) \<le> max_pending_routes (rl_limits s)
    \<and> (\<forall>(route, e) \<in> set (rl_pending s). half_open e \<and> route \<notin> set (rl_completed s))
    \<and> length (rl_completed s) \<le> max_pending_routes (rl_limits s)"

lemma relay_new_ok: "relay_ok (relay_new limits)"
  by (simp add: relay_ok_def relay_new_def)

lemma relay_okD:
  "relay_ok s \<Longrightarrow> om_lookup (rl_pending s) route = Some e \<Longrightarrow> half_open e \<and> route \<notin> set (rl_completed s)"
  using om_lookup_iff [of "rl_pending s" route e] by (auto simp: relay_ok_def)

lemma prune_simps [simp]:
  "rl_completed (prune now s) = rl_completed s" "rl_limits (prune now s) = rl_limits s"
  "rl_pending (prune now s) =
    om_retain (\<lambda>_ e. now - pr_created e < pending_timeout (rl_limits s)) (rl_pending s)"
  by (simp_all add: prune_def Let_def)

lemma prune_ok:
  assumes "relay_ok s"
  shows "relay_ok (prune now s)"
proof -
  let ?P = "\<lambda>_ e. now - pr_created e < pending_timeout (rl_limits s)"
  have "om_ok (rl_pending s)" using assms by (simp add: relay_ok_def)
  moreover have "\<forall>(route, e) \<in> set (rl_pending s). half_open e \<and> route \<notin> set (rl_completed s)"
    using assms by (simp add: relay_ok_def)
  ultimately have "\<forall>(route, e) \<in> set (om_retain ?P (rl_pending s)).
      half_open e \<and> route \<notin> set (rl_completed s)"
    by (rule om.retain_forall)
  then show ?thesis
    using assms om.size_retain [of ?P "rl_pending s"] by (simp add: relay_ok_def om_retain_ok)
qed

lemma fill_role_cases:
  assumes "fill_role role st e = Some e'"
  shows "half_open e \<Longrightarrow> \<exists>a b. pr_sender e' = Some a \<and> pr_receiver e' = Some b"
    and "pr_sender e = None \<Longrightarrow> pr_receiver e = None \<Longrightarrow> half_open e'"
  using assms by (cases role; auto simp: half_open_def split: if_splits)+

text \<open>The four outcomes of a registration.\<close>

lemma register_cases:
  fixes s :: "'st relay_state"
  assumes ok: "relay_ok s"
  obtains
    (refused) e where "register now route role st s = (Inl e, prune now s)"
  | (waiting) e where "register now route role st s =
        (Inr None, (prune now s)\<lparr>rl_pending := om_insert route e (rl_pending (prune now s))\<rparr>)"
      "om_lookup (rl_pending (prune now s)) route = None" "half_open e"
      "route \<notin> set (rl_completed s)" "length (rl_pending (prune now s)) < max_pending_routes (rl_limits s)"
  | (paired) e a b where "register now route role st s =
        (Inr (Some (a, b)), (prune now s)\<lparr>rl_pending := om_remove route (rl_pending (prune now s)),
           rl_completed := trim_completed (max_pending_routes (rl_limits s)) (rl_completed s @ [route])\<rparr>)"
      "om_lookup (rl_pending (prune now s)) route = Some e"
      "role = Sender \<and> pr_receiver e = Some b \<and> a = st \<or> role = Receiver \<and> pr_sender e = Some a \<and> b = st"
proof -
  let ?s = "prune now s"
  have ok': "relay_ok ?s" using ok by (rule prune_ok)
  show ?thesis
  proof (cases "route \<in> set (rl_completed s)")
    case True
    then show ?thesis using refused by (simp add: register_def Let_def)
  next
    case fresh: False
    show ?thesis
    proof (cases "om_lookup (rl_pending ?s) route")
      case None
      then have nc: "\<not> om_contains (rl_pending ?s) route" by (simp add: om_contains_def)
      show ?thesis
      proof (cases "max_pending_routes (rl_limits s) \<le> length (rl_pending ?s)")
        case True
        then show ?thesis using refused fresh nc by (simp add: register_def Let_def del: prune_simps(3))
      next
        case False
        then show ?thesis
          using fresh nc None
          by (cases role)
            (auto simp: register_def Let_def half_open_def simp del: prune_simps(3) intro!: waiting)
      qed
    next
      case (Some e)
      then have c: "om_contains (rl_pending ?s) route" by (simp add: om_contains_def)
      have h: "half_open e" using relay_okD [OF ok' Some] by blast
      have pending_same: "?s\<lparr>rl_pending := om_insert route e (rl_pending ?s)\<rparr> = ?s"
        using om_insert_same [OF _ Some] ok' by (simp add: relay_ok_def del: prune_simps(3))
      show ?thesis
        using fresh c Some h pending_same paired [of _ _ e] refused
        by (cases role; cases "pr_sender e"; cases "pr_receiver e")
          (auto simp: register_def Let_def half_open_def simp del: prune_simps(3))
    qed
  qed
qed

lemma length_trim_completed: "length (trim_completed n c) \<le> n"
  by (simp add: trim_completed_def)

lemma set_trim_completed: "set (trim_completed n c) \<subseteq> set c"
  by (simp add: trim_completed_def set_drop_subset)

lemma register_ok:
  assumes ok: "relay_ok s"
  shows "relay_ok (snd (register now route role st s))"
proof (cases rule: register_cases [OF ok, of now route role st])
  case (1 e)
  note refused = this
  then show ?thesis using prune_ok [OF ok] by simp
next
  case (2 e)
  note waiting = this
  let ?s = "prune now s"
  have ok': "relay_ok ?s" by (rule prune_ok [OF ok])
  then have om: "om_ok (rl_pending ?s)" by (simp add: relay_ok_def)
  have "\<forall>(r, e') \<in> set (om_insert route e (rl_pending ?s)). half_open e' \<and> r \<notin> set (rl_completed ?s)"
    using ok' waiting by (intro om.insert_forall [OF om]) (auto simp: relay_ok_def)
  moreover have "length (om_insert route e (rl_pending ?s)) \<le> max_pending_routes (rl_limits s)"
    using waiting om by (simp add: om_length_insert)
  ultimately show ?thesis
    using waiting ok' by (simp add: relay_ok_def om_insert_ok)
next
  case (3 e a b)
  note paired = this
  let ?s = "prune now s"
  have ok': "relay_ok ?s" by (rule prune_ok [OF ok])
  then have om: "om_ok (rl_pending ?s)" by (simp add: relay_ok_def)
  have "half_open e' \<and> r \<notin> set (rl_completed s) \<and> r \<noteq> route"
    if "(r, e') \<in> set (om_remove route (rl_pending ?s))" for r e'
    using that ok' by (auto simp: om_remove_def om_retain_def relay_ok_def)
  then have "half_open e' \<and> r \<notin> set (trim_completed n (rl_completed s @ [route]))"
    if "(r, e') \<in> set (om_remove route (rl_pending ?s))" for r e' n
    using that set_trim_completed [of n "rl_completed s @ [route]"] by auto
  then show ?thesis
    using paired(1) ok' om_remove_ok [OF om, of route] om_length_remove [of route "rl_pending ?s"]
    by (auto simp: relay_ok_def length_trim_completed simp del: prune_simps(3))
qed

lemma register_limits [simp]: "rl_limits (snd (register now route role st s)) = rl_limits s"
  by (simp add: register_def Let_def split: option.split)

section \<open>Runs of registrations\<close>

text \<open>
  A sequence of calls of \<open>register\<close> (the state lock serialises them), with the number of routes
  paired on the way.
\<close>

fun relay_run :: "(nat \<times> str \<times> role \<times> 'st) list \<Rightarrow> 'st relay_state \<Rightarrow> nat \<times> 'st relay_state" where
  "relay_run [] s = (0, s)"
| "relay_run ((now, route, role, st) # calls) s =
    (case register now route role st s of
       (r, s') \<Rightarrow>
         (case relay_run calls s' of
            (n, s'') \<Rightarrow> (case r of Inr (Some _) \<Rightarrow> n + 1 | _ \<Rightarrow> n, s'')))"

lemma relay_run_ok: "relay_ok s \<Longrightarrow> relay_ok (snd (relay_run calls s)) \<and> rl_limits (snd (relay_run calls s)) = rl_limits s"
proof (induction calls s rule: relay_run.induct)
  case (2 now route role st calls s)
  obtain r s' where r: "register now route role st s = (r, s')" by fastforce
  have "relay_ok s'" "rl_limits s' = rl_limits s"
    using register_ok [OF 2(2), of now route role st] register_limits [of now route role st s] r by simp_all
  then show ?case using 2(1) [OF r [symmetric]] r by (simp add: case_prod_beta)
qed simp

lemma register_remembers:
  assumes ok: "relay_ok s" and c: "rl_completed s = pre @ r # post"
    and len: "length post + (case fst (register now route role st s) of Inr (Some _) \<Rightarrow> 1 | _ \<Rightarrow> 0)
      < max_pending_routes (rl_limits s)"
  shows "\<exists>pre' post'. rl_completed (snd (register now route role st s)) = pre' @ r # post'
    \<and> length post' = length post + (case fst (register now route role st s) of Inr (Some _) \<Rightarrow> 1 | _ \<Rightarrow> 0)"
proof (cases rule: register_cases [OF ok, of now route role st])
  case (3 e a b)
  note paired = this
  let ?m = "max_pending_routes (rl_limits s)"
  let ?d = "length (rl_completed s @ [route]) - ?m"
  have "?d \<le> length pre" using len paired(1) c by simp
  then have "trim_completed ?m (rl_completed s @ [route]) = drop ?d pre @ r # (post @ [route])"
    by (simp add: trim_completed_def c)
  then show ?thesis using paired(1) by (intro exI [of _ "drop ?d pre"] exI [of _ "post @ [route]"]) simp
qed (use c in \<open>auto\<close>)

lemma relay_run_remembers:
  assumes "relay_ok s" "rl_completed s = pre @ r # post"
    and "length post + fst (relay_run calls s) < max_pending_routes (rl_limits s)"
  shows "r \<in> set (rl_completed (snd (relay_run calls s)))"
  using assms
proof (induction calls s arbitrary: pre post rule: relay_run.induct)
  case (2 now route role st calls s)
  obtain x s' where x: "register now route role st s = (x, s')" by fastforce
  let ?k = "case x of Inr (Some _) \<Rightarrow> 1 | _ \<Rightarrow> 0"
  have len: "length post + ?k + fst (relay_run calls s') < max_pending_routes (rl_limits s)"
    using 2(4) x by (auto simp: case_prod_beta split: sum.splits option.splits)
  obtain pre' post' where c: "rl_completed s' = pre' @ r # post'" "length post' = length post + ?k"
    using register_remembers [OF 2(2,3), of now route role st] x len by auto
  have "relay_ok s'" "rl_limits s' = rl_limits s"
    using register_ok [OF 2(2), of now route role st] register_limits [of now route role st s] x by simp_all
  then have "r \<in> set (rl_completed (snd (relay_run calls s')))"
    using 2(1) [OF x [symmetric], of pre' post'] c len by simp
  then show ?case using x by (simp add: case_prod_beta)
qed auto

section \<open>The service\<close>

text \<open>
  \<open>serve_with_limits\<close> as a transition system.  A connection is in \<open>sv_registering\<close> while its
  thread reads and registers, its outcome in \<open>sv_settled\<close> until the thread gives back its
  registration slot, a pair in \<open>sv_paired\<close> until the thread asks for a forwarding slot and in
  \<open>sv_forwarding\<close> while \<open>relay_pair\<close> runs.  The two atomic counters are kept separately, as in
  the code.
\<close>

record 'st service =
  sv_relay :: "'st relay_state"
  sv_registrations :: nat
  sv_active :: nat
  sv_registering :: "'st list"
  sv_settled :: "('st \<times> 'st) option list"
  sv_paired :: "('st \<times> 'st) list"
  sv_forwarding :: "('st \<times> 'st) list"

definition try_acquire :: "nat \<Rightarrow> nat \<Rightarrow> nat option" where
  "try_acquire counter limit = (if counter < limit then Some (counter + 1) else None)"

definition service_new :: "relay_limits \<Rightarrow> 'st service" where
  "service_new limits =
    \<lparr>sv_relay = relay_new limits, sv_registrations = 0, sv_active = 0, sv_registering = [],
     sv_settled = [], sv_paired = [], sv_forwarding = []\<rparr>"

definition registered_pair :: "(io_error + ('st \<times> 'st) option) \<Rightarrow> ('st \<times> 'st) option" where
  "registered_pair r = (case r of Inr p \<Rightarrow> p | Inl _ \<Rightarrow> None)"

inductive service_step :: "'st service \<Rightarrow> 'st service \<Rightarrow> bool" where
  connection_accepted:
    "try_acquire (sv_registrations v) (max_registration_connections (rl_limits (sv_relay v))) = Some n \<Longrightarrow>
     service_step v (v\<lparr>sv_registrations := n, sv_registering := st # sv_registering v\<rparr>)"
| connection_rejected:
    "try_acquire (sv_registrations v) (max_registration_connections (rl_limits (sv_relay v))) = None \<Longrightarrow>
     service_step v v"
| registration_unreadable:
    "st \<in> set (sv_registering v) \<Longrightarrow>
     service_step v (v\<lparr>sv_registering := remove1 st (sv_registering v),
       sv_settled := None # sv_settled v\<rparr>)"
| registration_handled:
    "st \<in> set (sv_registering v) \<Longrightarrow> register now route role st (sv_relay v) = (r, s) \<Longrightarrow>
     service_step v (v\<lparr>sv_relay := s, sv_registering := remove1 st (sv_registering v),
       sv_settled := registered_pair r # sv_settled v\<rparr>)"
| slot_released:
    "x \<in> set (sv_settled v) \<Longrightarrow>
     service_step v (v\<lparr>sv_registrations := sv_registrations v - 1, sv_settled := remove1 x (sv_settled v),
       sv_paired := (case x of Some pair \<Rightarrow> pair # sv_paired v | None \<Rightarrow> sv_paired v)\<rparr>)"
| forwarding_started:
    "pair \<in> set (sv_paired v) \<Longrightarrow>
     try_acquire (sv_active v) (max_active_pairs (rl_limits (sv_relay v))) = Some n \<Longrightarrow>
     service_step v (v\<lparr>sv_active := n, sv_paired := remove1 pair (sv_paired v),
       sv_forwarding := pair # sv_forwarding v\<rparr>)"
| forwarding_refused:
    "pair \<in> set (sv_paired v) \<Longrightarrow>
     try_acquire (sv_active v) (max_active_pairs (rl_limits (sv_relay v))) = None \<Longrightarrow>
     service_step v (v\<lparr>sv_paired := remove1 pair (sv_paired v)\<rparr>)"
| route_closed:
    "pair \<in> set (sv_forwarding v) \<Longrightarrow>
     service_step v (v\<lparr>sv_active := sv_active v - 1, sv_forwarding := remove1 pair (sv_forwarding v)\<rparr>)"

inductive_cases service_stepE: "service_step v v'"

definition service_ok :: "'st service \<Rightarrow> bool" where
  "service_ok v \<longleftrightarrow>
    relay_ok (sv_relay v)
    \<and> sv_registrations v = length (sv_registering v) + length (sv_settled v)
    \<and> sv_registrations v \<le> max_registration_connections (rl_limits (sv_relay v))
    \<and> sv_active v = length (sv_forwarding v)
    \<and> sv_active v \<le> max_active_pairs (rl_limits (sv_relay v))"

lemma length_remove1_pos: "x \<in> set xs \<Longrightarrow> length (remove1 x xs) = length xs - 1 \<and> 0 < length xs"
  by (auto simp: length_remove1)

lemma service_step_ok:
  assumes "service_step v v'" "service_ok v"
  shows "service_ok v' \<and> rl_limits (sv_relay v') = rl_limits (sv_relay v)"
  using assms(1)
proof cases
  case (registration_handled st now route role r s)
  have "relay_ok s" "rl_limits s = rl_limits (sv_relay v)"
    using assms(2) register_ok [of "sv_relay v" now route role st]
      register_limits [of now route role st "sv_relay v"] registration_handled
    by (simp_all add: service_ok_def)
  then show ?thesis
    using assms(2) registration_handled by (auto simp: service_ok_def dest: length_remove1_pos)
next
  case (slot_released x)
  then obtain n where "length (sv_settled v) = Suc n" by (cases "sv_settled v") auto
  then show ?thesis
    using assms(2) slot_released by (simp add: service_ok_def length_remove1)
qed (use assms(2) in \<open>auto simp: service_ok_def try_acquire_def length_remove1 split: if_splits
      dest: length_pos_if_in_set\<close>)

lemma service_reachable:
  assumes "service_step\<^sup>*\<^sup>* (service_new limits) v"
  shows "service_ok v \<and> rl_limits (sv_relay v) = limits"
  using assms
proof (induction rule: rtranclp_induct)
  case base
  show ?case by (simp add: service_ok_def service_new_def relay_new_ok) (simp add: relay_new_def)
next
  case (step v v')
  then show ?case using service_step_ok [of v v'] by simp
qed

section \<open>Properties\<close>



text \<open>
  (C26) The relay pairs a connection only with one that registered the opposite role on the same
  route and has been waiting for less than the pending timeout.
\<close>

theorem register_pairs_same_route:
  assumes "relay_ok s" and "register now route role st s = (Inr (Some (a, b)), s')"
  shows "\<exists>e. om_lookup (rl_pending s) route = Some e
     \<and> now - pr_created e < pending_timeout (rl_limits s)
     \<and> (role = Sender \<and> a = st \<and> pr_receiver e = Some b
        \<or> role = Receiver \<and> b = st \<and> pr_sender e = Some a)"
proof (cases rule: register_cases [OF assms(1), of now route role st])
  case (3 e a' b')
  have "om_ok (rl_pending s)" using assms(1) by (simp add: relay_ok_def)
  then have "om_lookup (rl_pending s) route = Some e \<and> now - pr_created e < pending_timeout (rl_limits s)"
    using 3(2) by (simp add: om_lookup_retain split: option.splits if_splits)
  then show ?thesis using 3 assms(2) by auto
qed (use assms(2) in auto)

definition demo_waiting :: "nat relay_state" where
  "demo_waiting =
    \<lparr>rl_pending = [(ascii ''r'', \<lparr>pr_sender = Some 1, pr_receiver = None, pr_created = 5\<rparr>)],
     rl_completed = [], rl_limits = default_limits, rl_expired_routes = 0\<rparr>"

lemma demo_waiting_paired:
  "register 7 (ascii ''r'') Receiver 2 demo_waiting = (Inr (Some (1, 2)),
     \<lparr>rl_pending = [], rl_completed = [ascii ''r''], rl_limits = default_limits, rl_expired_routes = 0\<rparr>)"
proof -
  have "prune 7 demo_waiting = demo_waiting"
    by (simp add: prune_def demo_waiting_def om_retain_def default_limits_def)
  then show ?thesis
    by (simp add: register_def demo_waiting_def om_contains_def om_lookup_def om_remove_def
        om_retain_def trim_completed_def default_limits_def)
qed

theorem register_pairs_same_route_witness:
  "\<exists>e. om_lookup (rl_pending demo_waiting) (ascii ''r'') = Some e
     \<and> 7 - pr_created e < pending_timeout (rl_limits demo_waiting)
     \<and> (Receiver = Sender \<and> 1 = (2 :: nat) \<and> pr_receiver e = Some 2
        \<or> Receiver = Receiver \<and> 2 = (2 :: nat) \<and> pr_sender e = Some 1)"
proof (rule register_pairs_same_route [OF _ demo_waiting_paired])
  show "relay_ok demo_waiting"
    by (simp add: relay_ok_def demo_waiting_def om_ok_def half_open_def default_limits_def)
qed





end
