(* ===== verification/Session.thy ===== *)
theory Session
  imports Messages Relay
begin

text \<open>
  Encrypted sessions of \<open>triptorrent-net/src/lib.rs\<close>: application messages, sealed by the Noise
  library and framed on a relayed TCP connection.  The library (\<open>snow\<close>) is not part of the
  repository: its operations are the fields of a record that every definition takes.
\<close>

section \<open>Transport\<close>

text \<open>A connection: the bytes that will still arrive, and those written so far.\<close>

record tcp =
  tcp_in :: "u8 list"
  tcp_out :: "u8 list"

definition send_frame :: "u8 list \<Rightarrow> tcp \<Rightarrow> net_error + tcp" where
  "send_frame frame t =
    and_then (map_err NetIo (write_frame MAX_FRAME_LENGTH frame)) (\<lambda>bs.
    Inr (t\<lparr>tcp_out := tcp_out t @ bs\<rparr>))"

definition receive_frame :: "tcp \<Rightarrow> net_error + u8 list \<times> tcp" where
  "receive_frame t =
    and_then (map_err NetIo (read_frame MAX_FRAME_LENGTH (tcp_in t))) (\<lambda>(frame, rest).
    and_then (ok_or frame (NetIo (UnexpectedEof ''relay closed''))) (\<lambda>frame.
    Inr (frame, t\<lparr>tcp_in := rest\<rparr>)))"

section \<open>Noise\<close>

definition MAX_NOISE_MESSAGE :: nat where
  "MAX_NOISE_MESSAGE = 65535"

definition NOISE_PSK_PATTERN :: str where
  "NOISE_PSK_PATTERN = ascii ''Noise_NNpsk0_25519_ChaChaPoly_BLAKE2s''"

definition NOISE_PROVIDER_PATTERN :: str where
  "NOISE_PROVIDER_PATTERN = ascii ''Noise_KN_25519_ChaChaPoly_BLAKE2s''"

datatype noise_key =
    Psk bytes32
  | LocalPrivateKey bytes32
  | RemotePublicKey bytes32

text \<open>
  The library: parsing a pattern, building the state of a handshake (for the initiator or the
  responder), the handshake's and the transport's \<open>write_message\<close> and \<open>read_message\<close> with the size
  of the output buffer, and the change to transport mode.
\<close>

record ('h, 'n) noise =
  nz_pattern :: "str \<Rightarrow> bool"
  nz_build :: "str \<Rightarrow> noise_key \<Rightarrow> bool \<Rightarrow> snow_error + 'h"
  nz_hs_write :: "'h \<Rightarrow> u8 list \<Rightarrow> nat \<Rightarrow> snow_error + u8 list \<times> 'h"
  nz_hs_read :: "'h \<Rightarrow> u8 list \<Rightarrow> nat \<Rightarrow> snow_error + u8 list \<times> 'h"
  nz_transport :: "'h \<Rightarrow> snow_error + 'n"
  nz_write :: "'n \<Rightarrow> u8 list \<Rightarrow> nat \<Rightarrow> snow_error + u8 list \<times> 'n"
  nz_read :: "'n \<Rightarrow> u8 list \<Rightarrow> nat \<Rightarrow> snow_error + u8 list \<times> 'n"

definition parse_noise_pattern :: "('h, 'n) noise \<Rightarrow> str \<Rightarrow> net_error + str" where
  "parse_noise_pattern z pattern = (if nz_pattern z pattern then Inr pattern else Inl InvalidNoisePattern)"

section \<open>Sessions\<close>

record 'n session =
  ss_transport :: tcp
  ss_noise :: 'n

definition handshake_initiator :: "('h, 'n) noise \<Rightarrow> tcp \<Rightarrow> 'h \<Rightarrow> net_error + 'n session" where
  "handshake_initiator z t h =
    and_then (map_err NetNoise (nz_hs_write z h [] MAX_NOISE_MESSAGE)) (\<lambda>(m, h).
    and_then (send_frame m t) (\<lambda>t.
    and_then (receive_frame t) (\<lambda>(response, t).
    and_then (map_err NetNoise (nz_hs_read z h response MAX_NOISE_MESSAGE)) (\<lambda>(_, h).
    and_then (map_err NetNoise (nz_transport z h)) (\<lambda>n.
    Inr \<lparr>ss_transport = t, ss_noise = n\<rparr>)))))"

definition handshake_responder :: "('h, 'n) noise \<Rightarrow> tcp \<Rightarrow> 'h \<Rightarrow> net_error + 'n session" where
  "handshake_responder z t h =
    and_then (receive_frame t) (\<lambda>(request, t).
    and_then (map_err NetNoise (nz_hs_read z h request MAX_NOISE_MESSAGE)) (\<lambda>(_, h).
    and_then (map_err NetNoise (nz_hs_write z h [] MAX_NOISE_MESSAGE)) (\<lambda>(m, h).
    and_then (send_frame m t) (\<lambda>t.
    and_then (map_err NetNoise (nz_transport z h)) (\<lambda>n.
    Inr \<lparr>ss_transport = t, ss_noise = n\<rparr>)))))"

definition noise_build ::
  "('h, 'n) noise \<Rightarrow> str \<Rightarrow> noise_key \<Rightarrow> bool \<Rightarrow> net_error + 'h" where
  "noise_build z pattern key initiator =
    and_then (parse_noise_pattern z pattern) (\<lambda>pattern.
    map_err NetNoise (nz_build z pattern key initiator))"

definition session_initiator :: "('h, 'n) noise \<Rightarrow> tcp \<Rightarrow> bytes32 \<Rightarrow> net_error + 'n session" where
  "session_initiator z t psk =
    and_then (noise_build z NOISE_PSK_PATTERN (Psk psk) True) (handshake_initiator z t)"

definition session_responder :: "('h, 'n) noise \<Rightarrow> tcp \<Rightarrow> bytes32 \<Rightarrow> net_error + 'n session" where
  "session_responder z t psk =
    and_then (noise_build z NOISE_PSK_PATTERN (Psk psk) False) (handshake_responder z t)"

definition session_provider :: "('h, 'n) noise \<Rightarrow> tcp \<Rightarrow> bytes32 \<Rightarrow> net_error + 'n session" where
  "session_provider z t private_key =
    and_then (noise_build z NOISE_PROVIDER_PATTERN (LocalPrivateKey private_key) True)
      (handshake_initiator z t)"

definition session_receiver :: "('h, 'n) noise \<Rightarrow> tcp \<Rightarrow> bytes32 \<Rightarrow> net_error + 'n session" where
  "session_receiver z t provider_public_key =
    and_then (noise_build z NOISE_PROVIDER_PATTERN (RemotePublicKey provider_public_key) False)
      (handshake_responder z t)"

definition session_send :: "('h, 'n) noise \<Rightarrow> message \<Rightarrow> 'n session \<Rightarrow> net_error + 'n session" where
  "session_send z m s =
    and_then (map_err NetProtocol (encode m)) (\<lambda>plaintext.
    and_then (map_err NetNoise (nz_write z (ss_noise s) plaintext (length plaintext + 16))) (\<lambda>(c, n).
    and_then (send_frame c (ss_transport s)) (\<lambda>t.
    Inr \<lparr>ss_transport = t, ss_noise = n\<rparr>)))"

definition session_receive :: "('h, 'n) noise \<Rightarrow> 'n session \<Rightarrow> net_error + message \<times> 'n session" where
  "session_receive z s =
    and_then (receive_frame (ss_transport s)) (\<lambda>(c, t).
    and_then (map_err NetNoise (nz_read z (ss_noise s) c (length c))) (\<lambda>(plaintext, n).
    and_then (map_err NetProtocol (decode plaintext)) (\<lambda>m.
    Inr (m, \<lparr>ss_transport = t, ss_noise = n\<rparr>))))"

text \<open>Several messages, one after the other.\<close>

fun session_send_all :: "('h, 'n) noise \<Rightarrow> message list \<Rightarrow> 'n session \<Rightarrow> net_error + 'n session" where
  "session_send_all z [] s = Inr s"
| "session_send_all z (m # ms) s = and_then (session_send z m s) (session_send_all z ms)"

fun session_receive_n ::
  "('h, 'n) noise \<Rightarrow> nat \<Rightarrow> 'n session \<Rightarrow> net_error + message list \<times> 'n session" where
  "session_receive_n z 0 s = Inr ([], s)"
| "session_receive_n z (Suc k) s =
    and_then (session_receive z s) (\<lambda>(m, s).
    and_then (session_receive_n z k s) (\<lambda>(ms, s). Inr (m # ms, s)))"

section \<open>What the library promises\<close>

text \<open>
  Transport states are paired when they come from the two ends of one handshake.  A message of at
  most 65,535 bytes with its 16-byte tag is sealed, and the peer opens it to the same plaintext;
  the states stay paired, in both directions.
\<close>

definition noise_sound :: "('h, 'n) noise \<Rightarrow> ('n \<Rightarrow> 'n \<Rightarrow> bool) \<Rightarrow> bool" where
  "noise_sound z paired \<longleftrightarrow>
    (\<forall>a b p k. paired a b \<longrightarrow> length p + 16 \<le> k \<longrightarrow> length p + 16 \<le> MAX_NOISE_MESSAGE \<longrightarrow>
      (\<exists>c a' b'. nz_write z a p k = Inr (c, a') \<and> length c = length p + 16
        \<and> nz_read z b c (length c) = Inr (p, b') \<and> paired a' b'))"

section \<open>Exchanging messages\<close>

lemma noise_soundD:
  assumes "noise_sound z paired" "paired a b" "length p + 16 \<le> MAX_NOISE_MESSAGE"
  obtains c a' b' where "nz_write z a p (length p + 16) = Inr (c, a')" "length c = length p + 16"
    "nz_read z b c (length c) = Inr (p, b')" "paired a' b'"
  using assms unfolding noise_sound_def by blast

definition sendable :: "message \<Rightarrow> bool" where
  "sendable m \<longleftrightarrow> message_strings_utf8 m \<and> validate_message m = Inr ()"

lemma sendable_encode:
  assumes "sendable m"
  obtains p where "encode m = Inr p" "decode p = Inr m" "length p + 16 \<le> MAX_NOISE_MESSAGE"
proof -
  let ?p = "header DOMAIN_APPLICATION @ enc_message m"
  have "encode m = Inr ?p" "decode ?p = Inr m"
    using assms by (simp_all add: sendable_def encode_eq decode_Inr_iff)
  moreover have "length ?p + 16 \<le> MAX_NOISE_MESSAGE"
    using assms validate_message_size [of m "()"]
    by (simp add: sendable_def MAX_NOISE_MESSAGE_def MAX_APPLICATION_MESSAGE_BYTES_def)
  ultimately show thesis by (rule that)
qed

lemma write_session_frame:
  assumes "length c \<le> MAX_NOISE_MESSAGE" obtains b where "write_frame MAX_FRAME_LENGTH c = Inr b"
  using assms
  by (auto simp: write_frame_def u32_try_from_def MAX_NOISE_MESSAGE_def MAX_FRAME_LENGTH_def u32_max_def)

text \<open>
  Sending a list of messages appends complete frames to the output; a paired receiver that finds
  those frames at the front of its input reads the same messages and leaves the rest.
\<close>

lemma session_exchange:
  assumes "noise_sound z paired" "paired a b" "list_all sendable ms"
  shows "\<exists>a' b' fs bss. collect_results (write_frame MAX_FRAME_LENGTH) fs = Inr bss \<and> paired a' b'
    \<and> (\<forall>t. session_send_all z ms \<lparr>ss_transport = t, ss_noise = a\<rparr> =
        Inr \<lparr>ss_transport = t\<lparr>tcp_out := tcp_out t @ concat bss\<rparr>, ss_noise = a'\<rparr>)
    \<and> (\<forall>t rest. session_receive_n z (length ms)
          \<lparr>ss_transport = t\<lparr>tcp_in := concat bss @ rest\<rparr>, ss_noise = b\<rparr> =
        Inr (ms, \<lparr>ss_transport = t\<lparr>tcp_in := rest\<rparr>, ss_noise = b'\<rparr>))"
  using assms(2,3)
proof (induction ms arbitrary: a b)
  case Nil
  have "collect_results (write_frame MAX_FRAME_LENGTH) [] = Inr []" by simp
  then show ?case using Nil by fastforce
next
  case (Cons m ms)
  obtain p where p: "encode m = Inr p" "decode p = Inr m" "length p + 16 \<le> MAX_NOISE_MESSAGE"
    using sendable_encode Cons.prems(2) by auto
  obtain c a1 b1 where c: "nz_write z a p (length p + 16) = Inr (c, a1)"
    "length c = length p + 16" "nz_read z b c (length c) = Inr (p, b1)" "paired a1 b1"
    by (rule noise_soundD [OF assms(1) Cons.prems(1) p(3)])
  obtain f where f: "write_frame MAX_FRAME_LENGTH c = Inr f"
    using write_session_frame c(2) p(3) by metis
  have send: "session_send z m \<lparr>ss_transport = t, ss_noise = a\<rparr> =
      Inr \<lparr>ss_transport = t\<lparr>tcp_out := tcp_out t @ f\<rparr>, ss_noise = a1\<rparr>" for t
    by (simp add: session_send_def p c send_frame_def f)
  have receive: "session_receive z \<lparr>ss_transport = t\<lparr>tcp_in := f @ i\<rparr>, ss_noise = b\<rparr> =
      Inr (m, \<lparr>ss_transport = t\<lparr>tcp_in := i\<rparr>, ss_noise = b1\<rparr>)" for t i
    using frames.read_written [OF f, of i] c(2,3) p(2)
    by (simp add: session_receive_def receive_frame_def)
  obtain a' b' fs bss where ih: "collect_results (write_frame MAX_FRAME_LENGTH) fs = Inr bss" "paired a' b'"
    "\<And>t. session_send_all z ms \<lparr>ss_transport = t, ss_noise = a1\<rparr> =
        Inr \<lparr>ss_transport = t\<lparr>tcp_out := tcp_out t @ concat bss\<rparr>, ss_noise = a'\<rparr>"
    "\<And>t rest. session_receive_n z (length ms)
          \<lparr>ss_transport = t\<lparr>tcp_in := concat bss @ rest\<rparr>, ss_noise = b1\<rparr> =
        Inr (ms, \<lparr>ss_transport = t\<lparr>tcp_in := rest\<rparr>, ss_noise = b'\<rparr>)"
    using Cons.IH [OF c(4)] Cons.prems(2) by auto
  have "collect_results (write_frame MAX_FRAME_LENGTH) (c # fs) = Inr (f # bss)"
    unfolding collect_results.simps f and_then.simps ih(1) ..
  moreover have "session_send_all z (m # ms) \<lparr>ss_transport = t, ss_noise = a\<rparr> =
      Inr \<lparr>ss_transport = t\<lparr>tcp_out := tcp_out t @ concat (f # bss)\<rparr>, ss_noise = a'\<rparr>" for t
    by (simp add: send ih(3))
  moreover have "session_receive_n z (length (m # ms))
        \<lparr>ss_transport = t\<lparr>tcp_in := concat (f # bss) @ rest\<rparr>, ss_noise = b\<rparr> =
      Inr (m # ms, \<lparr>ss_transport = t\<lparr>tcp_in := rest\<rparr>, ss_noise = b'\<rparr>)" for t rest
    by (simp add: receive ih(4))
  ultimately show ?case using ih(2) by blast
qed

section \<open>Establishing a session\<close>

text \<open>
  The handshake patterns of the source have one message in each direction: the initiator's
  message is accepted by the responder, its answer by the initiator, and the two ends then hold
  paired transport states.
\<close>

definition handshake_sound ::
  "('h, 'n) noise \<Rightarrow> ('n \<Rightarrow> 'n \<Rightarrow> bool) \<Rightarrow> 'h \<Rightarrow> 'h \<Rightarrow> bool" where
  "handshake_sound z paired i r \<longleftrightarrow>
    (\<exists>m1 i1 p1 r1 m2 r2 p2 i2 a b.
      nz_hs_write z i [] MAX_NOISE_MESSAGE = Inr (m1, i1) \<and> length m1 \<le> MAX_NOISE_MESSAGE
      \<and> nz_hs_read z r m1 MAX_NOISE_MESSAGE = Inr (p1, r1)
      \<and> nz_hs_write z r1 [] MAX_NOISE_MESSAGE = Inr (m2, r2) \<and> length m2 \<le> MAX_NOISE_MESSAGE
      \<and> nz_hs_read z i1 m2 MAX_NOISE_MESSAGE = Inr (p2, i2)
      \<and> nz_transport z i2 = Inr a \<and> nz_transport z r2 = Inr b
      \<and> paired a b \<and> paired b a)"

lemma handshake_pairs:
  assumes "handshake_sound z paired i r"
  obtains a b f1 f2 c1 c2 where "paired a b" "paired b a"
    "write_frame MAX_FRAME_LENGTH c1 = Inr f1" "write_frame MAX_FRAME_LENGTH c2 = Inr f2"
    "\<And>rest. handshake_initiator z \<lparr>tcp_in = f2 @ rest, tcp_out = []\<rparr> i =
      Inr \<lparr>ss_transport = \<lparr>tcp_in = rest, tcp_out = f1\<rparr>, ss_noise = a\<rparr>"
    "\<And>rest. handshake_responder z \<lparr>tcp_in = f1 @ rest, tcp_out = []\<rparr> r =
      Inr \<lparr>ss_transport = \<lparr>tcp_in = rest, tcp_out = f2\<rparr>, ss_noise = b\<rparr>"
proof -
  obtain m1 i1 p1 r1 m2 r2 p2 i2 a b where
    h: "nz_hs_write z i [] MAX_NOISE_MESSAGE = Inr (m1, i1)" "length m1 \<le> MAX_NOISE_MESSAGE"
      "nz_hs_read z r m1 MAX_NOISE_MESSAGE = Inr (p1, r1)"
      "nz_hs_write z r1 [] MAX_NOISE_MESSAGE = Inr (m2, r2)" "length m2 \<le> MAX_NOISE_MESSAGE"
      "nz_hs_read z i1 m2 MAX_NOISE_MESSAGE = Inr (p2, i2)"
      "nz_transport z i2 = Inr a" "nz_transport z r2 = Inr b" "paired a b" "paired b a"
    using assms unfolding handshake_sound_def by blast
  obtain f1 where f1: "write_frame MAX_FRAME_LENGTH m1 = Inr f1" using write_session_frame h(2) by metis
  obtain f2 where f2: "write_frame MAX_FRAME_LENGTH m2 = Inr f2" using write_session_frame h(5) by metis
  show thesis
  proof (rule that [OF h(9,10) f1 f2])
    show "handshake_initiator z \<lparr>tcp_in = f2 @ rest, tcp_out = []\<rparr> i =
        Inr \<lparr>ss_transport = \<lparr>tcp_in = rest, tcp_out = f1\<rparr>, ss_noise = a\<rparr>" for rest
      by (simp add: handshake_initiator_def h send_frame_def f1 receive_frame_def frames.read_written [OF f2])
    show "handshake_responder z \<lparr>tcp_in = f1 @ rest, tcp_out = []\<rparr> r =
        Inr \<lparr>ss_transport = \<lparr>tcp_in = rest, tcp_out = f2\<rparr>, ss_noise = b\<rparr>" for rest
      by (simp add: handshake_responder_def h send_frame_def f2 receive_frame_def frames.read_written [OF f1])
  qed
qed

text \<open>
  When the library's handshake states match, the
  initiator and the responder, each fed the other's output, both complete, with paired transport
  states and nothing left unread; so either side can then send to the other.
\<close>

lemma session_establishes:
  assumes "handshake_sound z paired i r"
  shows "\<exists>si sr. handshake_initiator z \<lparr>tcp_in = tcp_out (ss_transport sr), tcp_out = []\<rparr> i = Inr si
    \<and> handshake_responder z \<lparr>tcp_in = tcp_out (ss_transport si), tcp_out = []\<rparr> r = Inr sr
    \<and> paired (ss_noise si) (ss_noise sr) \<and> paired (ss_noise sr) (ss_noise si)
    \<and> tcp_in (ss_transport si) = [] \<and> tcp_in (ss_transport sr) = []"
proof -
  obtain a b f1 f2 c1 c2 where p: "paired a b" "paired b a"
    "\<And>rest. handshake_initiator z \<lparr>tcp_in = f2 @ rest, tcp_out = []\<rparr> i =
      Inr \<lparr>ss_transport = \<lparr>tcp_in = rest, tcp_out = f1\<rparr>, ss_noise = a\<rparr>"
    "\<And>rest. handshake_responder z \<lparr>tcp_in = f1 @ rest, tcp_out = []\<rparr> r =
      Inr \<lparr>ss_transport = \<lparr>tcp_in = rest, tcp_out = f2\<rparr>, ss_noise = b\<rparr>"
    using handshake_pairs [OF assms] by metis
  let ?si = "\<lparr>ss_transport = \<lparr>tcp_in = [], tcp_out = f1\<rparr>, ss_noise = a\<rparr>"
    and ?sr = "\<lparr>ss_transport = \<lparr>tcp_in = [], tcp_out = f2\<rparr>, ss_noise = b\<rparr>"
  show ?thesis
    using p(1,2) p(3) [of "[]"] p(4) [of "[]"]
    by (intro exI [of _ ?si] exI [of _ ?sr]) simp
qed

section \<open>Properties\<close>

text \<open>
  (C7) Messages travel end to end.  Two ends of a completed handshake, connected through the
  relay's forwarding loop, deliver every sequence of sendable messages: all of them fit in Noise
  messages and frames, so sending succeeds; the relay forwards exactly the sender's bytes; and
  the receiver reads back exactly the sequence that was sent, in order.
\<close>

theorem session_end_to_end:
  assumes "noise_sound z paired" "paired a b" "list_all sendable ms"
  shows "\<exists>s' wire r'.
    session_send_all z ms \<lparr>ss_transport = \<lparr>tcp_in = i, tcp_out = []\<rparr>, ss_noise = a\<rparr> = Inr s'
    \<and> wire = tcp_out (ss_transport s') \<and> forward wire = (wire, Inr ())
    \<and> session_receive_n z (length ms)
        \<lparr>ss_transport = \<lparr>tcp_in = fst (forward wire), tcp_out = out\<rparr>, ss_noise = b\<rparr> = Inr (ms, r')
    \<and> tcp_in (ss_transport r') = []"
proof -
  obtain a' b' fs bss where x: "collect_results (write_frame MAX_FRAME_LENGTH) fs = Inr bss" "paired a' b'"
    "\<And>t. session_send_all z ms \<lparr>ss_transport = t, ss_noise = a\<rparr> =
        Inr \<lparr>ss_transport = t\<lparr>tcp_out := tcp_out t @ concat bss\<rparr>, ss_noise = a'\<rparr>"
    "\<And>t rest. session_receive_n z (length ms)
          \<lparr>ss_transport = t\<lparr>tcp_in := concat bss @ rest\<rparr>, ss_noise = b\<rparr> =
        Inr (ms, \<lparr>ss_transport = t\<lparr>tcp_in := rest\<rparr>, ss_noise = b'\<rparr>)"
    using session_exchange [OF assms] by blast
  have f: "forward (concat bss) = (concat bss, Inr ())" using x(1) by (rule forward_frames)
  show ?thesis
    using x(3) [of "\<lparr>tcp_in = i, tcp_out = []\<rparr>"] x(4) [of "[]" "\<lparr>tcp_in = [], tcp_out = out\<rparr>"] f
    by simp
qed

text \<open>A stand-in for the library: the tag is sixteen zero bytes.\<close>

definition plain_noise :: "(unit, unit) noise" where
  "plain_noise = \<lparr>nz_pattern = (\<lambda>_. True), nz_build = (\<lambda>_ _ _. Inr ()),
    nz_hs_write = (\<lambda>_ _ _. Inr ([1], ())), nz_hs_read = (\<lambda>_ _ _. Inr ([], ())),
    nz_transport = (\<lambda>_. Inr ()),
    nz_write = (\<lambda>_ p _. Inr (p @ replicate 16 0, ())),
    nz_read = (\<lambda>_ c _. Inr (take (length c - 16) c, ()))\<rparr>"

theorem session_end_to_end_witness:
  "\<exists>s'. session_send_all plain_noise [ChunkRequest 3, Complete]
      \<lparr>ss_transport = \<lparr>tcp_in = [], tcp_out = []\<rparr>, ss_noise = ()\<rparr> = Inr s'
    \<and> forward (tcp_out (ss_transport s')) = (tcp_out (ss_transport s'), Inr ())"
proof -
  have "noise_sound plain_noise (\<lambda>_ _. True)" by (simp add: noise_sound_def plain_noise_def)
  moreover have "list_all sendable [ChunkRequest 3, Complete]" by (simp add: sendable_def)
  ultimately show ?thesis
    using session_end_to_end [of plain_noise "\<lambda>_ _. True" "()" "()" "[ChunkRequest 3, Complete]" "[]" "[]"]
    by auto
qed

end
