(* ===== verification/Swarm.thy ===== *)
theory Swarm
  imports Availability "HOL-Library.Product_Lexorder"
begin

text \<open>
  The scheduler of \<open>triptorrent-swarm/src/lib.rs\<close>.  The scheduler hands
  every idle provider the rarest missing chunk it has; \<open>sched_ok\<close> is its invariant, and
  \<open>sched_step\<close> the transition system of its operations.  The locale \<open>chunk_scheduler\<close> is the
  interface the download loop relies on.  Counters are unbounded here; they count at most one
  event per request.
\<close>

section \<open>State\<close>

datatype chunk_state = Missing | InFlight nat | ChunkDone

record provider_state =
  p_availability :: piece_availability
  p_active :: bool
  p_busy :: bool
  p_accepted :: nat
  p_rejected :: nat

record provider_stats =
  st_accepted :: nat
  st_rejected :: nat
  st_active :: bool

record scheduler =
  s_chunks :: "chunk_state list"
  s_providers :: "provider_state list"
  s_retries :: nat

datatype schedule_error =
    InvalidCompletedLength
  | InvalidAvailability
  | ScheduleTooManyChunks
  | UnknownProvider
  | UnexpectedChunk

section \<open>Operations\<close>

definition scheduler_new ::
  "nat \<Rightarrow> piece_availability list \<Rightarrow> bool list \<Rightarrow> schedule_error + scheduler" where
  "scheduler_new chunk_count availability completed =
    (if length completed \<noteq> chunk_count then Inl InvalidCompletedLength
     else and_then (ok_or (u32_try_from chunk_count) ScheduleTooManyChunks) (\<lambda>expected.
       if list_ex (\<lambda>a. pa_chunk_count a \<noteq> expected \<or> \<not> availability_is_valid a) availability
       then Inl InvalidAvailability
       else Inr
         \<lparr>s_chunks = map (\<lambda>d. if d then ChunkDone else Missing) completed,
          s_providers = map (\<lambda>a. \<lparr>p_availability = a, p_active = True, p_busy = False,
            p_accepted = 0, p_rejected = 0\<rparr>) availability,
          s_retries = 0\<rparr>))"

definition provider_has :: "provider_state \<Rightarrow> nat \<Rightarrow> bool" where
  "provider_has p index =
    availability_contains (p_availability p) (unwrap_or (u32_try_from index) (- 1))"

definition source_count :: "scheduler \<Rightarrow> nat \<Rightarrow> nat" where
  "source_count s index = length (filter (\<lambda>p. p_active p \<and> provider_has p index) (s_providers s))"

text \<open>The candidates of \<open>assign\<close> as (rarity, index) pairs, whose minimum is chosen.\<close>

definition candidates :: "scheduler \<Rightarrow> nat \<Rightarrow> (nat \<times> nat) list" where
  "candidates s provider =
    map (\<lambda>(index, _). (source_count s index, index))
      (filter (\<lambda>(index, state). state = Missing \<and> provider_has (s_providers s ! provider) index)
        (enumerate_list (s_chunks s)))"

definition assign :: "scheduler \<Rightarrow> nat \<Rightarrow> u32 option \<times> scheduler" where
  "assign s provider =
    (if length (s_providers s) \<le> provider then (None, s)
     else let state = s_providers s ! provider in
       if \<not> p_active state \<or> p_busy state then (None, s)
       else case candidates s provider of
         [] \<Rightarrow> (None, s)
       | c # cs \<Rightarrow>
           (let choice = min_list (c # cs) in
            (u32_try_from (snd choice),
             s\<lparr>s_chunks := (s_chunks s)[snd choice := InFlight provider],
               s_providers := (s_providers s)[provider := state\<lparr>p_busy := True\<rparr>]\<rparr>)))"

definition accept :: "scheduler \<Rightarrow> nat \<Rightarrow> u32 \<Rightarrow> (schedule_error + unit) \<times> scheduler" where
  "accept s provider index =
    (let i = unat index in
     if \<not> (i < length (s_chunks s) \<and> s_chunks s ! i = InFlight provider)
     then (Inl UnexpectedChunk, s)
     else let s = s\<lparr>s_chunks := (s_chunks s)[i := ChunkDone]\<rparr> in
       if length (s_providers s) \<le> provider then (Inl UnknownProvider, s)
       else let state = s_providers s ! provider in
         (Inr (),
          s\<lparr>s_providers := (s_providers s)
              [provider := state\<lparr>p_busy := False, p_accepted := p_accepted state + 1\<rparr>]\<rparr>))"

definition reject :: "scheduler \<Rightarrow> nat \<Rightarrow> scheduler" where
  "reject s provider =
    (let s = s\<lparr>s_chunks := map (\<lambda>c. if c = InFlight provider then Missing else c) (s_chunks s),
               s_retries := s_retries s + length (filter (\<lambda>c. c = InFlight provider) (s_chunks s))\<rparr>
     in if provider < length (s_providers s)
        then let state = s_providers s ! provider in
          s\<lparr>s_providers := (s_providers s)
              [provider := state\<lparr>p_busy := False, p_active := False,
                 p_rejected := p_rejected state + 1\<rparr>]\<rparr>
        else s)"

definition is_complete :: "scheduler \<Rightarrow> bool" where
  "is_complete s = list_all (\<lambda>c. c = ChunkDone) (s_chunks s)"

fun is_in_flight :: "chunk_state \<Rightarrow> bool" where
  "is_in_flight (InFlight p) = True"
| "is_in_flight _ = False"

definition has_in_flight :: "scheduler \<Rightarrow> bool" where
  "has_in_flight s = list_ex is_in_flight (s_chunks s)"

definition can_finish :: "scheduler \<Rightarrow> bool" where
  "can_finish s =
    list_all (\<lambda>(index, state). state \<noteq> Missing \<or> 0 < source_count s index)
      (enumerate_list (s_chunks s))"

definition provider_stats_of :: "scheduler \<Rightarrow> nat \<Rightarrow> provider_stats option" where
  "provider_stats_of s provider =
    (if provider < length (s_providers s)
     then let state = s_providers s ! provider in
       Some \<lparr>st_accepted = p_accepted state, st_rejected = p_rejected state,
             st_active = p_active state\<rparr>
     else None)"

definition retries :: "scheduler \<Rightarrow> nat" where
  "retries s = s_retries s"

section \<open>The invariant\<close>

text \<open>\<open>claims s p i\<close>: chunk \<open>i\<close> is in flight at provider \<open>p\<close>.\<close>

definition claims :: "scheduler \<Rightarrow> nat \<Rightarrow> nat \<Rightarrow> bool" where
  "claims s p i \<longleftrightarrow> i < length (s_chunks s) \<and> s_chunks s ! i = InFlight p"

definition chunk_done :: "scheduler \<Rightarrow> nat \<Rightarrow> bool" where
  "chunk_done s i \<longleftrightarrow> i < length (s_chunks s) \<and> s_chunks s ! i = ChunkDone"

definition sched_shape :: "scheduler \<Rightarrow> bool" where
  "sched_shape s \<longleftrightarrow>
    length (s_chunks s) \<le> u32_max
    \<and> (\<forall>p < length (s_providers s).
         availability_is_valid (p_availability (s_providers s ! p))
         \<and> unat (pa_chunk_count (p_availability (s_providers s ! p))) = length (s_chunks s))"

definition sched_claims :: "scheduler \<Rightarrow> bool" where
  "sched_claims s \<longleftrightarrow>
    (\<forall>p i. claims s p i \<longrightarrow>
       p < length (s_providers s) \<and> p_busy (s_providers s ! p) \<and> p_active (s_providers s ! p)
       \<and> provider_has (s_providers s ! p) i)
    \<and> (\<forall>p < length (s_providers s). p_busy (s_providers s ! p) \<longrightarrow> (\<exists>i. claims s p i))
    \<and> (\<forall>p i j. claims s p i \<longrightarrow> claims s p j \<longrightarrow> i = j)"

definition inactive_count :: "scheduler \<Rightarrow> nat" where
  "inactive_count s = length (filter (\<lambda>p. \<not> p_active p) (s_providers s))"

definition sched_ok :: "scheduler \<Rightarrow> bool" where
  "sched_ok s \<longleftrightarrow> sched_shape s \<and> sched_claims s \<and> s_retries s \<le> inactive_count s"

lemma provider_has_update [simp]:
  "provider_has (p\<lparr>p_busy := b\<rparr>) i = provider_has p i"
  "provider_has (p\<lparr>p_active := a\<rparr>) i = provider_has p i"
  "provider_has (p\<lparr>p_accepted := n\<rparr>) i = provider_has p i"
  "provider_has (p\<lparr>p_rejected := n\<rparr>) i = provider_has p i"
  by (simp_all add: provider_has_def)

lemma scheduler_new_ok:
  assumes "scheduler_new n as completed = Inr s"
  shows "sched_ok s"
proof -
  obtain e where e: "u32_try_from n = Some e" "length completed = n"
    and as: "list_all (\<lambda>a. pa_chunk_count a = e \<and> availability_is_valid a) as"
    and s: "s = \<lparr>s_chunks = map (\<lambda>d. if d then ChunkDone else Missing) completed,
        s_providers = map (\<lambda>a. \<lparr>p_availability = a, p_active = True, p_busy = False,
          p_accepted = 0, p_rejected = 0\<rparr>) as, s_retries = 0\<rparr>"
    using assms
    by (auto simp: scheduler_new_def result_iffs list_ex_iff list_all_iff split: if_splits)
  have "unat e = n" using e(1) by (simp add: u32_try_from_Some_iff)
  then have "sched_shape s"
    using e as unat_lt_u32 [of e] by (auto simp: sched_shape_def s list_all_length)
  moreover have "sched_claims s"
  proof -
    have "\<not> claims s p i" for p i by (auto simp: claims_def s split: if_splits)
    moreover have "\<not> p_busy (s_providers s ! p)" if "p < length (s_providers s)" for p
      using that by (simp add: s)
    ultimately show ?thesis by (simp add: sched_claims_def)
  qed
  ultimately show ?thesis by (simp add: sched_ok_def s)
qed

section \<open>Assignment\<close>

lemma set_candidates:
  "set (candidates s p) =
   {(source_count s i, i) | i. i < length (s_chunks s) \<and> s_chunks s ! i = Missing
      \<and> provider_has (s_providers s ! p) i}"
  by (auto simp: candidates_def set_enumerate_list image_iff)

text \<open>When \<open>assign\<close> returns nothing, the state is unchanged and nothing was eligible.\<close>

definition eligible :: "scheduler \<Rightarrow> nat \<Rightarrow> nat \<Rightarrow> bool" where
  "eligible s p i \<longleftrightarrow>
    p < length (s_providers s) \<and> p_active (s_providers s ! p) \<and> \<not> p_busy (s_providers s ! p)
    \<and> i < length (s_chunks s) \<and> s_chunks s ! i = Missing \<and> provider_has (s_providers s ! p) i"

definition claim_chunk :: "scheduler \<Rightarrow> nat \<Rightarrow> nat \<Rightarrow> scheduler" where
  "claim_chunk s p i =
    s\<lparr>s_chunks := (s_chunks s)[i := InFlight p],
      s_providers := (s_providers s)[p := (s_providers s ! p)\<lparr>p_busy := True\<rparr>]\<rparr>"

lemma assign_cases:
  assumes "sched_shape s"
  obtains (none) "assign s p = (None, s)" "\<And>i. \<not> eligible s p i"
  | (some) i where "assign s p = (Some (of_nat i), claim_chunk s p i)" "eligible s p i"
      "\<And>j. eligible s p j \<Longrightarrow> (source_count s i, i) \<le> (source_count s j, j)"
proof (cases "p < length (s_providers s) \<and> p_active (s_providers s ! p) \<and> \<not> p_busy (s_providers s ! p)")
  case False
  then show ?thesis using none by (auto simp: assign_def eligible_def)
next
  case True
  show ?thesis
  proof (cases "candidates s p")
    case Nil
    then have "\<not> eligible s p i" for i
      using set_candidates [of s p] by (auto simp: eligible_def)
    then show ?thesis using none True Nil by (simp add: assign_def)
  next
    case (Cons c cs)
    let ?m = "min_list (c # cs)"
    have min: "?m = Min (set (candidates s p))" 
      using Cons min_list_Min [of "c # cs"] by (simp del: min_list.simps)
    then have mem: "?m \<in> set (candidates s p)" using Cons 
      by (metis List.finite_set Min_in list.distinct(1) set_empty)
    then obtain i where i: "?m = (source_count s i, i)" "eligible s p i"
      using True by (auto simp: set_candidates eligible_def)
    have le: "?m \<le> (source_count s j, j)" if "eligible s p j" for j
      unfolding min using that by (intro Min_le) (auto simp: set_candidates eligible_def)
    have "i \<le> u32_max" using i(2) assms by (simp add: eligible_def sched_shape_def)
    then have "assign s p = (Some (of_nat i), claim_chunk s p i)"
      using True Cons i(1)
      by (simp add: assign_def Let_def claim_chunk_def u32_try_from_def del: min_list.simps)
    then show ?thesis using some i le by auto
  qed
qed

lemma claims_claim_chunk:
  "eligible s p i \<Longrightarrow> claims (claim_chunk s p i) q j \<longleftrightarrow> claims s q j \<or> (q = p \<and> j = i)"
  by (auto simp: claims_def claim_chunk_def eligible_def nth_list_update)

lemma claim_chunk_ok:
  assumes ok: "sched_ok s" and e: "eligible s p i"
  shows "sched_ok (claim_chunk s p i)"
proof -
  have nop: "\<not> claims s p j" for j
    using ok e by (auto simp: sched_ok_def sched_claims_def eligible_def)
  have "sched_shape (claim_chunk s p i)"
    using ok e by (auto simp: sched_ok_def sched_shape_def claim_chunk_def eligible_def nth_list_update)
  moreover have "sched_claims (claim_chunk s p i)"
    unfolding sched_claims_def claims_claim_chunk [OF e]
  proof (intro conjI allI impI)
    fix q j assume "claims s q j \<or> q = p \<and> j = i"
    then show "q < length (s_providers (claim_chunk s p i))"
      "p_busy (s_providers (claim_chunk s p i) ! q)" "p_active (s_providers (claim_chunk s p i) ! q)"
      "provider_has (s_providers (claim_chunk s p i) ! q) j"
      using ok e
      by (auto simp: sched_ok_def sched_claims_def claim_chunk_def eligible_def nth_list_update)
  next
    fix q assume "q < length (s_providers (claim_chunk s p i))" "p_busy (s_providers (claim_chunk s p i) ! q)"
    then show "\<exists>j. claims s q j \<or> q = p \<and> j = i"
      using ok by (cases "q = p") (auto simp: sched_ok_def sched_claims_def claim_chunk_def)
  next
    fix q j k assume "claims s q j \<or> q = p \<and> j = i" "claims s q k \<or> q = p \<and> k = i"
    then show "j = k" using ok nop by (auto simp: sched_ok_def sched_claims_def)
  qed
  moreover have "inactive_count (claim_chunk s p i) = inactive_count s"
    using length_filter_update [of p "s_providers s" "\<lambda>p. \<not> p_active p" "(s_providers s ! p)\<lparr>p_busy := True\<rparr>"] e
    by (simp add: inactive_count_def claim_chunk_def eligible_def)
  ultimately show ?thesis using ok by (simp add: sched_ok_def claim_chunk_def inactive_count_def)
qed

lemma assign_ok: "sched_ok s \<Longrightarrow> sched_ok (snd (assign s p))"
proof -
  assume ok: "sched_ok s"
  then have "sched_shape s" by (simp add: sched_ok_def)
  then show ?thesis
    by (cases rule: assign_cases [of s p]) (auto simp: ok claim_chunk_ok)
qed

section \<open>Answers: accept and reject\<close>

definition finish_chunk :: "scheduler \<Rightarrow> nat \<Rightarrow> nat \<Rightarrow> scheduler" where
  "finish_chunk s p i =
    s\<lparr>s_chunks := (s_chunks s)[i := ChunkDone],
      s_providers := (s_providers s)
        [p := (s_providers s ! p)\<lparr>p_busy := False, p_accepted := p_accepted (s_providers s ! p) + 1\<rparr>]\<rparr>"

lemma claims_bounds:
  assumes "sched_ok s" "claims s p i"
  shows "p < length (s_providers s)" "i < length (s_chunks s)" "unat (of_nat i :: u32) = i"
    "p_active (s_providers s ! p)" "p_busy (s_providers s ! p)"
proof -
  show i: "i < length (s_chunks s)" using assms by (simp add: claims_def)
  then show "unat (of_nat i :: u32) = i"
    using assms by (intro unat_of_nat_u32) (simp add: sched_ok_def sched_shape_def)
qed (use assms in \<open>auto simp: sched_ok_def sched_claims_def\<close>)

lemma accept_eq:
  assumes "sched_ok s"
  shows "accept s p w =
    (if claims s p (unat w) then (Inr (), finish_chunk s p (unat w)) else (Inl UnexpectedChunk, s))"
  using claims_bounds(1) [OF assms, of p "unat w"]
  by (auto simp: accept_def Let_def claims_def finish_chunk_def)

lemma claims_finish_chunk:
  "claims s p i \<Longrightarrow> claims (finish_chunk s p i) q j \<longleftrightarrow> claims s q j \<and> j \<noteq> i"
  by (auto simp: claims_def finish_chunk_def nth_list_update)

lemma finish_chunk_ok:
  assumes ok: "sched_ok s" and c: "claims s p i"
  shows "sched_ok (finish_chunk s p i)"
proof -
  note b = claims_bounds [OF ok c]
  have uniq: "claims s p j \<longleftrightarrow> j = i" for j
    using ok c by (auto simp: sched_ok_def sched_claims_def)
  have other: "claims s q i \<longleftrightarrow> q = p" for q using c by (auto simp: claims_def)
  have "sched_shape (finish_chunk s p i)"
    using ok b by (auto simp: sched_ok_def sched_shape_def finish_chunk_def nth_list_update)
  moreover have "sched_claims (finish_chunk s p i)"
    unfolding sched_claims_def claims_finish_chunk [OF c]
  proof (intro conjI allI impI)
    fix q j assume *: "claims s q j \<and> j \<noteq> i"
    then have "q \<noteq> p" using uniq by auto
    then show "q < length (s_providers (finish_chunk s p i))"
      "p_busy (s_providers (finish_chunk s p i) ! q)" "p_active (s_providers (finish_chunk s p i) ! q)"
      "provider_has (s_providers (finish_chunk s p i) ! q) j"
      using * ok by (auto simp: sched_ok_def sched_claims_def finish_chunk_def)
  next
    fix q assume q: "q < length (s_providers (finish_chunk s p i))"
      "p_busy (s_providers (finish_chunk s p i) ! q)"
    then have "q \<noteq> p" using b by (auto simp: finish_chunk_def)
    then obtain j where "claims s q j"
      using q ok by (auto simp: sched_ok_def sched_claims_def finish_chunk_def)
    then show "\<exists>j. claims s q j \<and> j \<noteq> i" using other \<open>q \<noteq> p\<close> by blast
  next
    fix q j k assume "claims s q j \<and> j \<noteq> i" "claims s q k \<and> k \<noteq> i"
    then show "j = k" using ok by (auto simp: sched_ok_def sched_claims_def)
  qed
  moreover have "inactive_count (finish_chunk s p i) = inactive_count s"
    using b length_filter_update [of p "s_providers s" "\<lambda>p. \<not> p_active p"
        "(s_providers s ! p)\<lparr>p_busy := False, p_accepted := p_accepted (s_providers s ! p) + 1\<rparr>"]
    by (simp add: inactive_count_def finish_chunk_def)
  ultimately show ?thesis using ok by (simp add: sched_ok_def finish_chunk_def inactive_count_def)
qed

lemma accept_ok: "sched_ok s \<Longrightarrow> sched_ok (snd (accept s p w))"
  by (simp add: accept_eq finish_chunk_ok)

lemma reject_fields:
  "s_chunks (reject s p) = map (\<lambda>c. if c = InFlight p then Missing else c) (s_chunks s)"
  "length (s_providers (reject s p)) = length (s_providers s)"
  "s_retries (reject s p) = s_retries s + length (filter (\<lambda>c. c = InFlight p) (s_chunks s))"
  "q < length (s_providers s) \<Longrightarrow> s_providers (reject s p) ! q =
    (if q = p
     then (s_providers s ! q)\<lparr>p_busy := False, p_active := False,
            p_rejected := p_rejected (s_providers s ! q) + 1\<rparr>
     else s_providers s ! q)"
  by (simp_all add: reject_def Let_def)

lemma claims_reject: "claims (reject s p) q j \<longleftrightarrow> claims s q j \<and> q \<noteq> p"
  by (auto simp: claims_def reject_fields split: if_splits)

lemma inactive_reject:
  "p < length (s_providers s) \<Longrightarrow>
   inactive_count (reject s p) = inactive_count s + (if p_active (s_providers s ! p) then 1 else 0)"
  using length_filter_update [of p "s_providers s" "\<lambda>p. \<not> p_active p"
      "(s_providers s ! p)\<lparr>p_busy := False, p_active := False,
         p_rejected := p_rejected (s_providers s ! p) + 1\<rparr>"]
  by (auto simp: inactive_count_def reject_def Let_def split: if_splits)

lemma reject_ok:
  assumes ok: "sched_ok s"
  shows "sched_ok (reject s p)"
proof -
  have "sched_shape (reject s p)"
    using ok by (auto simp: sched_ok_def sched_shape_def reject_fields)
  moreover have "sched_claims (reject s p)"
    unfolding sched_claims_def claims_reject
    using ok by (auto simp: sched_ok_def sched_claims_def reject_fields split: if_splits)
  moreover have "s_retries (reject s p) \<le> inactive_count (reject s p)"
  proof (cases "\<exists>i. claims s p i")
    case True
    then have p: "p < length (s_providers s)" "p_active (s_providers s ! p)"
      using claims_bounds [OF ok] by blast+
    have "length (filter (\<lambda>c. c = InFlight p) (s_chunks s)) \<le> 1"
      using ok by (intro length_filter_le_1) (auto simp: sched_ok_def sched_claims_def claims_def)
    then show ?thesis using ok p by (simp add: sched_ok_def inactive_reject reject_fields)
  next
    case False
    then have "filter (\<lambda>c. c = InFlight p) (s_chunks s) = []"
      by (auto simp: filter_empty_conv claims_def in_set_conv_nth)
    moreover have "inactive_count s \<le> inactive_count (reject s p)"
    proof (cases "p < length (s_providers s)")
      case True
      then show ?thesis by (simp add: inactive_reject)
    next
      case False
      then show ?thesis by (simp add: inactive_count_def reject_def)
    qed
    ultimately show ?thesis using ok by (simp add: sched_ok_def reject_fields)
  qed
  ultimately show ?thesis by (simp add: sched_ok_def)
qed

section \<open>Work remaining\<close>

definition remaining :: "scheduler \<Rightarrow> nat" where
  "remaining s = length (filter (\<lambda>c. c \<noteq> ChunkDone) (s_chunks s))"

definition active_count :: "scheduler \<Rightarrow> nat" where
  "active_count s = length (filter p_active (s_providers s))"

lemma is_complete_iff: "is_complete s \<longleftrightarrow> remaining s = 0"
  by (auto simp: is_complete_def remaining_def list_all_iff filter_empty_conv)

lemma has_in_flight_iff: "has_in_flight s \<longleftrightarrow> (\<exists>p i. claims s p i)"
proof -
  have "is_in_flight c \<longleftrightarrow> (\<exists>p. c = InFlight p)" for c by (cases c) auto
  then show ?thesis by (auto simp: has_in_flight_def list_ex_length claims_def)
qed

lemma claim_chunk_counts:
  assumes "eligible s p i"
  shows "remaining (claim_chunk s p i) = remaining s" "active_count (claim_chunk s p i) = active_count s"
  using assms length_filter_update [of i "s_chunks s" "\<lambda>c. c \<noteq> ChunkDone" "InFlight p"]
    length_filter_update [of p "s_providers s" p_active "(s_providers s ! p)\<lparr>p_busy := True\<rparr>"]
  by (auto simp: remaining_def active_count_def claim_chunk_def eligible_def split: if_splits)

lemma finish_chunk_counts:
  assumes "sched_ok s" "claims s p i"
  shows "Suc (remaining (finish_chunk s p i)) = remaining s"
    "active_count (finish_chunk s p i) = active_count s"
  using claims_bounds [OF assms] assms(2)
    length_filter_update [of i "s_chunks s" "\<lambda>c. c \<noteq> ChunkDone" ChunkDone]
    length_filter_update [of p "s_providers s" p_active
      "(s_providers s ! p)\<lparr>p_busy := False, p_accepted := p_accepted (s_providers s ! p) + 1\<rparr>"]
  by (auto simp: remaining_def active_count_def finish_chunk_def claims_def split: if_splits)

lemma reject_counts:
  shows "remaining (reject s p) = remaining s"
    and "sched_ok s \<Longrightarrow> claims s p i \<Longrightarrow> Suc (active_count (reject s p)) = active_count s"
proof -
  show "remaining (reject s p) = remaining s"
    by (auto simp: remaining_def reject_fields filter_map o_def intro!: arg_cong [of _ _ length] filter_cong)
  show "Suc (active_count (reject s p)) = active_count s" if "sched_ok s" "claims s p i"
    using claims_bounds [OF that]
      length_filter_update [of p "s_providers s" p_active
        "(s_providers s ! p)\<lparr>p_busy := False, p_active := False,
           p_rejected := p_rejected (s_providers s ! p) + 1\<rparr>"]
    by (simp add: active_count_def reject_def Let_def)
qed

section \<open>Transitions\<close>

text \<open>One call of an operation that changes the scheduler, with any arguments.\<close>

inductive sched_step :: "scheduler \<Rightarrow> scheduler \<Rightarrow> bool" where
  step_assign: "sched_step s (snd (assign s p))"
| step_accept: "sched_step s (snd (accept s p i))"
| step_reject: "sched_step s (reject s p)"

inductive_cases sched_stepE: "sched_step s s'"

definition accepted_total :: "scheduler \<Rightarrow> nat" where
  "accepted_total s = sum_list (map p_accepted (s_providers s))"

lemma step_ok: "sched_step s s' \<Longrightarrow> sched_ok s \<Longrightarrow> sched_ok s'"
  by (auto elim!: sched_stepE intro: assign_ok accept_ok reject_ok)

lemma assign_result:
  assumes "sched_ok s"
  shows "snd (assign s p) = s \<or> (\<exists>i. eligible s p i \<and> snd (assign s p) = claim_chunk s p i)"
proof -
  have "sched_shape s" using assms by (simp add: sched_ok_def)
  then show ?thesis by (cases rule: assign_cases [of s p]) auto
qed

lemma step_done:
  assumes "sched_step s s'" "sched_ok s" "chunk_done s i"
  shows "chunk_done s' i"
  using assms(1)
proof cases
  case (step_assign p)
  then show ?thesis
    using assign_result [OF assms(2), of p] assms(3)
    by (auto simp: chunk_done_def claim_chunk_def eligible_def nth_list_update)
next
  case (step_accept p w)
  then show ?thesis
    using assms(3) by (auto simp: accept_eq [OF assms(2)] chunk_done_def finish_chunk_def claims_def nth_list_update)
next
  case (step_reject p)
  then show ?thesis using assms(3) by (simp add: chunk_done_def reject_fields)
qed

lemma step_newly_done:
  assumes "sched_step s s'" "sched_ok s" "chunk_done s' i" "\<not> chunk_done s i"
  shows "\<exists>p. claims s p i \<and> s' = snd (accept s p (of_nat i))"
  using assms(1)
proof cases
  case (step_assign p)
  then show ?thesis
    using assign_result [OF assms(2), of p] assms(3,4)
    by (auto simp: chunk_done_def claim_chunk_def eligible_def nth_list_update split: if_splits)
next
  case (step_accept p w)
  then have "claims s p (unat w)" "i = unat w"
    using assms(3,4)
    by (auto simp: accept_eq [OF assms(2)] chunk_done_def finish_chunk_def claims_def
        nth_list_update split: if_splits)
  then show ?thesis using step_accept by (intro exI [of _ p]) simp
next
  case (step_reject p)
  then show ?thesis
    using assms(3,4) by (auto simp: chunk_done_def reject_fields split: if_splits)
qed

lemma claim_chunk_accepted: "eligible s p i \<Longrightarrow> accepted_total (claim_chunk s p i) = accepted_total s"
  using sum_list_map_update [of p "s_providers s" p_accepted "(s_providers s ! p)\<lparr>p_busy := True\<rparr>"]
  by (simp add: accepted_total_def claim_chunk_def eligible_def)

lemma finish_chunk_accepted:
  "p < length (s_providers s) \<Longrightarrow> accepted_total (finish_chunk s p i) = Suc (accepted_total s)"
  using sum_list_map_update [of p "s_providers s" p_accepted
      "(s_providers s ! p)\<lparr>p_busy := False, p_accepted := p_accepted (s_providers s ! p) + 1\<rparr>"]
  by (simp add: accepted_total_def finish_chunk_def)

lemma reject_accepted: "accepted_total (reject s p) = accepted_total s"
proof (cases "p < length (s_providers s)")
  case True
  then show ?thesis
    using sum_list_map_update [OF True, of p_accepted "(s_providers s ! p)\<lparr>p_busy := False,
        p_active := False, p_rejected := p_rejected (s_providers s ! p) + 1\<rparr>"]
    by (simp add: accepted_total_def reject_def Let_def)
qed (simp add: accepted_total_def reject_def)

lemma step_accounting:
  assumes "sched_step s s'" "sched_ok s"
  shows "accepted_total s' + remaining s' = accepted_total s + remaining s"
  using assms(1)
proof cases
  case (step_assign p)
  then show ?thesis
    using assign_result [OF assms(2), of p] by (auto simp: claim_chunk_accepted claim_chunk_counts)
next
  case (step_accept p w)
  show ?thesis
  proof (cases "claims s p (unat w)")
    case True
    then have "Suc (remaining (finish_chunk s p (unat w))) = remaining s"
      and "accepted_total (finish_chunk s p (unat w)) = Suc (accepted_total s)"
      using finish_chunk_counts finish_chunk_accepted claims_bounds assms(2) by blast+
    then show ?thesis using step_accept True by (simp add: accept_eq [OF assms(2)])
  qed (use step_accept in \<open>simp add: accept_eq [OF assms(2)]\<close>)
next
  case (step_reject p)
  then show ?thesis by (simp add: reject_accepted reject_counts)
qed

lemma reachable_ok:
  assumes "sched_step\<^sup>*\<^sup>* s s'" "sched_ok s"
  shows "sched_ok s' \<and> accepted_total s' + remaining s' = accepted_total s + remaining s
    \<and> (\<forall>i. chunk_done s i \<longrightarrow> chunk_done s' i)"
  using assms
proof (induction rule: rtranclp_induct)
  case (step s' s'')
  then show ?case using step_ok step_accounting step_done by metis
qed auto

lemma scheduler_new_counts:
  assumes "scheduler_new n as completed = Inr s"
  shows "accepted_total s = 0" "remaining s = length (filter Not completed)" "s_retries s = 0"
    "length (s_providers s) = length as" "\<And>i. chunk_done s i \<longleftrightarrow> i < length completed \<and> completed ! i"
proof -
  have s: "s_chunks s = map (\<lambda>d. if d then ChunkDone else Missing) completed"
    "s_providers s = map (\<lambda>a. \<lparr>p_availability = a, p_active = True, p_busy = False,
          p_accepted = 0, p_rejected = 0\<rparr>) as" "s_retries s = 0"
    using assms by (auto simp: scheduler_new_def result_iffs split: if_splits)
  show "accepted_total s = 0" by (simp add: accepted_total_def s o_def)
  show "remaining s = length (filter Not completed)"
    by (auto simp: remaining_def s filter_map o_def intro!: arg_cong [of _ _ length] filter_cong)
  show "chunk_done s i \<longleftrightarrow> i < length completed \<and> completed ! i" for i
    by (auto simp: chunk_done_def s split: if_splits)
qed (use assms in \<open>auto simp: scheduler_new_def result_iffs split: if_splits\<close>)

section \<open>The interface of the download loop\<close>

text \<open>
  What a client that sends one request per assignment and reports every answer may rely on:
  claims are exclusive, an answer to an outstanding request is always taken, and each answer
  uses up a missing chunk or a live provider.
\<close>

locale chunk_scheduler =
  fixes inv :: "'s \<Rightarrow> bool"
    and claimed :: "'s \<Rightarrow> nat \<Rightarrow> nat \<Rightarrow> bool"
    and todo :: "'s \<Rightarrow> nat"
    and live :: "'s \<Rightarrow> nat"
    and asg :: "'s \<Rightarrow> nat \<Rightarrow> u32 option \<times> 's"
    and acc :: "'s \<Rightarrow> nat \<Rightarrow> u32 \<Rightarrow> (schedule_error + unit) \<times> 's"
    and rej :: "'s \<Rightarrow> nat \<Rightarrow> 's"
  assumes claimed_provider: "inv s \<Longrightarrow> claimed s p i \<Longrightarrow> claimed s p j \<Longrightarrow> i = j"
    and claimed_chunk: "inv s \<Longrightarrow> claimed s p i \<Longrightarrow> claimed s q i \<Longrightarrow> p = q"
    and asg_inv: "inv s \<Longrightarrow> inv (snd (asg s p))"
    and asg_todo: "inv s \<Longrightarrow> todo (snd (asg s p)) = todo s"
    and asg_live: "inv s \<Longrightarrow> live (snd (asg s p)) = live s"
    and asg_claimed: "inv s \<Longrightarrow> claimed (snd (asg s p)) q j \<longleftrightarrow>
      claimed s q j \<or> q = p \<and> (\<exists>w. fst (asg s p) = Some w \<and> j = unat w)"
    and asg_fresh: "inv s \<Longrightarrow> fst (asg s p) = Some w \<Longrightarrow> \<not> claimed s p i \<and> \<not> claimed s q (unat w)"
    and acc_taken: "inv s \<Longrightarrow> claimed s p (unat w) \<Longrightarrow> fst (acc s p w) = Inr ()"
    and acc_inv: "inv s \<Longrightarrow> inv (snd (acc s p w))"
    and acc_todo: "inv s \<Longrightarrow> claimed s p (unat w) \<Longrightarrow> Suc (todo (snd (acc s p w))) = todo s"
    and acc_live: "inv s \<Longrightarrow> live (snd (acc s p w)) = live s"
    and acc_claimed: "inv s \<Longrightarrow> claimed s p (unat w) \<Longrightarrow>
      claimed (snd (acc s p w)) q j \<longleftrightarrow> claimed s q j \<and> j \<noteq> unat w"
    and rej_inv: "inv s \<Longrightarrow> inv (rej s p)"
    and rej_todo: "inv s \<Longrightarrow> todo (rej s p) = todo s"
    and rej_live: "inv s \<Longrightarrow> claimed s p i \<Longrightarrow> Suc (live (rej s p)) = live s"
    and rej_claimed: "inv s \<Longrightarrow> claimed (rej s p) q j \<longleftrightarrow> claimed s q j \<and> q \<noteq> p"
begin

text \<open>The request table of a client: exactly the outstanding claims, without repetition.\<close>

definition tracks :: "(nat \<times> u32) list \<Rightarrow> 's \<Rightarrow> bool" where
  "tracks pending s \<longleftrightarrow>
    distinct pending \<and> (\<forall>p w. (p, w) \<in> set pending \<longrightarrow> claimed s p (unat w))
    \<and> (\<forall>p i. claimed s p i \<longrightarrow> (\<exists>w. (p, w) \<in> set pending \<and> unat w = i))"

lemma tracks_none: "tracks pending s \<Longrightarrow> pending = [] \<longleftrightarrow> (\<forall>p i. \<not> claimed s p i)"
  by (cases pending) (auto simp: tracks_def)

lemma tracks_assign_some:
  assumes "inv s" "tracks pending s" "fst (asg s p) = Some w"
  shows "tracks (pending @ [(p, w)]) (snd (asg s p))"
proof -
  have "\<not> claimed s p i" for i using asg_fresh [OF assms(1,3)] by blast
  moreover have "claimed (snd (asg s p)) q j \<longleftrightarrow> claimed s q j \<or> q = p \<and> j = unat w" for q j
    using asg_claimed [OF assms(1), of p] assms(3) by simp
  ultimately show ?thesis using assms(2) by (auto simp: tracks_def; blast)
qed

lemma tracks_assign_none:
  "inv s \<Longrightarrow> tracks pending s \<Longrightarrow> fst (asg s p) = None \<Longrightarrow> tracks pending (snd (asg s p))"
  using asg_claimed [of s p] by (auto simp: tracks_def)

lemma tracks_assign_reject:
  assumes "inv s" "tracks pending s" "fst (asg s p) = Some w"
  shows "tracks pending (rej (snd (asg s p)) p)"
proof -
  have "claimed (rej (snd (asg s p)) p) q j \<longleftrightarrow> claimed s q j" for q j
    using rej_claimed [OF asg_inv [OF assms(1)]] asg_claimed [OF assms(1), of p] asg_fresh [OF assms(1,3)]
    by auto
  then show ?thesis using assms(2) by (simp add: tracks_def)
qed

lemma tracks_accept:
  assumes "inv s" "tracks pending s" "(p, w) \<in> set pending"
  shows "tracks (remove1 (p, w) pending) (snd (acc s p w))"
proof -
  have c: "claimed s p (unat w)" using assms by (auto simp: tracks_def)
  have "v \<noteq> w \<longleftrightarrow> unat v \<noteq> unat w" for v :: u32 by simp
  moreover have "q = p" if "claimed s q (unat w)" for q using claimed_chunk [OF assms(1) c that] by simp
  ultimately show ?thesis
    using assms(2) acc_claimed [OF assms(1) c]
    by (auto simp: tracks_def) metis
qed

lemma tracks_reject:
  assumes "inv s" "tracks pending s" "(p, w) \<in> set pending"
  shows "tracks (remove1 (p, w) pending) (rej s p)"
proof -
  have c: "claimed s p (unat w)" using assms by (auto simp: tracks_def)
  have "i = unat w" if "claimed s p i" for i using claimed_provider [OF assms(1) c that] by simp
  then show ?thesis
    using assms(2) rej_claimed [OF assms(1), of p]
    by (auto simp: tracks_def) (metis unat_eq_iff_u32)
qed

lemma answer_progress:
  assumes "inv s" "tracks pending s" "(p, w) \<in> set pending"
  shows "todo (snd (acc s p w)) + live (snd (acc s p w)) < todo s + live s"
    and "todo (rej s p) + live (rej s p) < todo s + live s"
proof -
  have c: "claimed s p (unat w)" using assms by (auto simp: tracks_def)
  show "todo (snd (acc s p w)) + live (snd (acc s p w)) < todo s + live s"
    using acc_todo [OF assms(1) c] acc_live [OF assms(1), of p w] by simp
  show "todo (rej s p) + live (rej s p) < todo s + live s"
    using rej_todo [OF assms(1), of p] rej_live [OF assms(1) c] by simp
qed

end

interpretation swarm:
  chunk_scheduler sched_ok claims remaining active_count assign accept reject
proof
  fix s :: scheduler and p q i j w
  assume ok: "sched_ok s"
  show "claims s p i \<Longrightarrow> claims s p j \<Longrightarrow> i = j"
    using ok by (auto simp: sched_ok_def sched_claims_def)
  show "claims s p i \<Longrightarrow> claims s q i \<Longrightarrow> p = q" by (simp add: claims_def)
  show "sched_ok (snd (assign s p))" by (rule assign_ok [OF ok])
  show "remaining (snd (assign s p)) = remaining s" "active_count (snd (assign s p)) = active_count s"
    using assign_result [OF ok, of p] by (auto simp: claim_chunk_counts)
  have sh: "sched_shape s" using ok by (simp add: sched_ok_def)
  show "claims (snd (assign s p)) q j \<longleftrightarrow>
      claims s q j \<or> q = p \<and> (\<exists>w. fst (assign s p) = Some w \<and> j = unat w)"
  proof (cases rule: assign_cases [OF sh, of p])
    case (2 k)
    then have "unat (of_nat k :: u32) = k"
      using sh by (intro unat_of_nat_u32) (simp add: eligible_def sched_shape_def)
    then show ?thesis using 2 by (simp add: claims_claim_chunk)
  qed simp
  show "fst (assign s p) = Some w \<Longrightarrow> \<not> claims s p i \<and> \<not> claims s q (unat w)"
  proof (cases rule: assign_cases [OF sh, of p])
    case (2 k)
    assume "fst (assign s p) = Some w"
    then have "unat w = k"
      using 2 sh unat_of_nat_u32 [of k] by (auto simp: eligible_def sched_shape_def)
    then show ?thesis
      using 2(2) ok by (auto simp: eligible_def claims_def sched_ok_def sched_claims_def)
  qed simp
  show "claims s p (unat w) \<Longrightarrow> fst (accept s p w) = Inr ()" by (simp add: accept_eq [OF ok])
  show "sched_ok (snd (accept s p w))" by (rule accept_ok [OF ok])
  show "claims s p (unat w) \<Longrightarrow> Suc (remaining (snd (accept s p w))) = remaining s"
    by (simp add: accept_eq [OF ok] finish_chunk_counts [OF ok])
  show "active_count (snd (accept s p w)) = active_count s"
    by (simp add: accept_eq [OF ok] finish_chunk_counts [OF ok])
  show "claims s p (unat w) \<Longrightarrow> claims (snd (accept s p w)) q j \<longleftrightarrow> claims s q j \<and> j \<noteq> unat w"
    by (simp add: accept_eq [OF ok] claims_finish_chunk)
  show "sched_ok (reject s p)" by (rule reject_ok [OF ok])
  show "remaining (reject s p) = remaining s" by (rule reject_counts)
  show "claims s p i \<Longrightarrow> Suc (active_count (reject s p)) = active_count s"
    by (rule reject_counts(2) [OF ok])
  show "claims (reject s p) q j \<longleftrightarrow> claims s q j \<and> q \<noteq> p" by (rule claims_reject)
qed

section \<open>Properties\<close>

text \<open>
  (C21) In every state reachable from \<open>Scheduler::new\<close> by any sequence of operations, a chunk in
  flight belongs to one existing, active, busy provider that advertises it, and no provider has
  two chunks in flight.
\<close>

theorem scheduler_exclusive:
  assumes "scheduler_new n as completed = Inr s0" and "sched_step\<^sup>*\<^sup>* s0 s"
  shows "(\<forall>p i. claims s p i \<longrightarrow>
            p < length (s_providers s) \<and> p_busy (s_providers s ! p) \<and> p_active (s_providers s ! p)
            \<and> provider_has (s_providers s ! p) i)
         \<and> (\<forall>p i j. claims s p i \<and> claims s p j \<longrightarrow> i = j)"
  using reachable_ok [OF assms(2) scheduler_new_ok [OF assms(1)]]
  by (auto simp: sched_ok_def sched_claims_def)

definition demo_scheduler :: scheduler where
  "demo_scheduler =
    \<lparr>s_chunks = [Missing],
     s_providers = [\<lparr>p_availability = from_indices 1 [0], p_active = True, p_busy = False,
       p_accepted = 0, p_rejected = 0\<rparr>],
     s_retries = 0\<rparr>"

lemma demo_scheduler_new: "scheduler_new 1 [from_indices 1 [0]] [False] = Inr demo_scheduler"
proof -
  have "pa_chunk_count (from_indices 1 [0]) = 1" by (simp add: from_indices_def)
  then show ?thesis
    by (simp add: scheduler_new_def u32_try_from_def u32_max_def from_indices_valid demo_scheduler_def)
qed

lemma demo_eligible: "eligible demo_scheduler 0 i \<longleftrightarrow> i = 0"
proof -
  have "availability_contains (from_indices 1 [0]) 0" by (simp add: from_indices_contains_iff)
  then show ?thesis
    by (auto simp: eligible_def demo_scheduler_def provider_has_def u32_try_from_def less_Suc_eq)
qed

lemma demo_assign: "assign demo_scheduler 0 = (Some 0, claim_chunk demo_scheduler 0 0)"
proof -
  have "sched_shape demo_scheduler" using scheduler_new_ok [OF demo_scheduler_new] by (simp add: sched_ok_def)
  then show ?thesis
  proof (cases rule: assign_cases [of demo_scheduler 0])
    case none
    then show ?thesis using demo_eligible by blast
  next
    case (some i)
    then show ?thesis using demo_eligible by (cases "assign demo_scheduler 0") simp
  qed
qed

theorem scheduler_exclusive_witness:
  "claims (snd (assign demo_scheduler 0)) 0 0 \<and> p_busy (s_providers (snd (assign demo_scheduler 0)) ! 0)
   \<and> p_active (s_providers (snd (assign demo_scheduler 0)) ! 0)"
proof -
  have "claims (snd (assign demo_scheduler 0)) 0 0"
    using demo_eligible [of 0] by (simp add: demo_assign claims_claim_chunk)
  then show ?thesis
    using scheduler_exclusive [OF demo_scheduler_new r_into_rtranclp [of sched_step, OF step_assign [of demo_scheduler 0]]]
    by blast
qed

text \<open>
  (C22) \<open>assign\<close> is rarest-first: it answers with an eligible chunk that minimises the number of
  active sources and then the index, marks it in flight and the provider busy; it answers
  \<open>None\<close>, changing nothing, only when no chunk is eligible.
\<close>

theorem assign_rarest_first:
  assumes "sched_ok s"
  shows "case fst (assign s p) of
      None \<Rightarrow> snd (assign s p) = s \<and> (\<forall>i. \<not> eligible s p i)
    | Some w \<Rightarrow> eligible s p (unat w) \<and> snd (assign s p) = claim_chunk s p (unat w)
        \<and> (\<forall>j. eligible s p j \<longrightarrow> (source_count s (unat w), unat w) \<le> (source_count s j, j))"
proof -
  have sh: "sched_shape s" using assms by (simp add: sched_ok_def)
  show ?thesis
  proof (cases rule: assign_cases [OF sh, of p])
    case (2 i)
    then have "unat (of_nat i :: u32) = i"
      using sh by (intro unat_of_nat_u32) (simp add: eligible_def sched_shape_def)
    then show ?thesis using 2 by simp
  qed simp
qed

theorem assign_rarest_first_witness:
  "\<exists>w. fst (assign demo_scheduler 0) = Some w \<and> eligible demo_scheduler 0 (unat w)
    \<and> snd (assign demo_scheduler 0) = claim_chunk demo_scheduler 0 (unat w)"
  using assign_rarest_first [OF scheduler_new_ok [OF demo_scheduler_new], of 0] demo_assign by simp

text \<open>
  Verified chunks are final and attributable: an operation never un-completes a chunk, and a
  chunk becomes complete only by \<open>accept\<close> from the provider it was assigned to.  An answer for a
  chunk that is not outstanding at that provider is refused with \<open>UnexpectedChunk\<close> and changes
  nothing.
\<close>

theorem completion_only_by_claimant:
  assumes "sched_ok s" and "sched_step s s'"
  shows "(chunk_done s i \<longrightarrow> chunk_done s' i)
    \<and> (chunk_done s' i \<and> \<not> chunk_done s i \<longrightarrow>
         (\<exists>p. claims s p i \<and> s' = snd (accept s p (of_nat i))))
    \<and> (\<not> claims s p (unat w) \<longrightarrow> accept s p w = (Inl UnexpectedChunk, s))"
  using step_done [OF assms(2,1)] step_newly_done [OF assms(2,1)] accept_eq [OF assms(1)] by simp

theorem completion_only_by_claimant_witness:
  "accept demo_scheduler 0 0 = (Inl UnexpectedChunk, demo_scheduler)"
proof -
  have "\<not> claims demo_scheduler 0 (unat (0 :: u32))" by (simp add: claims_def demo_scheduler_def)
  then show ?thesis
    using completion_only_by_claimant [OF scheduler_new_ok [OF demo_scheduler_new]
        step_reject [of demo_scheduler 0], of 0 0 0]
    by blast
qed

text \<open>
  Accounting: in every reachable state the accepted chunks of all providers and the chunks
  still to fetch add up to the chunks that were missing at the start, and the number of
  reassigned requests never exceeds the number of penalised providers.
\<close>

theorem scheduler_accounting:
  assumes "scheduler_new n as completed = Inr s0" and "sched_step\<^sup>*\<^sup>* s0 s"
  shows "accepted_total s + remaining s = length (filter Not completed)
         \<and> retries s \<le> inactive_count s"
  using reachable_ok [OF assms(2) scheduler_new_ok [OF assms(1)]] scheduler_new_counts [OF assms(1)]
  by (simp add: sched_ok_def retries_def)

theorem scheduler_accounting_witness:
  "accepted_total (reject demo_scheduler 0) + remaining (reject demo_scheduler 0) = 1
   \<and> retries (reject demo_scheduler 0) \<le> inactive_count (reject demo_scheduler 0)"
  using scheduler_accounting [OF demo_scheduler_new r_into_rtranclp [of sched_step, OF step_reject [of demo_scheduler 0]]]
  by simp

text \<open>
  (C23) No deadlock: when chunks remain, none is in flight and \<open>can_finish\<close> holds, some provider
  is given a chunk by \<open>assign\<close>.
\<close>

theorem scheduler_progress:
  assumes "sched_ok s" "can_finish s" "\<not> is_complete s" "\<not> has_in_flight s"
  shows "\<exists>p w. fst (assign s p) = Some w"
proof -
  have "0 < remaining s" using assms(3) by (simp add: is_complete_iff)
  then obtain i where i: "i < length (s_chunks s)" "s_chunks s ! i \<noteq> ChunkDone"
    by (auto simp: remaining_def filter_empty_conv in_set_conv_nth)
  moreover have "\<not> claims s p i" for p using assms(4) by (auto simp: has_in_flight_iff)
  ultimately have m: "s_chunks s ! i = Missing" by (cases "s_chunks s ! i") (auto simp: claims_def)
  have "0 < source_count s i"
    using assms(2) i m by (auto simp: can_finish_def list_all_length)
  then obtain p where p: "p < length (s_providers s)" "p_active (s_providers s ! p)"
    "provider_has (s_providers s ! p) i"
    by (auto simp: source_count_def filter_empty_conv in_set_conv_nth)
  have "\<not> p_busy (s_providers s ! p)"
    using assms(1,4) p by (auto simp: sched_ok_def sched_claims_def has_in_flight_iff)
  then have e: "eligible s p i" using p i m by (simp add: eligible_def)
  have "sched_shape s" using assms(1) by (simp add: sched_ok_def)
  then have "fst (assign s p) \<noteq> None" by (cases rule: assign_cases [of s p]) (use e in auto)
  then show ?thesis by blast
qed

theorem scheduler_progress_witness: "\<exists>p w. fst (assign demo_scheduler p) = Some w"
proof (rule scheduler_progress [OF scheduler_new_ok [OF demo_scheduler_new]])
  have "availability_contains (from_indices 1 [0]) 0" by (simp add: from_indices_contains_iff)
  then show "can_finish demo_scheduler"
    by (simp add: can_finish_def demo_scheduler_def source_count_def provider_has_def
        enumerate_list_def u32_try_from_def)
qed (simp_all add: is_complete_def has_in_flight_def demo_scheduler_def)

end
