(* ===== verification/Socket_Addr.thy ===== *)
theory Socket_Addr
  imports Rust_Std
begin

text \<open>
  The parser of \<open>std::net::SocketAddr\<close> (\<open>core::net::parser\<close>), which validates relay addresses and
  the listening address of the node: dotted IPv4 addresses, bracketed IPv6 addresses with
  \<open>::\<close> compression, embedded IPv4 and an optional scope, and a decimal port.  A parser returns the
  value and the remaining bytes, or \<open>None\<close> with nothing consumed, as \<open>read_atomically\<close> does.
\<close>

type_synonym 'a sparse = "u8 list \<Rightarrow> ('a \<times> u8 list) option"

datatype socket_addr =
    SocketV4 "u8 list" u16
  | SocketV6 "u16 list" u32 u16

definition read_given_char :: "char \<Rightarrow> unit sparse" where
  "read_given_char c s = (case s of b # t \<Rightarrow> if b = of_char c then Some ((), t) else None | [] \<Rightarrow> None)"

text \<open>\<open>char::to_digit\<close> for radix 10 and 16.\<close>

definition to_digit :: "nat \<Rightarrow> u8 \<Rightarrow> nat option" where
  "to_digit radix b =
    (let v = (if 48 \<le> b \<and> b \<le> 57 then Some (unat b - 48)
              else if 97 \<le> b \<and> b \<le> 122 then Some (unat b - 87)
              else if 65 \<le> b \<and> b \<le> 90 then Some (unat b - 55)
              else None)
     in case v of Some d \<Rightarrow> if d < radix then Some d else None | None \<Rightarrow> None)"

text \<open>The longest run of digits and their value.\<close>

fun read_digits :: "nat \<Rightarrow> u8 list \<Rightarrow> nat \<Rightarrow> nat \<Rightarrow> nat \<times> nat \<times> u8 list" where
  "read_digits radix [] v n = (v, n, [])"
| "read_digits radix (b # s) v n =
    (case to_digit radix b of
       Some d \<Rightarrow> read_digits radix s (v * radix + d) (n + 1)
     | None \<Rightarrow> (v, n, b # s))"

text \<open>
  \<open>read_number(radix, max_digits, allow_zero_prefix)\<close> for a type with largest value \<open>bound\<close>.
  The accumulated value grows with every digit, so an overflow in the middle of the run is an
  overflow at its end.
\<close>

definition read_number :: "nat \<Rightarrow> nat option \<Rightarrow> bool \<Rightarrow> nat \<Rightarrow> nat sparse" where
  "read_number radix max_digits allow_zero_prefix bound s =
    (case read_digits radix s 0 0 of (v, n, t) \<Rightarrow>
       if (case max_digits of Some m \<Rightarrow> m < n | None \<Rightarrow> False) then None
       else if n = 0 then None
       else if \<not> allow_zero_prefix \<and> hd s = 48 \<and> 1 < n then None
       else if bound < v then None
       else Some (v, t))"

text \<open>\<open>read_ipv4_addr\<close>: four decimal octets separated by dots.\<close>

fun read_octets :: "nat \<Rightarrow> bool \<Rightarrow> u8 list sparse" where
  "read_octets 0 first s = Some ([], s)"
| "read_octets (Suc n) first s =
    Option.bind (if first then Some ((), s) else read_given_char (CHR ''.'') s) (\<lambda>(_, s).
    Option.bind (read_number 10 (Some 3) False 255 s) (\<lambda>(v, s).
    Option.bind (read_octets n False s) (\<lambda>(vs, s). Some (of_nat v # vs, s))))"

definition read_ipv4_addr :: "u8 list sparse" where
  "read_ipv4_addr s = read_octets 4 True s"

text \<open>
  \<open>read_groups\<close> of \<open>read_ipv6_addr\<close>: up to \<open>limit\<close> groups; the flag says that an embedded IPv4
  address ended them.
\<close>

definition ipv4_groups :: "u8 list \<Rightarrow> u16 list" where
  "ipv4_groups q =
    [of_nat (unat (q ! 0) * 256 + unat (q ! 1)), of_nat (unat (q ! 2) * 256 + unat (q ! 3))]"

fun read_groups :: "nat \<Rightarrow> nat \<Rightarrow> u8 list \<Rightarrow> u16 list \<times> bool \<times> u8 list" where
  "read_groups 0 i s = ([], False, s)"
| "read_groups (Suc left) i s =
    (let sep = (if i = 0 then Some ((), s) else read_given_char (CHR '':'') s);
         v4 = (if 0 < left then Option.bind sep (\<lambda>(_, s). read_ipv4_addr s) else None)
     in case v4 of
          Some (q, s') \<Rightarrow> (ipv4_groups q, True, s')
        | None \<Rightarrow>
            (case Option.bind sep (\<lambda>(_, s). read_number 16 (Some 4) True 65535 s) of
               Some (g, s') \<Rightarrow>
                 (case read_groups left (i + 1) s' of
                    (gs, v4, t) \<Rightarrow> (of_nat g # gs, v4, t))
             | None \<Rightarrow> ([], False, s)))"

definition read_ipv6_addr :: "u16 list sparse" where
  "read_ipv6_addr s =
    (case read_groups 8 0 s of (head, head_v4, s1) \<Rightarrow>
       if length head = 8 then Some (head, s1)
       else if head_v4 then None
       else
         Option.bind (read_given_char (CHR '':'') s1) (\<lambda>(_, s2).
         Option.bind (read_given_char (CHR '':'') s2) (\<lambda>(_, s3).
         case read_groups (8 - (length head + 1)) 0 s3 of (tail, _, s4) \<Rightarrow>
           Some (head @ replicate (8 - length head - length tail) 0 @ tail, s4))))"

definition read_port :: "u16 sparse" where
  "read_port s =
    Option.bind (read_given_char (CHR '':'') s) (\<lambda>(_, s).
    Option.bind (read_number 10 None True 65535 s) (\<lambda>(v, s). Some (of_nat v, s)))"

definition read_scope_id :: "u32 sparse" where
  "read_scope_id s =
    Option.bind (read_given_char (CHR ''%'') s) (\<lambda>(_, s).
    Option.bind (read_number 10 None True u32_max s) (\<lambda>(v, s). Some (of_nat v, s)))"

definition read_socket_addr_v4 :: "socket_addr sparse" where
  "read_socket_addr_v4 s =
    Option.bind (read_ipv4_addr s) (\<lambda>(ip, s).
    Option.bind (read_port s) (\<lambda>(port, s). Some (SocketV4 ip port, s)))"

definition read_socket_addr_v6 :: "socket_addr sparse" where
  "read_socket_addr_v6 s =
    Option.bind (read_given_char (CHR ''['') s) (\<lambda>(_, s).
    Option.bind (read_ipv6_addr s) (\<lambda>(ip, s).
    let (scope, s) = (case read_scope_id s of Some (v, s') \<Rightarrow> (v, s') | None \<Rightarrow> (0, s))
    in Option.bind (read_given_char (CHR '']'') s) (\<lambda>(_, s).
       Option.bind (read_port s) (\<lambda>(port, s). Some (SocketV6 ip scope port, s)))))"

text \<open>\<open>SocketAddr::from_str\<close>: IPv4 first, then IPv6, and the whole input is consumed.\<close>

definition parse_socket_addr :: "str \<Rightarrow> socket_addr option" where
  "parse_socket_addr s =
    (case read_socket_addr_v4 s of
       Some (a, t) \<Rightarrow> if t = [] then Some a else None
     | None \<Rightarrow>
         (case read_socket_addr_v6 s of
            Some (a, t) \<Rightarrow> if t = [] then Some a else None
          | None \<Rightarrow> None))"

definition socket_addr_ok :: "str \<Rightarrow> bool" where
  "socket_addr_ok s \<longleftrightarrow> parse_socket_addr s \<noteq> None"

lemma read_octets_numeral [simp]:
  "read_octets (numeral k) first s =
    Option.bind (if first then Some ((), s) else read_given_char (CHR ''.'') s) (\<lambda>(_, s).
    Option.bind (read_number 10 (Some 3) False 255 s) (\<lambda>(v, s).
    Option.bind (read_octets (pred_numeral k) False s) (\<lambda>(vs, s). Some (of_nat v # vs, s))))"
  by (simp add: numeral_eq_Suc)

lemmas read_groups_numeral = read_groups.simps(2) [of "pred_numeral k" for k, folded numeral_eq_Suc]

lemmas socket_eval = parse_socket_addr_def read_socket_addr_v4_def read_socket_addr_v6_def
  read_ipv4_addr_def read_ipv6_addr_def read_port_def read_scope_id_def read_number_def
  to_digit_def read_given_char_def ascii_def

lemma parse_socket_addr_v4_example:
  "parse_socket_addr (ascii ''127.0.0.1:4000'') = Some (SocketV4 [127, 0, 0, 1] 4000)"
  by (simp add: socket_eval)

lemma parse_socket_addr_v6_example:
  "parse_socket_addr (ascii ''[::1]:80'') = Some (SocketV6 (replicate 7 0 @ [1]) 0 80)"
  by (simp add: socket_eval read_groups_numeral)

lemma parse_socket_addr_rejects:
  "parse_socket_addr (ascii ''127.0.0.01:1'') = None"
  "parse_socket_addr (ascii ''127.0.0.1:65536'') = None"
  "parse_socket_addr (ascii ''host:80'') = None"
  by (simp_all add: socket_eval)

end
