(* ===== verification/Overlay_Wire.thy ===== *)
theory Overlay_Wire
  imports Messages Socket_Addr
begin

text \<open>
  Discovery records of \<open>triptorrent-protocol/src/lib.rs\<close>: \<open>OverlayRequest\<close> and \<open>OverlayResponse\<close>,
  their validation and their codecs.  As for application records, the decoders accept exactly
  the outputs of the encoders.  The peer identifier check uses the hash parameter \<open>H\<close>.
\<close>

section \<open>Types\<close>

datatype peer_capability = RelayedTransferV1 | SwarmTransferV1

record peer_advertisement =
  ad_peer_id :: peer_id
  ad_public_key :: bytes32
  ad_capabilities :: "peer_capability list"
  ad_content_ids :: "content_id list"

record relay_advertisement =
  ra_relay_id :: str
  ra_address :: str

record route_assignment =
  rt_provider_id :: peer_id
  rt_provider_public_key :: bytes32
  rt_relay_id :: str
  rt_relay_address :: str
  rt_route :: str

datatype overlay_request =
    RegisterPeer peer_advertisement
  | HeartbeatPeer peer_id
  | PollPeer peer_id
  | RegisterRelay relay_advertisement
  | HeartbeatRelay str
  | Discover content_id
  | DiscoverProviders content_id u16
  | ReportRelayFailure str
  | Health

datatype overlay_response =
    Registered u64
  | Assignment "route_assignment option"
  | Route "route_assignment option"
  | Routes "route_assignment list"
  | Acknowledged
  | OverlayErrorMsg str

section \<open>Validation\<close>

definition is_ascii_alphanumeric :: "u8 \<Rightarrow> bool" where
  "is_ascii_alphanumeric b \<longleftrightarrow>
    (48 \<le> b \<and> b \<le> 57) \<or> (65 \<le> b \<and> b \<le> 90) \<or> (97 \<le> b \<and> b \<le> 122)"

definition valid_identifier :: "str \<Rightarrow> nat \<Rightarrow> bool" where
  "valid_identifier v maximum \<longleftrightarrow>
    v \<noteq> [] \<and> length v \<le> maximum
    \<and> list_all (\<lambda>b. is_ascii_alphanumeric b \<or> b = 45 \<or> b = 95) v"

definition validate_assignment :: "route_assignment \<Rightarrow> protocol_error + unit" where
  "validate_assignment a =
    (if \<not> valid_identifier (rt_relay_id a) 64
        \<or> 128 < length (rt_relay_address a)
        \<or> \<not> socket_addr_ok (rt_relay_address a)
        \<or> \<not> valid_identifier (rt_route a) 128
     then Inl (InvalidMessage ''invalid route assignment fields'')
     else Inr ())"

fun validate_overlay_request :: "hash \<Rightarrow> overlay_request \<Rightarrow> protocol_error + unit" where
  "validate_overlay_request H (RegisterPeer p) =
    (if ad_peer_id p \<noteq> peer_id_from_public_key H (ad_public_key p)
     then Inl (InvalidMessage ''peer identity does not match key'')
     else if ad_content_ids p = []
        \<or> MAX_ADVERTISED_CONTENT_IDS < length (ad_content_ids p)
        \<or> ad_capabilities p = []
        \<or> MAX_CAPABILITIES < length (ad_capabilities p)
     then Inl (InvalidMessage ''peer advertisement exceeds bounds'')
     else Inr ())"
| "validate_overlay_request H (RegisterRelay r) =
    (if \<not> valid_identifier (ra_relay_id r) 64
        \<or> 128 < length (ra_address r)
        \<or> \<not> socket_addr_ok (ra_address r)
     then Inl (InvalidMessage ''invalid relay advertisement'')
     else Inr ())"
| "validate_overlay_request H (HeartbeatRelay i) =
    (if valid_identifier i 64 then Inr () else Inl (InvalidMessage ''invalid relay identifier''))"
| "validate_overlay_request H (ReportRelayFailure i) =
    (if valid_identifier i 64 then Inr () else Inl (InvalidMessage ''invalid relay identifier''))"
| "validate_overlay_request H (DiscoverProviders c limit) =
    (if limit = 0 \<or> MAX_DISCOVERY_ROUTES < unat limit
     then Inl (InvalidMessage ''invalid provider discovery limit'')
     else Inr ())"
| "validate_overlay_request H _ = Inr ()"

fun validate_overlay_response :: "overlay_response \<Rightarrow> protocol_error + unit" where
  "validate_overlay_response (Assignment (Some a)) = validate_assignment a"
| "validate_overlay_response (Route (Some a)) = validate_assignment a"
| "validate_overlay_response (Routes as) =
    (if MAX_DISCOVERY_ROUTES < length as
     then Inl (InvalidMessage ''too many route assignments'')
     else try_for_each validate_assignment as)"
| "validate_overlay_response (OverlayErrorMsg t) =
    (if MAX_ERROR_TEXT_BYTES < length t
     then Inl (InvalidMessage ''error text exceeds bound'') else Inr ())"
| "validate_overlay_response _ = Inr ()"

section \<open>Fields\<close>

fun write_capability :: "peer_capability \<Rightarrow> writer \<Rightarrow> protocol_error + writer" where
  "write_capability RelayedTransferV1 w = Inr (write_u16 1 w)"
| "write_capability SwarmTransferV1 w = Inr (write_u16 2 w)"

definition read_capability :: "peer_capability read" where
  "read_capability r =
    and_then (read_u16 r) (\<lambda>(code, r).
    if code = 1 then Inr (RelayedTransferV1, r)
    else if code = 2 then Inr (SwarmTransferV1, r)
    else Inl (UnsupportedCapability code))"

definition write_assignment :: "route_assignment \<Rightarrow> writer \<Rightarrow> protocol_error + writer" where
  "write_assignment a w =
    and_then (write_string (rt_relay_id a)
      (write_raw (bytes_of (rt_provider_public_key a)) (write_peer_id (rt_provider_id a) w))) (\<lambda>w.
    and_then (write_string (rt_relay_address a) w) (\<lambda>w.
    write_string (rt_route a) w))"

definition read_assignment :: "route_assignment read" where
  "read_assignment r =
    and_then (read_peer_id r) (\<lambda>(provider, r).
    and_then (read_bytes32 r) (\<lambda>(key, r).
    and_then (read_string 64 r) (\<lambda>(relay, r).
    and_then (read_string 128 r) (\<lambda>(address, r).
    and_then (read_string 128 r) (\<lambda>(route, r).
    Inr (\<lparr>rt_provider_id = provider, rt_provider_public_key = key, rt_relay_id = relay,
          rt_relay_address = address, rt_route = route\<rparr>, r))))))"

fun write_optional_assignment :: "route_assignment option \<Rightarrow> writer \<Rightarrow> protocol_error + writer" where
  "write_optional_assignment (Some a) w = write_assignment a (write_u8 1 w)"
| "write_optional_assignment None w = Inr (write_u8 0 w)"

definition read_optional_assignment :: "route_assignment option read" where
  "read_optional_assignment r =
    and_then (read_u8 r) (\<lambda>(tag, r).
    if tag = 0 then Inr (None, r)
    else if tag = 1 then and_then (read_assignment r) (\<lambda>(a, r). Inr (Some a, r))
    else Inl (Malformed ''invalid optional tag''))"

definition u8_try_from :: "nat \<Rightarrow> u8 option" where
  "u8_try_from n = (if n < 256 then Some (of_nat n) else None)"

text \<open>The bodies of the \<open>RegisterPeer\<close> arms.\<close>

definition write_advertisement :: "peer_advertisement \<Rightarrow> writer \<Rightarrow> protocol_error + writer" where
  "write_advertisement p w =
    and_then (ok_or (u8_try_from (length (ad_capabilities p)))
      (InvalidMessage ''too many capabilities'')) (\<lambda>n.
    and_then (write_each write_capability (ad_capabilities p)
      (write_u8 n (write_raw (bytes_of (ad_public_key p)) (write_peer_id (ad_peer_id p) w)))) (\<lambda>w.
    and_then (ok_or (u16_try_from (length (ad_content_ids p)))
      (InvalidMessage ''too many content identifiers'')) (\<lambda>n.
    write_each (\<lambda>i w. Inr (write_content_id i w)) (ad_content_ids p) (write_u16 n w))))"

definition read_advertisement :: "peer_advertisement read" where
  "read_advertisement r =
    and_then (read_peer_id r) (\<lambda>(peer, r).
    and_then (read_bytes32 r) (\<lambda>(key, r).
    and_then (read_u8 r) (\<lambda>(count, r).
    if MAX_CAPABILITIES < unat count then Inl (InvalidMessage ''too many capabilities'')
    else and_then (read_n read_capability (unat count) r) (\<lambda>(caps, r).
    and_then (read_u16 r) (\<lambda>(count, r).
    if MAX_ADVERTISED_CONTENT_IDS < unat count
    then Inl (InvalidMessage ''too many content identifiers'')
    else and_then (read_n read_content_id (unat count) r) (\<lambda>(ids, r).
    Inr (\<lparr>ad_peer_id = peer, ad_public_key = key, ad_capabilities = caps,
          ad_content_ids = ids\<rparr>, r)))))))"

section \<open>Requests\<close>

fun write_overlay_request :: "overlay_request \<Rightarrow> writer \<Rightarrow> protocol_error + writer" where
  "write_overlay_request (RegisterPeer p) w = write_advertisement p (write_u8 1 w)"
| "write_overlay_request (HeartbeatPeer i) w = Inr (write_peer_id i (write_u8 2 w))"
| "write_overlay_request (PollPeer i) w = Inr (write_peer_id i (write_u8 3 w))"
| "write_overlay_request (RegisterRelay a) w =
    and_then (write_string (ra_relay_id a) (write_u8 4 w)) (write_string (ra_address a))"
| "write_overlay_request (HeartbeatRelay i) w = write_string i (write_u8 5 w)"
| "write_overlay_request (Discover c) w = Inr (write_content_id c (write_u8 6 w))"
| "write_overlay_request (DiscoverProviders c limit) w =
    Inr (write_u16 limit (write_content_id c (write_u8 7 w)))"
| "write_overlay_request (ReportRelayFailure i) w = write_string i (write_u8 8 w)"
| "write_overlay_request Health w = Inr (write_u8 9 w)"

definition encode_overlay_request :: "hash \<Rightarrow> overlay_request \<Rightarrow> protocol_error + u8 list" where
  "encode_overlay_request H q =
    and_then (validate_overlay_request H q) (\<lambda>_.
    and_then (write_overlay_request q (writer_new DOMAIN_OVERLAY_REQUEST))
      (writer_finish MAX_OVERLAY_MESSAGE_BYTES))"

definition read_overlay_request_kind :: "u8 \<Rightarrow> overlay_request read" where
  "read_overlay_request_kind kind r =
    (if kind = 1 then and_then (read_advertisement r) (\<lambda>(p, r). Inr (RegisterPeer p, r))
     else if kind = 2 then and_then (read_peer_id r) (\<lambda>(i, r). Inr (HeartbeatPeer i, r))
     else if kind = 3 then and_then (read_peer_id r) (\<lambda>(i, r). Inr (PollPeer i, r))
     else if kind = 4 then
       and_then (read_string 64 r) (\<lambda>(i, r).
       and_then (read_string 128 r) (\<lambda>(a, r).
       Inr (RegisterRelay \<lparr>ra_relay_id = i, ra_address = a\<rparr>, r)))
     else if kind = 5 then and_then (read_string 64 r) (\<lambda>(i, r). Inr (HeartbeatRelay i, r))
     else if kind = 6 then and_then (read_content_id r) (\<lambda>(c, r). Inr (Discover c, r))
     else if kind = 7 then
       and_then (read_content_id r) (\<lambda>(c, r).
       and_then (read_u16 r) (\<lambda>(limit, r). Inr (DiscoverProviders c limit, r)))
     else if kind = 8 then and_then (read_string 64 r) (\<lambda>(i, r). Inr (ReportRelayFailure i, r))
     else if kind = 9 then Inr (Health, r)
     else Inl (UnknownMessage kind))"

definition read_overlay_request :: "overlay_request read" where
  "read_overlay_request r = and_then (read_u8 r) (\<lambda>(kind, r). read_overlay_request_kind kind r)"

definition decode_overlay_request :: "hash \<Rightarrow> u8 list \<Rightarrow> protocol_error + overlay_request" where
  "decode_overlay_request H bytes =
    and_then (ensure_size bytes MAX_OVERLAY_MESSAGE_BYTES) (\<lambda>_.
    and_then (reader_new bytes DOMAIN_OVERLAY_REQUEST) (\<lambda>r.
    and_then (read_overlay_request r) (\<lambda>(q, r).
    and_then (reader_end r) (\<lambda>_.
    and_then (validate_overlay_request H q) (\<lambda>_. Inr q)))))"

section \<open>Responses\<close>

fun write_overlay_response :: "overlay_response \<Rightarrow> writer \<Rightarrow> protocol_error + writer" where
  "write_overlay_response (Registered lease) w = Inr (write_u64 lease (write_u8 1 w))"
| "write_overlay_response (Assignment a) w = write_optional_assignment a (write_u8 2 w)"
| "write_overlay_response (Route a) w = write_optional_assignment a (write_u8 3 w)"
| "write_overlay_response (Routes as) w =
    (let w = write_u8 4 w in
     and_then (ok_or (u16_try_from (length as)) (InvalidMessage ''too many routes'')) (\<lambda>n.
     write_each write_assignment as (write_u16 n w)))"
| "write_overlay_response Acknowledged w = Inr (write_u8 5 w)"
| "write_overlay_response (OverlayErrorMsg t) w = write_string t (write_u8 255 w)"

definition encode_overlay_response :: "overlay_response \<Rightarrow> protocol_error + u8 list" where
  "encode_overlay_response p =
    and_then (validate_overlay_response p) (\<lambda>_.
    and_then (write_overlay_response p (writer_new DOMAIN_OVERLAY_RESPONSE))
      (writer_finish MAX_OVERLAY_MESSAGE_BYTES))"

definition read_overlay_response_kind :: "u8 \<Rightarrow> overlay_response read" where
  "read_overlay_response_kind kind r =
    (if kind = 1 then and_then (read_u64 r) (\<lambda>(l, r). Inr (Registered l, r))
     else if kind = 2 then and_then (read_optional_assignment r) (\<lambda>(a, r). Inr (Assignment a, r))
     else if kind = 3 then and_then (read_optional_assignment r) (\<lambda>(a, r). Inr (Route a, r))
     else if kind = 4 then
       and_then (read_u16 r) (\<lambda>(count, r).
       if MAX_DISCOVERY_ROUTES < unat count
       then Inl (InvalidMessage ''too many route assignments'')
       else and_then (read_n read_assignment (unat count) r) (\<lambda>(as, r). Inr (Routes as, r)))
     else if kind = 5 then Inr (Acknowledged, r)
     else if kind = 255 then
       and_then (read_string MAX_ERROR_TEXT_BYTES r) (\<lambda>(t, r). Inr (OverlayErrorMsg t, r))
     else Inl (UnknownMessage kind))"

definition read_overlay_response :: "overlay_response read" where
  "read_overlay_response r = and_then (read_u8 r) (\<lambda>(kind, r). read_overlay_response_kind kind r)"

definition decode_overlay_response :: "u8 list \<Rightarrow> protocol_error + overlay_response" where
  "decode_overlay_response bytes =
    and_then (ensure_size bytes MAX_OVERLAY_MESSAGE_BYTES) (\<lambda>_.
    and_then (reader_new bytes DOMAIN_OVERLAY_RESPONSE) (\<lambda>r.
    and_then (read_overlay_response r) (\<lambda>(p, r).
    and_then (reader_end r) (\<lambda>_.
    and_then (validate_overlay_response p) (\<lambda>_. Inr p)))))"

section \<open>Codecs of the fields\<close>

fun capability_code :: "peer_capability \<Rightarrow> u16" where
  "capability_code RelayedTransferV1 = 1"
| "capability_code SwarmTransferV1 = 2"

interpretation capability_codec:
  wire_codec write_capability read_capability "\<lambda>c. u16_to_be_bytes (capability_code c)" "\<lambda>_. True"
proof
  show "write_capability c w = Inr (write_raw (u16_to_be_bytes (capability_code c)) w)" for c w
    by (cases c) (simp_all add: write_raws)
  have one: "capability_code c = 1 \<longleftrightarrow> c = RelayedTransferV1"
    and two: "capability_code c = 2 \<longleftrightarrow> c = SwarmTransferV1" for c
    by (cases c; simp)+
  have "decodes (\<lambda>r. if a = 1 then Inr (RelayedTransferV1, r)
      else if a = 2 then Inr (SwarmTransferV1, r) else Inl (UnsupportedCapability a))
      (\<lambda>_. []) (\<lambda>c. capability_code c = a \<and> True)" for a
  proof (cases "a = 1 \<or> a = 2")
    case True
    then show ?thesis
      by (auto simp: one two intro: decodes_cong [OF decodes_return])
  next
    case False
    then have "capability_code c \<noteq> a" for c by (cases c) auto
    then show ?thesis using False by (simp add: decodes_fail)
  qed
  then show "decodes read_capability (\<lambda>c. u16_to_be_bytes (capability_code c)) (\<lambda>_. True)"
    unfolding read_capability_def [abs_def]
    by (rule decodes_cong [OF decodes_bind [OF u16_codec.reads]]) auto
qed

definition str_fits :: "nat \<Rightarrow> str \<Rightarrow> bool" where
  "str_fits n v \<longleftrightarrow> length v \<le> n \<and> utf8 v"

lemma decodes_str_fits: "n < 2 ^ 16 \<Longrightarrow> decodes (read_string n) enc_string (str_fits n)"
  by (rule decodes_cong [OF decodes_string]) (auto simp: str_fits_def)

lemma write_str_fits:
  "n < 2 ^ 16 \<Longrightarrow> str_fits n v \<Longrightarrow> write_string v w = Inr (write_raw (enc_string v) w)"
  by (simp add: string_codec.writes [of v n] str_fits_def)

definition enc_assignment :: "route_assignment \<Rightarrow> u8 list" where
  "enc_assignment a =
    bytes_of (peer_id_as_bytes (rt_provider_id a)) @ bytes_of (rt_provider_public_key a)
    @ enc_string (rt_relay_id a) @ enc_string (rt_relay_address a) @ enc_string (rt_route a)"

definition assignment_fits :: "route_assignment \<Rightarrow> bool" where
  "assignment_fits a \<longleftrightarrow>
    str_fits 64 (rt_relay_id a) \<and> str_fits 128 (rt_relay_address a) \<and> str_fits 128 (rt_route a)"

lemma assignment_eq_conv:
  "x = \<lparr>rt_provider_id = a, rt_provider_public_key = b, rt_relay_id = c, rt_relay_address = d,
        rt_route = e\<rparr> \<longleftrightarrow>
   rt_provider_id x = a \<and> rt_provider_public_key x = b \<and> rt_relay_id x = c
   \<and> rt_relay_address x = d \<and> rt_route x = e"
  by (cases x) auto

lemma decodes_assignment: "decodes read_assignment enc_assignment assignment_fits"
proof -
  let ?rt = "\<lambda>p k i a r. and_then (read_string 128 r) (\<lambda>(route, r).
    Inr (\<lparr>rt_provider_id = p, rt_provider_public_key = k, rt_relay_id = i,
          rt_relay_address = a, rt_route = route\<rparr>, r))"
  let ?ad = "\<lambda>p k i r. and_then (read_string 128 r) (\<lambda>(a, r). ?rt p k i a r)"
  let ?id = "\<lambda>p k r. and_then (read_string 64 r) (\<lambda>(i, r). ?ad p k i r)"
  have 1: "decodes (?rt p k i a) (\<lambda>x. enc_string (rt_route x))
      (\<lambda>x. rt_relay_address x = a \<and> rt_relay_id x = i \<and> rt_provider_public_key x = k
        \<and> rt_provider_id x = p \<and> str_fits 128 (rt_route x))" for p k i a
    by (rule decodes_cong [OF decodes_build [OF decodes_str_fits, where g = rt_route]])
      (auto simp: assignment_eq_conv)
  have 2: "decodes (?ad p k i) (\<lambda>x. enc_string (rt_relay_address x) @ enc_string (rt_route x))
      (\<lambda>x. rt_relay_id x = i \<and> rt_provider_public_key x = k \<and> rt_provider_id x = p
        \<and> str_fits 128 (rt_relay_address x) \<and> str_fits 128 (rt_route x))" for p k i
    by (rule decodes_cong [OF decodes_bind [OF decodes_str_fits 1]]) auto
  have 3: "decodes (?id p k)
      (\<lambda>x. enc_string (rt_relay_id x) @ enc_string (rt_relay_address x) @ enc_string (rt_route x))
      (\<lambda>x. rt_provider_public_key x = k \<and> rt_provider_id x = p \<and> assignment_fits x)" for p k
    by (rule decodes_cong [OF decodes_bind [OF decodes_str_fits 2]]) (auto simp: assignment_fits_def)
  have 4: "decodes (\<lambda>r. and_then (read_bytes32 r) (\<lambda>(k, r). ?id p k r))
      (\<lambda>x. bytes_of (rt_provider_public_key x) @ enc_string (rt_relay_id x)
        @ enc_string (rt_relay_address x) @ enc_string (rt_route x))
      (\<lambda>x. rt_provider_id x = p \<and> assignment_fits x)" for p
    by (rule decodes_cong [OF decodes_bind [OF key_codec.reads 3]]) auto
  show ?thesis
    unfolding read_assignment_def [abs_def]
    by (rule decodes_cong [OF decodes_bind [OF peer_id_codec.reads 4]]) (auto simp: enc_assignment_def)
qed

interpretation assignment_codec:
  wire_codec write_assignment read_assignment enc_assignment assignment_fits
proof
  show "write_assignment a w = Inr (write_raw (enc_assignment a) w)" if "assignment_fits a" for a w
    using that
    by (simp add: write_assignment_def assignment_fits_def write_str_fits [of 64]
        write_str_fits [of 128] write_raws enc_assignment_def)
qed (rule decodes_assignment)

fun enc_optional_assignment :: "route_assignment option \<Rightarrow> u8 list" where
  "enc_optional_assignment None = [0]"
| "enc_optional_assignment (Some a) = 1 # enc_assignment a"

fun option_fits :: "route_assignment option \<Rightarrow> bool" where
  "option_fits None \<longleftrightarrow> True"
| "option_fits (Some a) \<longleftrightarrow> assignment_fits a"

lemma decodes_optional_assignment:
  "decodes read_optional_assignment enc_optional_assignment option_fits"
proof -
  let ?tag = "\<lambda>x. case x of None \<Rightarrow> (0 :: u8) | Some a \<Rightarrow> 1"
  let ?body = "\<lambda>x. case x of None \<Rightarrow> [] | Some a \<Rightarrow> enc_assignment a"
  let ?k = "\<lambda>tag r. if tag = 0 then Inr (None, r)
    else if tag = (1 :: u8) then and_then (read_assignment r) (\<lambda>(a, r). Inr (Some a, r))
    else Inl (Malformed ''invalid optional tag'')"
  have tags: "?tag x = 0 \<longleftrightarrow> x = None" "?tag x = 1 \<longleftrightarrow> (\<exists>a. x = Some a)"
    "?tag x = 0 \<or> ?tag x = 1" for x
    by (cases x; simp)+
  have some: "decodes (\<lambda>r. and_then (read_assignment r) (\<lambda>(a, r). Inr (Some a, r))) ?body
      (\<lambda>x. ?tag x = 1 \<and> option_fits x)"
    by (rule decodes_map [OF assignment_codec.reads]) (auto split: option.splits)
  have none: "decodes (\<lambda>r. Inr (None, r)) ?body (\<lambda>x. ?tag x = 0 \<and> option_fits x)"
    by (rule decodes_cong [OF decodes_return]) (auto split: option.splits)
  have "decodes (?k t) ?body (\<lambda>x. ?tag x = t \<and> option_fits x)" for t
  proof (cases "t = 0 \<or> t = 1")
    case True
    then show ?thesis using some none by auto
  next
    case False
    then have "?k t = (\<lambda>r. Inl (Malformed ''invalid optional tag''))" by auto
    moreover have "\<not> (?tag x = t \<and> option_fits x)" for x using False tags(3) [of x] by auto
    ultimately show ?thesis
      using decodes_cong [OF decodes_fail, of "\<lambda>x. ?tag x = t \<and> option_fits x"] by simp
  qed
  then show ?thesis
    unfolding read_optional_assignment_def [abs_def]
    by (rule decodes_cong [OF decodes_bind [OF u8_codec.reads]]) (auto split: option.splits)
qed

interpretation optional_assignment_codec:
  wire_codec write_optional_assignment read_optional_assignment enc_optional_assignment option_fits
proof
  show "write_optional_assignment x w = Inr (write_raw (enc_optional_assignment x) w)"
    if "option_fits x" for x w
    using that by (cases x) (simp_all add: assignment_codec.writes write_raws)
qed (rule decodes_optional_assignment)

definition enc_advertisement :: "peer_advertisement \<Rightarrow> u8 list" where
  "enc_advertisement p =
    bytes_of (peer_id_as_bytes (ad_peer_id p)) @ bytes_of (ad_public_key p)
    @ [of_nat (length (ad_capabilities p))]
    @ concat (map (\<lambda>c. u16_to_be_bytes (capability_code c)) (ad_capabilities p))
    @ u16_to_be_bytes (of_nat (length (ad_content_ids p)))
    @ concat (map (\<lambda>i. bytes_of (content_id_as_bytes i)) (ad_content_ids p))"

definition advertisement_fits :: "peer_advertisement \<Rightarrow> bool" where
  "advertisement_fits p \<longleftrightarrow>
    length (ad_capabilities p) \<le> MAX_CAPABILITIES
    \<and> length (ad_content_ids p) \<le> MAX_ADVERTISED_CONTENT_IDS"

lemma advertisement_eq_conv:
  "x = \<lparr>ad_peer_id = a, ad_public_key = b, ad_capabilities = c, ad_content_ids = d\<rparr> \<longleftrightarrow>
   ad_peer_id x = a \<and> ad_public_key x = b \<and> ad_capabilities x = c \<and> ad_content_ids x = d"
  by (cases x) auto

lemma decodes_advertisement: "decodes read_advertisement enc_advertisement advertisement_fits"
proof -
  let ?ids = "\<lambda>p. concat (map (\<lambda>i. bytes_of (content_id_as_bytes i)) (ad_content_ids p))"
  let ?caps = "\<lambda>p. concat (map (\<lambda>c. u16_to_be_bytes (capability_code c)) (ad_capabilities p))"
  let ?nids = "\<lambda>p. of_nat (length (ad_content_ids p)) :: u16"
  let ?ncaps = "\<lambda>p. of_nat (length (ad_capabilities p)) :: u8"
  let ?r1 = "\<lambda>p k c n r. if MAX_ADVERTISED_CONTENT_IDS < unat (n :: u16)
    then Inl (InvalidMessage ''too many content identifiers'')
    else and_then (read_n read_content_id (unat n) r) (\<lambda>(ids, r).
      Inr (\<lparr>ad_peer_id = p, ad_public_key = k, ad_capabilities = c, ad_content_ids = ids\<rparr>, r))"
  let ?r2 = "\<lambda>p k c r. and_then (read_u16 r) (\<lambda>(n, r). ?r1 p k c n r)"
  let ?r3 = "\<lambda>p k n r. if MAX_CAPABILITIES < unat (n :: u8)
    then Inl (InvalidMessage ''too many capabilities'')
    else and_then (read_n read_capability (unat n) r) (\<lambda>(c, r). ?r2 p k c r)"
  let ?idsok = "\<lambda>p. length (ad_content_ids p) \<le> MAX_ADVERTISED_CONTENT_IDS"
  have 1: "decodes (?r1 p k c n) ?ids
      (\<lambda>x. ?nids x = n \<and> ad_capabilities x = c \<and> ad_public_key x = k \<and> ad_peer_id x = p \<and> ?idsok x)"
    for p k c n
    by (rule decodes_cong [OF decodes_unless [OF decodes_build [OF content_id_codec.reads_n,
          where g = ad_content_ids]]])
      (auto simp: advertisement_eq_conv list_all_iff MAX_ADVERTISED_CONTENT_IDS_def unat_of_nat)
  have 2: "decodes (?r2 p k c) (\<lambda>x. u16_to_be_bytes (?nids x) @ ?ids x)
      (\<lambda>x. ad_capabilities x = c \<and> ad_public_key x = k \<and> ad_peer_id x = p \<and> ?idsok x)" for p k c
    by (rule decodes_cong [OF decodes_bind [OF u16_codec.reads 1]]) auto
  have 3: "decodes (\<lambda>r. and_then (read_n read_capability (unat (n :: u8)) r) (\<lambda>(c, r). ?r2 p k c r))
      (\<lambda>x. ?caps x @ u16_to_be_bytes (?nids x) @ ?ids x)
      (\<lambda>x. length (ad_capabilities x) = unat n \<and> ad_public_key x = k \<and> ad_peer_id x = p \<and> ?idsok x)"
    for p k n
    by (rule decodes_cong [OF decodes_bind [OF capability_codec.reads_n 2]]) (auto simp: list_all_iff)
  have 4: "decodes (?r3 p k n) (\<lambda>x. ?caps x @ u16_to_be_bytes (?nids x) @ ?ids x)
      (\<lambda>x. ?ncaps x = n \<and> ad_public_key x = k \<and> ad_peer_id x = p \<and> advertisement_fits x)" for p k n
    by (rule decodes_cong [OF decodes_unless [OF 3]])
      (auto simp: advertisement_fits_def MAX_CAPABILITIES_def unat_of_nat)
  have 5: "decodes (\<lambda>r. and_then (read_u8 r) (\<lambda>(n, r). ?r3 p k n r))
      (\<lambda>x. [?ncaps x] @ ?caps x @ u16_to_be_bytes (?nids x) @ ?ids x)
      (\<lambda>x. ad_public_key x = k \<and> ad_peer_id x = p \<and> advertisement_fits x)" for p k
    by (rule decodes_cong [OF decodes_bind [OF u8_codec.reads 4]]) auto
  have 6: "decodes (\<lambda>r. and_then (read_bytes32 r) (\<lambda>(k, r).
      and_then (read_u8 r) (\<lambda>(n, r). ?r3 p k n r)))
      (\<lambda>x. bytes_of (ad_public_key x) @ [?ncaps x] @ ?caps x @ u16_to_be_bytes (?nids x) @ ?ids x)
      (\<lambda>x. ad_peer_id x = p \<and> advertisement_fits x)" for p
    by (rule decodes_cong [OF decodes_bind [OF key_codec.reads 5]]) auto
  show ?thesis
    unfolding read_advertisement_def [abs_def]
    by (rule decodes_cong [OF decodes_bind [OF peer_id_codec.reads 6]])
      (auto simp: enc_advertisement_def)
qed

interpretation advertisement_codec:
  wire_codec write_advertisement read_advertisement enc_advertisement advertisement_fits
proof
  show "write_advertisement p w = Inr (write_raw (enc_advertisement p) w)"
    if "advertisement_fits p" for p w
    using that capability_codec.writes_each [of "ad_capabilities p"]
      content_id_codec.writes_each [of "ad_content_ids p"]
    by (simp add: write_advertisement_def advertisement_fits_def u8_try_from_def u16_try_from_def
        MAX_CAPABILITIES_def MAX_ADVERTISED_CONTENT_IDS_def list_all_iff write_raws
        enc_advertisement_def)
qed (rule decodes_advertisement)

section \<open>The codec of requests\<close>

fun request_kind :: "overlay_request \<Rightarrow> u8" where
  "request_kind (RegisterPeer p) = 1"
| "request_kind (HeartbeatPeer i) = 2"
| "request_kind (PollPeer i) = 3"
| "request_kind (RegisterRelay a) = 4"
| "request_kind (HeartbeatRelay i) = 5"
| "request_kind (Discover c) = 6"
| "request_kind (DiscoverProviders c l) = 7"
| "request_kind (ReportRelayFailure i) = 8"
| "request_kind Health = 9"

fun enc_request_payload :: "overlay_request \<Rightarrow> u8 list" where
  "enc_request_payload (RegisterPeer p) = enc_advertisement p"
| "enc_request_payload (HeartbeatPeer i) = bytes_of (peer_id_as_bytes i)"
| "enc_request_payload (PollPeer i) = bytes_of (peer_id_as_bytes i)"
| "enc_request_payload (RegisterRelay a) = enc_string (ra_relay_id a) @ enc_string (ra_address a)"
| "enc_request_payload (HeartbeatRelay i) = enc_string i"
| "enc_request_payload (Discover c) = bytes_of (content_id_as_bytes c)"
| "enc_request_payload (DiscoverProviders c l) = bytes_of (content_id_as_bytes c) @ u16_to_be_bytes l"
| "enc_request_payload (ReportRelayFailure i) = enc_string i"
| "enc_request_payload Health = []"

definition enc_request :: "overlay_request \<Rightarrow> u8 list" where
  "enc_request q = request_kind q # enc_request_payload q"

fun request_fits :: "overlay_request \<Rightarrow> bool" where
  "request_fits (RegisterPeer p) \<longleftrightarrow> advertisement_fits p"
| "request_fits (RegisterRelay a) \<longleftrightarrow> str_fits 64 (ra_relay_id a) \<and> str_fits 128 (ra_address a)"
| "request_fits (HeartbeatRelay i) \<longleftrightarrow> str_fits 64 i"
| "request_fits (ReportRelayFailure i) \<longleftrightarrow> str_fits 64 i"
| "request_fits _ \<longleftrightarrow> True"

text \<open>Every Rust \<open>String\<close> of the request is UTF-8.\<close>

fun request_strings_utf8 :: "overlay_request \<Rightarrow> bool" where
  "request_strings_utf8 (RegisterRelay a) \<longleftrightarrow> utf8 (ra_relay_id a) \<and> utf8 (ra_address a)"
| "request_strings_utf8 (HeartbeatRelay i) \<longleftrightarrow> utf8 i"
| "request_strings_utf8 (ReportRelayFailure i) \<longleftrightarrow> utf8 i"
| "request_strings_utf8 _ \<longleftrightarrow> True"

lemma read_request_kind_eqs:
  "read_overlay_request_kind 1 = (\<lambda>r. and_then (read_advertisement r) (\<lambda>(p, r). Inr (RegisterPeer p, r)))"
  "read_overlay_request_kind 2 = (\<lambda>r. and_then (read_peer_id r) (\<lambda>(i, r). Inr (HeartbeatPeer i, r)))"
  "read_overlay_request_kind 3 = (\<lambda>r. and_then (read_peer_id r) (\<lambda>(i, r). Inr (PollPeer i, r)))"
  "read_overlay_request_kind 4 = (\<lambda>r. and_then (read_string 64 r) (\<lambda>(i, r).
     and_then (read_string 128 r) (\<lambda>(a, r).
     Inr (RegisterRelay \<lparr>ra_relay_id = i, ra_address = a\<rparr>, r))))"
  "read_overlay_request_kind 5 = (\<lambda>r. and_then (read_string 64 r) (\<lambda>(i, r). Inr (HeartbeatRelay i, r)))"
  "read_overlay_request_kind 6 = (\<lambda>r. and_then (read_content_id r) (\<lambda>(c, r). Inr (Discover c, r)))"
  "read_overlay_request_kind 7 = (\<lambda>r. and_then (read_content_id r) (\<lambda>(c, r).
     and_then (read_u16 r) (\<lambda>(limit, r). Inr (DiscoverProviders c limit, r))))"
  "read_overlay_request_kind 8 =
    (\<lambda>r. and_then (read_string 64 r) (\<lambda>(i, r). Inr (ReportRelayFailure i, r)))"
  "read_overlay_request_kind 9 = (\<lambda>r. Inr (Health, r))"
  "a \<notin> {1, 2, 3, 4, 5, 6, 7, 8, 9} \<Longrightarrow> read_overlay_request_kind a = (\<lambda>r. Inl (UnknownMessage a))"
  by (rule ext, simp add: read_overlay_request_kind_def)+

lemma request_kind_range: "request_kind x \<in> {1, 2, 3, 4, 5, 6, 7, 8, 9}"
  by (cases x) simp_all

lemma request_kind_iffs:
  "1 = request_kind x \<and> request_fits x \<longleftrightarrow> (\<exists>p. x = RegisterPeer p \<and> advertisement_fits p)"
  "2 = request_kind x \<and> request_fits x \<longleftrightarrow> (\<exists>i. x = HeartbeatPeer i \<and> True)"
  "3 = request_kind x \<and> request_fits x \<longleftrightarrow> (\<exists>i. x = PollPeer i \<and> True)"
  "5 = request_kind x \<and> request_fits x \<longleftrightarrow> (\<exists>i. x = HeartbeatRelay i \<and> str_fits 64 i)"
  "6 = request_kind x \<and> request_fits x \<longleftrightarrow> (\<exists>c. x = Discover c \<and> True)"
  "8 = request_kind x \<and> request_fits x \<longleftrightarrow> (\<exists>i. x = ReportRelayFailure i \<and> str_fits 64 i)"
  "9 = request_kind x \<and> request_fits x \<longleftrightarrow> x = Health"
  by (cases x; auto)+

lemma decodes_register_relay:
  "decodes (read_overlay_request_kind 4) enc_request_payload (\<lambda>x. 4 = request_kind x \<and> request_fits x)"
proof -
  let ?ad = "\<lambda>x. case x of RegisterRelay a \<Rightarrow> a | _ \<Rightarrow> undefined"
  let ?is = "\<lambda>x. \<exists>a. x = RegisterRelay a"
  have conv: "y = \<lparr>ra_relay_id = i, ra_address = a\<rparr> \<longleftrightarrow> ra_relay_id y = i \<and> ra_address y = a" for y i a
    by (cases y) auto
  have 1: "decodes (\<lambda>r. and_then (read_string 128 r) (\<lambda>(a, r).
      Inr (RegisterRelay \<lparr>ra_relay_id = i, ra_address = a\<rparr>, r)))
      (\<lambda>x. enc_string (ra_address (?ad x)))
      (\<lambda>x. ra_relay_id (?ad x) = i \<and> ?is x \<and> str_fits 128 (ra_address (?ad x)))" for i
    by (rule decodes_map [OF decodes_str_fits]) (auto simp: conv)
  have "4 = request_kind x \<longleftrightarrow> ?is x" for x by (cases x) auto
  then show ?thesis
    unfolding read_request_kind_eqs
    by (intro decodes_cong [OF decodes_bind [OF decodes_str_fits 1]]) auto
qed

lemma decodes_discover_providers:
  "decodes (read_overlay_request_kind 7) enc_request_payload (\<lambda>x. 7 = request_kind x \<and> request_fits x)"
proof -
  let ?c = "\<lambda>x. case x of DiscoverProviders c l \<Rightarrow> c | _ \<Rightarrow> undefined"
  let ?l = "\<lambda>x. case x of DiscoverProviders c l \<Rightarrow> l | _ \<Rightarrow> undefined"
  let ?is = "\<lambda>x. \<exists>c l. x = DiscoverProviders c l"
  have 1: "decodes (\<lambda>r. and_then (read_u16 r) (\<lambda>(l, r). Inr (DiscoverProviders c l, r)))
      (\<lambda>x. u16_to_be_bytes (?l x)) (\<lambda>x. ?c x = c \<and> ?is x)" for c
    by (rule decodes_map [OF u16_codec.reads]) auto
  have "7 = request_kind x \<longleftrightarrow> ?is x" for x by (cases x) auto
  then show ?thesis
    unfolding read_request_kind_eqs
    by (intro decodes_cong [OF decodes_bind [OF content_id_codec.reads 1]]) auto
qed

lemma decodes_request_kind:
  "decodes (read_overlay_request_kind a) enc_request_payload (\<lambda>x. a = request_kind x \<and> request_fits x)"
proof (cases "a \<in> {1, 2, 3, 4, 5, 6, 7, 8, 9}")
  case True
  let ?D = "\<lambda>n. decodes (read_overlay_request_kind n) enc_request_payload
    (\<lambda>x. n = request_kind x \<and> request_fits x)"
  have "?D 1" unfolding read_request_kind_eqs
    by (rule decodes_map [OF advertisement_codec.reads request_kind_iffs(1)]) simp
  moreover have "?D 2" unfolding read_request_kind_eqs
    by (rule decodes_map [OF peer_id_codec.reads request_kind_iffs(2)]) simp
  moreover have "?D 3" unfolding read_request_kind_eqs
    by (rule decodes_map [OF peer_id_codec.reads request_kind_iffs(3)]) simp
  moreover have "?D 4" by (rule decodes_register_relay)
  moreover have "?D 5" unfolding read_request_kind_eqs
    by (rule decodes_map [OF decodes_str_fits request_kind_iffs(4)]) simp_all
  moreover have "?D 6" unfolding read_request_kind_eqs
    by (rule decodes_map [OF content_id_codec.reads request_kind_iffs(5)]) simp
  moreover have "?D 7" by (rule decodes_discover_providers)
  moreover have "?D 8" unfolding read_request_kind_eqs
    by (rule decodes_map [OF decodes_str_fits request_kind_iffs(6)]) simp_all
  moreover have "?D 9" unfolding read_request_kind_eqs request_kind_iffs
    by (rule decodes_cong [OF decodes_return]) auto
  ultimately show ?thesis using True by blast
next
  case False
  then have "a \<noteq> request_kind x" for x using request_kind_range [of x] by auto
  then show ?thesis
    unfolding read_request_kind_eqs(10) [OF False]
    by (intro decodes_cong [OF decodes_fail]) auto
qed

lemma decodes_request: "decodes read_overlay_request enc_request request_fits"
proof -
  have "decodes (read_overlay_request_kind a) enc_request_payload
      (\<lambda>x. request_kind x = a \<and> request_fits x)" for a
    by (rule decodes_cong [OF decodes_request_kind]) auto
  then show ?thesis
    unfolding read_overlay_request_def [abs_def]
    by (rule decodes_cong [OF decodes_bind [OF u8_codec.reads]]) (auto simp: enc_request_def)
qed

interpretation request_codec:
  wire_codec write_overlay_request read_overlay_request enc_request request_fits
proof
  show "write_overlay_request q w = Inr (write_raw (enc_request q) w)" if "request_fits q" for q w
    using that
    by (cases q) (simp_all add: enc_request_def write_raws advertisement_codec.writes
        write_str_fits [of 64] write_str_fits [of 128])
qed (rule decodes_request)

section \<open>The codec of responses\<close>

fun response_kind :: "overlay_response \<Rightarrow> u8" where
  "response_kind (Registered l) = 1"
| "response_kind (Assignment a) = 2"
| "response_kind (Route a) = 3"
| "response_kind (Routes as) = 4"
| "response_kind Acknowledged = 5"
| "response_kind (OverlayErrorMsg t) = 255"

fun enc_response_payload :: "overlay_response \<Rightarrow> u8 list" where
  "enc_response_payload (Registered l) = u64_to_be_bytes l"
| "enc_response_payload (Assignment a) = enc_optional_assignment a"
| "enc_response_payload (Route a) = enc_optional_assignment a"
| "enc_response_payload (Routes as) =
    u16_to_be_bytes (of_nat (length as)) @ concat (map enc_assignment as)"
| "enc_response_payload Acknowledged = []"
| "enc_response_payload (OverlayErrorMsg t) = enc_string t"

definition enc_response :: "overlay_response \<Rightarrow> u8 list" where
  "enc_response p = response_kind p # enc_response_payload p"

fun response_fits :: "overlay_response \<Rightarrow> bool" where
  "response_fits (Assignment a) \<longleftrightarrow> option_fits a"
| "response_fits (Route a) \<longleftrightarrow> option_fits a"
| "response_fits (Routes as) \<longleftrightarrow> length as \<le> MAX_DISCOVERY_ROUTES \<and> list_all assignment_fits as"
| "response_fits (OverlayErrorMsg t) \<longleftrightarrow> str_fits MAX_ERROR_TEXT_BYTES t"
| "response_fits _ \<longleftrightarrow> True"

definition assignment_strings_utf8 :: "route_assignment \<Rightarrow> bool" where
  "assignment_strings_utf8 a \<longleftrightarrow>
    utf8 (rt_relay_id a) \<and> utf8 (rt_relay_address a) \<and> utf8 (rt_route a)"

fun response_strings_utf8 :: "overlay_response \<Rightarrow> bool" where
  "response_strings_utf8 (Assignment (Some a)) \<longleftrightarrow> assignment_strings_utf8 a"
| "response_strings_utf8 (Route (Some a)) \<longleftrightarrow> assignment_strings_utf8 a"
| "response_strings_utf8 (Routes as) \<longleftrightarrow> list_all assignment_strings_utf8 as"
| "response_strings_utf8 (OverlayErrorMsg t) \<longleftrightarrow> utf8 t"
| "response_strings_utf8 _ \<longleftrightarrow> True"

lemma read_response_kind_eqs:
  "read_overlay_response_kind 1 = (\<lambda>r. and_then (read_u64 r) (\<lambda>(l, r). Inr (Registered l, r)))"
  "read_overlay_response_kind 2 =
    (\<lambda>r. and_then (read_optional_assignment r) (\<lambda>(a, r). Inr (Assignment a, r)))"
  "read_overlay_response_kind 3 =
    (\<lambda>r. and_then (read_optional_assignment r) (\<lambda>(a, r). Inr (Route a, r)))"
  "read_overlay_response_kind 4 = (\<lambda>r. and_then (read_u16 r) (\<lambda>(count, r).
     if MAX_DISCOVERY_ROUTES < unat count
     then Inl (InvalidMessage ''too many route assignments'')
     else and_then (read_n read_assignment (unat count) r) (\<lambda>(as, r). Inr (Routes as, r))))"
  "read_overlay_response_kind 5 = (\<lambda>r. Inr (Acknowledged, r))"
  "read_overlay_response_kind 255 =
    (\<lambda>r. and_then (read_string MAX_ERROR_TEXT_BYTES r) (\<lambda>(t, r). Inr (OverlayErrorMsg t, r)))"
  "a \<notin> {1, 2, 3, 4, 5, 255} \<Longrightarrow> read_overlay_response_kind a = (\<lambda>r. Inl (UnknownMessage a))"
  by (rule ext, simp add: read_overlay_response_kind_def)+

lemma response_kind_range: "response_kind x \<in> {1, 2, 3, 4, 5, 255}"
  by (cases x) simp_all

lemma response_kind_iffs:
  "1 = response_kind x \<and> response_fits x \<longleftrightarrow> (\<exists>l. x = Registered l \<and> True)"
  "2 = response_kind x \<and> response_fits x \<longleftrightarrow> (\<exists>a. x = Assignment a \<and> option_fits a)"
  "3 = response_kind x \<and> response_fits x \<longleftrightarrow> (\<exists>a. x = Route a \<and> option_fits a)"
  "5 = response_kind x \<and> response_fits x \<longleftrightarrow> x = Acknowledged"
  "255 = response_kind x \<and> response_fits x \<longleftrightarrow>
    (\<exists>t. x = OverlayErrorMsg t \<and> str_fits MAX_ERROR_TEXT_BYTES t)"
  by (cases x; auto)+

lemma decodes_routes:
  "decodes (read_overlay_response_kind 4) enc_response_payload
    (\<lambda>x. 4 = response_kind x \<and> response_fits x)"
proof -
  let ?as = "\<lambda>x. case x of Routes as \<Rightarrow> as | _ \<Rightarrow> undefined"
  let ?is = "\<lambda>x. \<exists>as. x = Routes as"
  let ?n = "\<lambda>x. of_nat (length (?as x)) :: u16"
  have 1: "decodes (\<lambda>r. and_then (read_n read_assignment (unat n) r) (\<lambda>(as, r). Inr (Routes as, r)))
      (\<lambda>x. concat (map enc_assignment (?as x)))
      (\<lambda>x. ?is x \<and> length (?as x) = unat n \<and> list_all assignment_fits (?as x))" for n :: u16
    by (rule decodes_map [OF assignment_codec.reads_n]) auto
  have 2: "decodes (\<lambda>r. if MAX_DISCOVERY_ROUTES < unat n
      then Inl (InvalidMessage ''too many route assignments'')
      else and_then (read_n read_assignment (unat n) r) (\<lambda>(as, r). Inr (Routes as, r)))
      (\<lambda>x. concat (map enc_assignment (?as x)))
      (\<lambda>x. ?n x = n \<and> ?is x \<and> length (?as x) \<le> MAX_DISCOVERY_ROUTES
        \<and> list_all assignment_fits (?as x))" for n :: u16
    by (rule decodes_cong [OF decodes_unless [OF 1]]) (auto simp: MAX_DISCOVERY_ROUTES_def unat_of_nat)
  have "4 = response_kind x \<longleftrightarrow> ?is x" for x by (cases x) auto
  then show ?thesis
    unfolding read_response_kind_eqs
    by (intro decodes_cong [OF decodes_bind [OF u16_codec.reads 2]]) auto
qed

lemma MAX_ERROR_TEXT_BYTES_u16: "MAX_ERROR_TEXT_BYTES < 2 ^ 16"
  by (simp add: MAX_ERROR_TEXT_BYTES_def)

lemma decodes_response_kind:
  "decodes (read_overlay_response_kind a) enc_response_payload
    (\<lambda>x. a = response_kind x \<and> response_fits x)"
proof (cases "a \<in> {1, 2, 3, 4, 5, 255}")
  case True
  let ?D = "\<lambda>n. decodes (read_overlay_response_kind n) enc_response_payload
    (\<lambda>x. n = response_kind x \<and> response_fits x)"
  have "?D 1" unfolding read_response_kind_eqs
    by (rule decodes_map [OF u64_codec.reads response_kind_iffs(1)]) simp
  moreover have "?D 2" unfolding read_response_kind_eqs
    by (rule decodes_map [OF optional_assignment_codec.reads response_kind_iffs(2)]) simp
  moreover have "?D 3" unfolding read_response_kind_eqs
    by (rule decodes_map [OF optional_assignment_codec.reads response_kind_iffs(3)]) simp
  moreover have "?D 4" by (rule decodes_routes)
  moreover have "?D 5" unfolding read_response_kind_eqs response_kind_iffs
    by (rule decodes_cong [OF decodes_return]) auto
  moreover have "?D 255" unfolding read_response_kind_eqs
    by (rule decodes_map [OF decodes_str_fits [OF MAX_ERROR_TEXT_BYTES_u16] response_kind_iffs(5)]) simp
  ultimately show ?thesis using True by blast
next
  case False
  then have "a \<noteq> response_kind x" for x using response_kind_range [of x] by auto
  then show ?thesis
    unfolding read_response_kind_eqs(7) [OF False]
    by (intro decodes_cong [OF decodes_fail]) auto
qed

lemma decodes_response: "decodes read_overlay_response enc_response response_fits"
proof -
  have "decodes (read_overlay_response_kind a) enc_response_payload
      (\<lambda>x. response_kind x = a \<and> response_fits x)" for a
    by (rule decodes_cong [OF decodes_response_kind]) auto
  then show ?thesis
    unfolding read_overlay_response_def [abs_def]
    by (rule decodes_cong [OF decodes_bind [OF u8_codec.reads]]) (auto simp: enc_response_def)
qed

interpretation response_codec:
  wire_codec write_overlay_response read_overlay_response enc_response response_fits
proof
  show "write_overlay_response q w = Inr (write_raw (enc_response q) w)" if "response_fits q" for q w
    using that
    by (cases q) (simp_all add: enc_response_def write_raws optional_assignment_codec.writes
        assignment_codec.writes_each write_str_fits [OF MAX_ERROR_TEXT_BYTES_u16] u16_try_from_def
        MAX_DISCOVERY_ROUTES_def)
qed (rule decodes_response)

section \<open>Validity and sizes\<close>

lemma valid_identifier_utf8: "valid_identifier v n \<Longrightarrow> utf8 v"
proof (rule utf8_ascii)
  fix b assume "valid_identifier v n" "b \<in> set v"
  then have "is_ascii_alphanumeric b \<or> b = 45 \<or> b = 95"
    by (auto simp: valid_identifier_def list_all_iff)
  then show "b < 0x80"
    by (auto simp: is_ascii_alphanumeric_def intro: order_le_less_trans)
qed

lemma valid_identifier_fits: "valid_identifier v n \<Longrightarrow> str_fits n v"
  by (auto simp: str_fits_def valid_identifier_utf8) (simp add: valid_identifier_def)

lemma validate_assignment_fits:
  "validate_assignment a = Inr u \<Longrightarrow> assignment_strings_utf8 a \<Longrightarrow> assignment_fits a"
  by (auto simp: validate_assignment_def assignment_fits_def assignment_strings_utf8_def
      dest: valid_identifier_fits split: if_splits) (simp add: str_fits_def)

lemma assignment_fits_utf8: "assignment_fits a \<Longrightarrow> assignment_strings_utf8 a"
  by (simp add: assignment_fits_def assignment_strings_utf8_def str_fits_def)

lemma validate_request_fits:
  "validate_overlay_request H q = Inr u \<Longrightarrow> request_strings_utf8 q \<Longrightarrow> request_fits q"
  by (cases q)
    (auto simp: advertisement_fits_def dest: valid_identifier_fits split: if_splits,
      auto simp: str_fits_def)

lemma request_fits_utf8: "request_fits q \<Longrightarrow> request_strings_utf8 q"
  by (cases q) (auto simp: str_fits_def)

lemma validate_response_fits:
  "validate_overlay_response p = Inr u \<Longrightarrow> response_strings_utf8 p \<Longrightarrow> response_fits p"
proof (cases p)
  case (Assignment a)
  assume "validate_overlay_response p = Inr u" "response_strings_utf8 p"
  then show ?thesis using Assignment by (cases a) (auto dest: validate_assignment_fits)
next
  case (Route a)
  assume "validate_overlay_response p = Inr u" "response_strings_utf8 p"
  then show ?thesis using Route by (cases a) (auto dest: validate_assignment_fits)
next
  case (Routes as)
  assume "validate_overlay_response p = Inr u" "response_strings_utf8 p"
  then show ?thesis
    using Routes
    by (auto simp: list_all_iff result_iffs dest: validate_assignment_fits split: if_splits)
qed (auto simp: str_fits_def split: if_splits)

lemma response_fits_utf8: "response_fits p \<Longrightarrow> response_strings_utf8 p"
proof (cases p)
  case (Assignment a)
  assume "response_fits p" then show ?thesis
    using Assignment by (cases a) (auto dest: assignment_fits_utf8)
next
  case (Route a)
  assume "response_fits p" then show ?thesis
    using Route by (cases a) (auto dest: assignment_fits_utf8)
qed (auto simp: str_fits_def list_all_iff dest: assignment_fits_utf8)

lemma length_concat_map_2: "length (concat (map (\<lambda>c. u16_to_be_bytes (f c)) xs)) = 2 * length xs"
  by (induction xs) auto

lemma request_size: "request_fits q \<Longrightarrow> 29 + length (enc_request q) \<le> MAX_OVERLAY_MESSAGE_BYTES"
  by (cases q)
    (auto simp: enc_request_def MAX_OVERLAY_MESSAGE_BYTES_def str_fits_def advertisement_fits_def
      enc_advertisement_def MAX_CAPABILITIES_def MAX_ADVERTISED_CONTENT_IDS_def
      length_concat_map_2 length_concat_map_32)

lemma assignment_size: "assignment_fits a \<Longrightarrow> length (enc_assignment a) \<le> 390"
  by (simp add: assignment_fits_def enc_assignment_def str_fits_def)

lemma assignments_size:
  "list_all assignment_fits as \<Longrightarrow> length (concat (map enc_assignment as)) \<le> 390 * length as"
proof (induction as)
  case (Cons a as)
  then show ?case using assignment_size [of a] by simp
qed simp

lemma response_size: "response_fits p \<Longrightarrow> 29 + length (enc_response p) \<le> MAX_OVERLAY_MESSAGE_BYTES"
proof (cases p)
  case (Assignment a)
  assume "response_fits p" then show ?thesis
    using Assignment
    by (cases a) (auto simp: enc_response_def MAX_OVERLAY_MESSAGE_BYTES_def dest: assignment_size)
next
  case (Route a)
  assume "response_fits p" then show ?thesis
    using Route
    by (cases a) (auto simp: enc_response_def MAX_OVERLAY_MESSAGE_BYTES_def dest: assignment_size)
next
  case (Routes as)
  assume "response_fits p" then show ?thesis
    using Routes assignments_size [of as]
    by (simp add: enc_response_def MAX_OVERLAY_MESSAGE_BYTES_def MAX_DISCOVERY_ROUTES_def)
qed (auto simp: enc_response_def MAX_OVERLAY_MESSAGE_BYTES_def str_fits_def MAX_ERROR_TEXT_BYTES_def)

lemma encode_overlay_request_eq:
  assumes "request_strings_utf8 q"
  shows "encode_overlay_request H q =
    and_then (validate_overlay_request H q) (\<lambda>_. Inr (header DOMAIN_OVERLAY_REQUEST @ enc_request q))"
proof (cases "validate_overlay_request H q")
  case (Inr u)
  then have "request_fits q" using assms by (rule validate_request_fits)
  then show ?thesis
    using Inr request_size [of q]
    by (simp add: encode_overlay_request_def request_codec.writes writer_new_header write_raw_def
        writer_finish_def ensure_size_def)
qed (simp add: encode_overlay_request_def)

lemma encode_overlay_response_eq:
  assumes "response_strings_utf8 p"
  shows "encode_overlay_response p =
    and_then (validate_overlay_response p) (\<lambda>_. Inr (header DOMAIN_OVERLAY_RESPONSE @ enc_response p))"
proof (cases "validate_overlay_response p")
  case (Inr u)
  then have "response_fits p" using assms by (rule validate_response_fits)
  then show ?thesis
    using Inr response_size [of p]
    by (simp add: encode_overlay_response_def response_codec.writes writer_new_header write_raw_def
        writer_finish_def ensure_size_def)
qed (simp add: encode_overlay_response_def)

lemma decode_overlay_request_Inr_iff:
  "decode_overlay_request H bytes = Inr q \<longleftrightarrow>
   request_strings_utf8 q \<and> validate_overlay_request H q = Inr ()
   \<and> bytes = header DOMAIN_OVERLAY_REQUEST @ enc_request q"
proof (cases "length bytes \<le> MAX_OVERLAY_MESSAGE_BYTES")
  case True
  then have u: "length bytes \<le> usize_max" by (simp add: MAX_OVERLAY_MESSAGE_BYTES_def usize_max_def)
  show ?thesis
    using True validate_request_fits [of H q] request_fits_utf8 [of q]
    by (auto simp: decode_overlay_request_def ensure_size_def record_read_iff [OF decodes_request u])
next
  case False
  then show ?thesis
    using request_size [of q] validate_request_fits [of H q]
    by (auto simp: decode_overlay_request_def ensure_size_def)
qed

lemma decode_overlay_response_Inr_iff:
  "decode_overlay_response bytes = Inr p \<longleftrightarrow>
   response_strings_utf8 p \<and> validate_overlay_response p = Inr ()
   \<and> bytes = header DOMAIN_OVERLAY_RESPONSE @ enc_response p"
proof (cases "length bytes \<le> MAX_OVERLAY_MESSAGE_BYTES")
  case True
  then have u: "length bytes \<le> usize_max" by (simp add: MAX_OVERLAY_MESSAGE_BYTES_def usize_max_def)
  show ?thesis
    using True validate_response_fits [of p] response_fits_utf8 [of p]
    by (auto simp: decode_overlay_response_def ensure_size_def record_read_iff [OF decodes_response u])
next
  case False
  then show ?thesis
    using response_size [of p] validate_response_fits [of p]
    by (auto simp: decode_overlay_response_def ensure_size_def)
qed

lemma header_inject: "header a = header b \<longleftrightarrow> a = b"
  by (simp add: header_def)

section \<open>Properties\<close>

text \<open>
  The codec of discovery requests is canonical: a request decodes exactly from the bytes
  its encoding produces, for every hash function.
\<close>

theorem decode_overlay_request_iff:
  "decode_overlay_request H bytes = Inr q \<longleftrightarrow>
   request_strings_utf8 q \<and> encode_overlay_request H q = Inr bytes"
  by (auto simp: decode_overlay_request_Inr_iff encode_overlay_request_eq result_iffs)

text \<open>
  (C30) The codec of discovery responses is canonical in the same sense.
\<close>

theorem decode_overlay_response_iff:
  "decode_overlay_response bytes = Inr p \<longleftrightarrow>
   response_strings_utf8 p \<and> encode_overlay_response p = Inr bytes"
  by (auto simp: decode_overlay_response_Inr_iff encode_overlay_response_eq result_iffs)

text \<open>
  The three record domains are disjoint: no byte string is accepted by two of the
  application, request and response decoders.
\<close>

theorem domain_separation:
  "\<not> (is_ok (decode bytes) \<and> is_ok (decode_overlay_request H bytes))
   \<and> \<not> (is_ok (decode bytes) \<and> is_ok (decode_overlay_response bytes))
   \<and> \<not> (is_ok (decode_overlay_request H bytes) \<and> is_ok (decode_overlay_response bytes))"
  by (auto simp: is_ok_iff decode_Inr_iff decode_overlay_request_Inr_iff
      decode_overlay_response_Inr_iff header_inject DOMAIN_APPLICATION_def
      DOMAIN_OVERLAY_REQUEST_def DOMAIN_OVERLAY_RESPONSE_def)

end
