(* ===== verification/Registry.thy ===== *)
theory Registry
  imports Overlay_Wire Ordered_Map Framing
begin

text \<open>
  The bootstrap registry of \<open>triptorrent-overlay/src/lib.rs\<close>: leases of peers and relays, the
  assignments queued for providers, and the requests that change them.  Time is an argument of
  every operation, as in the source, and nothing below assumes that it is monotonic.  Statistics
  counters are \<open>nat\<close>.
\<close>

section \<open>State\<close>

record registry_limits =
  max_peers :: nat
  max_relays :: nat
  max_content_ids_per_peer :: nat
  max_assignments_per_peer :: nat

definition registry_limits_default :: registry_limits where
  "registry_limits_default =
    \<lparr>max_peers = 4096, max_relays = 256,
     max_content_ids_per_peer = MAX_ADVERTISED_CONTENT_IDS, max_assignments_per_peer = 64\<rparr>"

record peer_lease =
  pl_advertisement :: peer_advertisement
  pl_expires_at :: u64

record relay_lease =
  rl_advertisement :: relay_advertisement
  rl_expires_at :: u64

record queued_assignment =
  qa_assignment :: route_assignment
  qa_expires_at :: u64

record overlay_snapshot =
  sn_peers :: nat
  sn_relays :: nat
  sn_content_advertisements :: nat
  sn_expired_peers :: nat
  sn_expired_relays :: nat
  sn_expired_routes :: nat

record registry =
  reg_lease_ms :: u64
  reg_limits :: registry_limits
  reg_peers :: "(peer_id, peer_lease) omap"
  reg_relays :: "(str, relay_lease) omap"
  reg_assignments :: "(peer_id, queued_assignment list) omap"
  reg_next_route :: u64
  reg_expired_peers :: nat
  reg_expired_relays :: nat
  reg_expired_routes :: nat

datatype registry_error =
    PeerIdentityMismatch
  | NoContent
  | UnsupportedPeer
  | InvalidRelayId
  | InvalidRelayAddress
  | TooManyContentIds
  | DuplicateContentId
  | PeerLimitReached
  | RelayLimitReached

fun registry_error_to_string :: "registry_error \<Rightarrow> str" where
  "registry_error_to_string PeerIdentityMismatch =
    ascii ''peer ID does not match the advertised public key''"
| "registry_error_to_string NoContent = ascii ''peer advertisement contains no content IDs''"
| "registry_error_to_string UnsupportedPeer =
    ascii ''peer does not advertise the experimental relayed-transfer capability''"
| "registry_error_to_string InvalidRelayId =
    ascii ''relay ID must be 1-64 ASCII letters, digits, '' @ [39, 45, 39] @ ascii '' or '' @ [39, 95, 39]"
| "registry_error_to_string InvalidRelayAddress =
    ascii ''relay address must be a valid IP socket address''"
| "registry_error_to_string TooManyContentIds = ascii ''peer advertisement exceeds content-ID limit''"
| "registry_error_to_string DuplicateContentId =
    ascii ''peer advertisement contains duplicate content IDs''"
| "registry_error_to_string PeerLimitReached = ascii ''peer registry limit reached''"
| "registry_error_to_string RelayLimitReached = ascii ''relay registry limit reached''"

definition registry_with_limits :: "u64 \<Rightarrow> registry_limits \<Rightarrow> registry" where
  "registry_with_limits lease limits =
    \<lparr>reg_lease_ms = max lease 1, reg_limits = limits, reg_peers = [], reg_relays = [],
     reg_assignments = [], reg_next_route = 0, reg_expired_peers = 0, reg_expired_relays = 0,
     reg_expired_routes = 0\<rparr>"

definition registry_new :: "u64 \<Rightarrow> registry" where
  "registry_new lease = registry_with_limits lease registry_limits_default"

section \<open>Expiry\<close>

text \<open>The sum of \<open>VecDeque::len\<close> over the queues.\<close>

definition routes_queued :: "(peer_id, queued_assignment list) omap \<Rightarrow> nat" where
  "routes_queued m = sum_list (map (\<lambda>(_, q). length q) m)"

definition purge_peers :: "u64 \<Rightarrow> (peer_id, peer_lease) omap \<Rightarrow> (peer_id, peer_lease) omap" where
  "purge_peers now m = om_retain (\<lambda>_ peer. now < pl_expires_at peer) m"

definition purge_relays :: "u64 \<Rightarrow> (str, relay_lease) omap \<Rightarrow> (str, relay_lease) omap" where
  "purge_relays now m = om_retain (\<lambda>_ relay. now < rl_expires_at relay) m"

definition assignment_live :: "u64 \<Rightarrow> (str, relay_lease) omap \<Rightarrow> queued_assignment \<Rightarrow> bool" where
  "assignment_live now relays q \<longleftrightarrow>
    now < qa_expires_at q \<and> om_contains relays (rt_relay_id (qa_assignment q))"

definition purge_assignments ::
  "u64 \<Rightarrow> (peer_id, peer_lease) omap \<Rightarrow> (str, relay_lease) omap
    \<Rightarrow> (peer_id, queued_assignment list) omap \<Rightarrow> (peer_id, queued_assignment list) omap" where
  "purge_assignments now peers relays m =
    om_filter_map (\<lambda>peer_id queue.
      if \<not> om_contains peers peer_id then None
      else let queue = filter (assignment_live now relays) queue in
        if queue = [] then None else Some queue) m"

definition registry_purge :: "u64 \<Rightarrow> registry \<Rightarrow> registry" where
  "registry_purge now g =
    (let peers = purge_peers now (reg_peers g);
         relays = purge_relays now (reg_relays g);
         assignments = purge_assignments now peers relays (reg_assignments g) in
     g\<lparr>reg_peers := peers, reg_relays := relays, reg_assignments := assignments,
       reg_expired_peers := reg_expired_peers g + (length (reg_peers g) - length peers),
       reg_expired_relays := reg_expired_relays g + (length (reg_relays g) - length relays),
       reg_expired_routes := reg_expired_routes g
         + (routes_queued (reg_assignments g) - routes_queued assignments)\<rparr>)"

section \<open>Leases\<close>

definition lease_until :: "u64 \<Rightarrow> registry \<Rightarrow> u64" where
  "lease_until now g = saturating_add_u64 now (reg_lease_ms g)"

definition registry_register_peer ::
  "hash \<Rightarrow> u64 \<Rightarrow> peer_advertisement \<Rightarrow> registry \<Rightarrow> (registry_error + unit) \<times> registry" where
  "registry_register_peer H now ad g =
    (if ad_peer_id ad \<noteq> peer_id_from_public_key H (ad_public_key ad)
     then (Inl PeerIdentityMismatch, g)
     else if ad_content_ids ad = [] then (Inl NoContent, g)
     else if max_content_ids_per_peer (reg_limits g) < length (ad_content_ids ad)
     then (Inl TooManyContentIds, g)
     else if length (remdups (ad_content_ids ad)) \<noteq> length (ad_content_ids ad)
     then (Inl DuplicateContentId, g)
     else if \<not> list_ex (\<lambda>c. c = RelayedTransferV1 \<or> c = SwarmTransferV1) (ad_capabilities ad)
     then (Inl UnsupportedPeer, g)
     else let g = registry_purge now g in
       if \<not> om_contains (reg_peers g) (ad_peer_id ad)
          \<and> max_peers (reg_limits g) \<le> length (reg_peers g)
       then (Inl PeerLimitReached, g)
       else (Inr (), g\<lparr>reg_peers := om_insert (ad_peer_id ad)
         \<lparr>pl_advertisement = ad, pl_expires_at = lease_until now g\<rparr> (reg_peers g)\<rparr>))"

definition registry_heartbeat_peer :: "u64 \<Rightarrow> peer_id \<Rightarrow> registry \<Rightarrow> bool \<times> registry" where
  "registry_heartbeat_peer now peer_id g =
    (let g = registry_purge now g in
     case om_lookup (reg_peers g) peer_id of
       None \<Rightarrow> (False, g)
     | Some peer \<Rightarrow> (True, g\<lparr>reg_peers :=
         om_insert peer_id (peer\<lparr>pl_expires_at := lease_until now g\<rparr>) (reg_peers g)\<rparr>))"

definition validate_relay_id :: "str \<Rightarrow> registry_error + unit" where
  "validate_relay_id i =
    (if i = [] \<or> 64 < length i
        \<or> \<not> list_all (\<lambda>b. is_ascii_alphanumeric b \<or> b = 45 \<or> b = 95) i
     then Inl InvalidRelayId else Inr ())"

definition registry_register_relay ::
  "u64 \<Rightarrow> relay_advertisement \<Rightarrow> registry \<Rightarrow> (registry_error + unit) \<times> registry" where
  "registry_register_relay now ad g =
    (case validate_relay_id (ra_relay_id ad) of
       Inl e \<Rightarrow> (Inl e, g)
     | Inr _ \<Rightarrow>
         if \<not> socket_addr_ok (ra_address ad) then (Inl InvalidRelayAddress, g)
         else let g = registry_purge now g in
           if \<not> om_contains (reg_relays g) (ra_relay_id ad)
              \<and> max_relays (reg_limits g) \<le> length (reg_relays g)
           then (Inl RelayLimitReached, g)
           else (Inr (), g\<lparr>reg_relays := om_insert (ra_relay_id ad)
             \<lparr>rl_advertisement = ad, rl_expires_at = lease_until now g\<rparr> (reg_relays g)\<rparr>))"

definition registry_heartbeat_relay :: "u64 \<Rightarrow> str \<Rightarrow> registry \<Rightarrow> bool \<times> registry" where
  "registry_heartbeat_relay now relay_id g =
    (let g = registry_purge now g in
     case om_lookup (reg_relays g) relay_id of
       None \<Rightarrow> (False, g)
     | Some relay \<Rightarrow> (True, g\<lparr>reg_relays :=
         om_insert relay_id (relay\<lparr>rl_expires_at := lease_until now g\<rparr>) (reg_relays g)\<rparr>))"

section \<open>Routes\<close>

text \<open>\<open>format!("{:016x}")\<close> of a \<open>u64\<close>: sixteen hexadecimal digits, most significant first.\<close>

definition hex_digit_of :: "nat \<Rightarrow> u8" where
  "hex_digit_of d = ascii ''0123456789abcdef'' ! d"

definition format_016x :: "u64 \<Rightarrow> str" where
  "format_016x n = map (\<lambda>i. hex_digit_of (unat n div 16 ^ i mod 16)) (rev [0..<16])"

definition queue_assignment ::
  "u64 \<Rightarrow> peer_advertisement \<Rightarrow> relay_advertisement \<Rightarrow> str \<Rightarrow> registry
    \<Rightarrow> route_assignment option \<times> registry" where
  "queue_assignment now provider relay prefix g =
    (let queue = (case om_lookup (reg_assignments g) (ad_peer_id provider) of
           None \<Rightarrow> [] | Some queue \<Rightarrow> queue) in
     if max_assignments_per_peer (reg_limits g) \<le> length queue
     then (None, g\<lparr>reg_assignments := om_insert (ad_peer_id provider) queue (reg_assignments g)\<rparr>)
     else
       let n = reg_next_route g + 1;
           a = \<lparr>rt_provider_id = ad_peer_id provider, rt_provider_public_key = ad_public_key provider,
                rt_relay_id = ra_relay_id relay, rt_relay_address = ra_address relay,
                rt_route = prefix @ ascii ''-'' @ format_016x n\<rparr>;
           q = \<lparr>qa_assignment = a, qa_expires_at = lease_until now g\<rparr> in
       (Some a, g\<lparr>reg_next_route := n,
          reg_assignments := om_insert (ad_peer_id provider) (queue @ [q]) (reg_assignments g)\<rparr>))"

definition registry_discover :: "u64 \<Rightarrow> content_id \<Rightarrow> registry \<Rightarrow> route_assignment option \<times> registry" where
  "registry_discover now content_id g =
    (let g = registry_purge now g in
     case find (\<lambda>peer. content_id \<in> set (ad_content_ids (pl_advertisement peer)))
            (map snd (reg_peers g)) of
       None \<Rightarrow> (None, g)
     | Some peer \<Rightarrow>
         (case map snd (reg_relays g) of
            [] \<Rightarrow> (None, g)
          | relay # _ \<Rightarrow>
              queue_assignment now (pl_advertisement peer) (rl_advertisement relay) (ascii ''m2'') g))"

fun queue_each ::
  "u64 \<Rightarrow> relay_advertisement list \<Rightarrow> nat \<Rightarrow> peer_advertisement list \<Rightarrow> registry
    \<Rightarrow> route_assignment list \<times> registry" where
  "queue_each now relays index [] g = ([], g)"
| "queue_each now relays index (provider # providers) g =
    (case queue_assignment now provider (relays ! (index mod length relays)) (ascii ''m4'') g of
       (r, g) \<Rightarrow> case queue_each now relays (Suc index) providers g of
         (rs, g) \<Rightarrow> ((case r of None \<Rightarrow> rs | Some a \<Rightarrow> a # rs), g))"

definition swarm_providers :: "content_id \<Rightarrow> nat \<Rightarrow> registry \<Rightarrow> peer_advertisement list" where
  "swarm_providers content_id limit g =
    map pl_advertisement (take limit (filter (\<lambda>peer.
      content_id \<in> set (ad_content_ids (pl_advertisement peer))
      \<and> SwarmTransferV1 \<in> set (ad_capabilities (pl_advertisement peer))) (map snd (reg_peers g))))"

definition registry_discover_providers ::
  "u64 \<Rightarrow> content_id \<Rightarrow> nat \<Rightarrow> registry \<Rightarrow> route_assignment list \<times> registry" where
  "registry_discover_providers now content_id limit g =
    (let g = registry_purge now g;
         providers = swarm_providers content_id limit g;
         relays = map (\<lambda>(_, relay). rl_advertisement relay) (reg_relays g) in
     if relays = [] then ([], g) else queue_each now relays 0 providers g)"

fun poll_queue ::
  "u64 \<Rightarrow> (str, relay_lease) omap \<Rightarrow> queued_assignment list
    \<Rightarrow> route_assignment option \<times> queued_assignment list" where
  "poll_queue now relays [] = (None, [])"
| "poll_queue now relays (q # queue) =
    (if assignment_live now relays q then (Some (qa_assignment q), queue)
     else poll_queue now relays queue)"

definition registry_poll_peer :: "u64 \<Rightarrow> peer_id \<Rightarrow> registry \<Rightarrow> route_assignment option \<times> registry" where
  "registry_poll_peer now peer_id g =
    (case registry_heartbeat_peer now peer_id g of
       (False, g) \<Rightarrow> (None, g)
     | (True, g) \<Rightarrow>
         (case om_lookup (reg_assignments g) peer_id of
            None \<Rightarrow> (None, g)
          | Some queue \<Rightarrow>
              (case poll_queue now (reg_relays g) queue of
                 (r, queue) \<Rightarrow>
                   (r, g\<lparr>reg_assignments := om_insert peer_id queue (reg_assignments g)\<rparr>))))"

definition registry_report_relay_failure :: "str \<Rightarrow> registry \<Rightarrow> registry" where
  "registry_report_relay_failure relay_id g =
    g\<lparr>reg_relays := om_remove relay_id (reg_relays g),
      reg_assignments := om_map_values
        (filter (\<lambda>q. rt_relay_id (qa_assignment q) \<noteq> relay_id)) (reg_assignments g)\<rparr>"

definition registry_snapshot :: "u64 \<Rightarrow> registry \<Rightarrow> overlay_snapshot \<times> registry" where
  "registry_snapshot now g =
    (let g = registry_purge now g in
     (\<lparr>sn_peers = length (reg_peers g), sn_relays = length (reg_relays g),
       sn_content_advertisements =
         sum_list (map (\<lambda>(_, peer). length (ad_content_ids (pl_advertisement peer))) (reg_peers g)),
       sn_expired_peers = reg_expired_peers g, sn_expired_relays = reg_expired_relays g,
       sn_expired_routes = reg_expired_routes g\<rparr>, g))"

section \<open>Requests\<close>

fun handle_request :: "hash \<Rightarrow> u64 \<Rightarrow> overlay_request \<Rightarrow> registry \<Rightarrow> overlay_response \<times> registry" where
  "handle_request H now (RegisterPeer peer) g =
    (case registry_register_peer H now peer g of
       (Inr _, g) \<Rightarrow> (Registered (reg_lease_ms g), g)
     | (Inl e, g) \<Rightarrow> (OverlayErrorMsg (registry_error_to_string e), g))"
| "handle_request H now (HeartbeatPeer peer_id) g =
    (case registry_heartbeat_peer now peer_id g of
       (True, g) \<Rightarrow> (Registered (reg_lease_ms g), g)
     | (False, g) \<Rightarrow> (OverlayErrorMsg (ascii ''peer lease is not registered''), g))"
| "handle_request H now (PollPeer peer_id) g =
    (case registry_heartbeat_peer now peer_id g of
       (True, g) \<Rightarrow> (case registry_poll_peer now peer_id g of (a, g) \<Rightarrow> (Assignment a, g))
     | (False, g) \<Rightarrow> (OverlayErrorMsg (ascii ''peer lease is not registered''), g))"
| "handle_request H now (RegisterRelay relay) g =
    (case registry_register_relay now relay g of
       (Inr _, g) \<Rightarrow> (Registered (reg_lease_ms g), g)
     | (Inl e, g) \<Rightarrow> (OverlayErrorMsg (registry_error_to_string e), g))"
| "handle_request H now (HeartbeatRelay relay_id) g =
    (case registry_heartbeat_relay now relay_id g of
       (True, g) \<Rightarrow> (Registered (reg_lease_ms g), g)
     | (False, g) \<Rightarrow> (OverlayErrorMsg (ascii ''relay lease is not registered''), g))"
| "handle_request H now (Discover content_id) g =
    (case registry_discover now content_id g of (a, g) \<Rightarrow> (Route a, g))"
| "handle_request H now (DiscoverProviders content_id limit) g =
    (case registry_discover_providers now content_id (unat (min limit 16)) g of
       (as, g) \<Rightarrow> (Routes as, g))"
| "handle_request H now (ReportRelayFailure relay_id) g =
    (Acknowledged, registry_report_relay_failure relay_id g)"
| "handle_request H now Health g = (Acknowledged, g)"

section \<open>Invariant\<close>

text \<open>
  Entries are filed under their own identifiers and passed the checks of registration; queues are
  bounded, and refer to leased peers and relays only.  Identifiers and addresses are in the form
  that the response encoder accepts.
\<close>

definition peer_entry_ok :: "hash \<Rightarrow> registry_limits \<Rightarrow> peer_id \<Rightarrow> peer_lease \<Rightarrow> bool" where
  "peer_entry_ok H limits k peer \<longleftrightarrow>
    (let ad = pl_advertisement peer in
     ad_peer_id ad = k \<and> k = peer_id_from_public_key H (ad_public_key ad)
     \<and> ad_content_ids ad \<noteq> [] \<and> length (ad_content_ids ad) \<le> max_content_ids_per_peer limits
     \<and> distinct (ad_content_ids ad))"

definition relay_ad_ok :: "relay_advertisement \<Rightarrow> bool" where
  "relay_ad_ok ad \<longleftrightarrow>
    valid_identifier (ra_relay_id ad) 64 \<and> length (ra_address ad) \<le> 128
    \<and> utf8 (ra_address ad) \<and> socket_addr_ok (ra_address ad)"

definition relay_entry_ok :: "str \<Rightarrow> relay_lease \<Rightarrow> bool" where
  "relay_entry_ok k relay \<longleftrightarrow> ra_relay_id (rl_advertisement relay) = k \<and> relay_ad_ok (rl_advertisement relay)"

definition assignment_ok :: "route_assignment \<Rightarrow> bool" where
  "assignment_ok a \<longleftrightarrow> validate_assignment a = Inr () \<and> utf8 (rt_relay_address a)"

definition queue_entry_ok :: "hash \<Rightarrow> registry \<Rightarrow> peer_id \<Rightarrow> queued_assignment list \<Rightarrow> bool" where
  "queue_entry_ok H g k queue \<longleftrightarrow>
    length queue \<le> max_assignments_per_peer (reg_limits g) \<and> om_contains (reg_peers g) k
    \<and> (\<forall>q \<in> set queue. let a = qa_assignment q in
        rt_provider_id a = k \<and> k = peer_id_from_public_key H (rt_provider_public_key a)
        \<and> om_contains (reg_relays g) (rt_relay_id a) \<and> assignment_ok a)"

definition registry_ok :: "hash \<Rightarrow> registry \<Rightarrow> bool" where
  "registry_ok H g \<longleftrightarrow>
    om_ok (reg_peers g) \<and> om_ok (reg_relays g) \<and> om_ok (reg_assignments g)
    \<and> length (reg_peers g) \<le> max_peers (reg_limits g)
    \<and> length (reg_relays g) \<le> max_relays (reg_limits g)
    \<and> (\<forall>(k, peer) \<in> set (reg_peers g). peer_entry_ok H (reg_limits g) k peer)
    \<and> (\<forall>(k, relay) \<in> set (reg_relays g). relay_entry_ok k relay)
    \<and> (\<forall>(k, queue) \<in> set (reg_assignments g). queue_entry_ok H g k queue)"

lemma registry_okD:
  assumes "registry_ok H g"
  shows "om_ok (reg_peers g)" "om_ok (reg_relays g)" "om_ok (reg_assignments g)"
    and "length (reg_peers g) \<le> max_peers (reg_limits g)"
    and "length (reg_relays g) \<le> max_relays (reg_limits g)"
    and "om_lookup (reg_peers g) k = Some peer \<Longrightarrow> peer_entry_ok H (reg_limits g) k peer"
    and "om_lookup (reg_relays g) i = Some relay \<Longrightarrow> relay_entry_ok i relay"
    and "om_lookup (reg_assignments g) k = Some queue \<Longrightarrow> queue_entry_ok H g k queue"
  using assms by (auto simp: registry_ok_def om_lookup_iff)

lemma registry_okI:
  assumes "om_ok (reg_peers g)" "om_ok (reg_relays g)" "om_ok (reg_assignments g)"
    and "length (reg_peers g) \<le> max_peers (reg_limits g)"
    and "length (reg_relays g) \<le> max_relays (reg_limits g)"
    and "\<And>k peer. om_lookup (reg_peers g) k = Some peer \<Longrightarrow> peer_entry_ok H (reg_limits g) k peer"
    and "\<And>i relay. om_lookup (reg_relays g) i = Some relay \<Longrightarrow> relay_entry_ok i relay"
    and "\<And>k queue. om_lookup (reg_assignments g) k = Some queue \<Longrightarrow> queue_entry_ok H g k queue"
  shows "registry_ok H g"
  using assms by (auto simp: registry_ok_def om_lookup_iff)

lemma queue_entry_ok_mono:
  assumes "queue_entry_ok H g k queue" "set queue' \<subseteq> set queue" "length queue' \<le> length queue"
    and "reg_limits g' = reg_limits g" "om_contains (reg_peers g') k"
    and "\<And>q. q \<in> set queue' \<Longrightarrow> om_contains (reg_relays g) (rt_relay_id (qa_assignment q)) \<Longrightarrow>
      om_contains (reg_relays g') (rt_relay_id (qa_assignment q))"
  shows "queue_entry_ok H g' k queue'"
proof -
  have "length queue' \<le> max_assignments_per_peer (reg_limits g')"
    using assms(1,3,4) by (simp add: queue_entry_ok_def)
  moreover have "let a = qa_assignment q in
      rt_provider_id a = k \<and> k = peer_id_from_public_key H (rt_provider_public_key a)
      \<and> om_contains (reg_relays g') (rt_relay_id a) \<and> assignment_ok a" if "q \<in> set queue'" for q
    using assms(1,2) assms(6) [OF that] that unfolding queue_entry_ok_def Let_def by blast
  ultimately show ?thesis using assms(5) by (auto simp: queue_entry_ok_def)
qed

section \<open>Expiry keeps the invariant\<close>

lemma purge_fields [simp]:
  "reg_lease_ms (registry_purge now g) = reg_lease_ms g"
  "reg_limits (registry_purge now g) = reg_limits g"
  "reg_next_route (registry_purge now g) = reg_next_route g"
  "reg_peers (registry_purge now g) = purge_peers now (reg_peers g)"
  "reg_relays (registry_purge now g) = purge_relays now (reg_relays g)"
  by (simp_all add: registry_purge_def Let_def)

lemma purge_peers_lookup:
  "om_ok m \<Longrightarrow> om_lookup (purge_peers now m) k = Some peer \<longleftrightarrow>
    om_lookup m k = Some peer \<and> now < pl_expires_at peer"
  by (auto simp: purge_peers_def om_lookup_retain split: option.splits if_splits)

lemma purge_relays_lookup:
  "om_ok m \<Longrightarrow> om_lookup (purge_relays now m) k = Some relay \<longleftrightarrow>
    om_lookup m k = Some relay \<and> now < rl_expires_at relay"
  by (auto simp: purge_relays_def om_lookup_retain split: option.splits if_splits)

lemma purge_assignments_lookup:
  "om_ok (reg_assignments g) \<Longrightarrow> om_lookup (reg_assignments (registry_purge now g)) k = Some queue \<longleftrightarrow>
   om_contains (purge_peers now (reg_peers g)) k \<and> queue \<noteq> []
   \<and> (\<exists>queue'. om_lookup (reg_assignments g) k = Some queue'
        \<and> queue = filter (assignment_live now (purge_relays now (reg_relays g))) queue')"
  by (auto simp: registry_purge_def Let_def purge_assignments_def om_lookup_filter_map bind_eq_Some_conv)

lemma registry_purge_ok:
  assumes "registry_ok H g" shows "registry_ok H (registry_purge now g)"
proof (rule registry_okI)
  note ok = registry_okD [OF assms]
  show "om_ok (reg_assignments (registry_purge now g))"
    using ok(3) by (simp add: registry_purge_def Let_def purge_assignments_def om_filter_map_ok)
  show "length (reg_peers (registry_purge now g)) \<le> max_peers (reg_limits (registry_purge now g))"
    using ok(4) by (auto simp: purge_peers_def intro: le_trans [OF om.size_retain])
  show "length (reg_relays (registry_purge now g)) \<le> max_relays (reg_limits (registry_purge now g))"
    using ok(5) by (auto simp: purge_relays_def intro: le_trans [OF om.size_retain])
  show "queue_entry_ok H (registry_purge now g) k queue"
    if "om_lookup (reg_assignments (registry_purge now g)) k = Some queue" for k queue
  proof -
    obtain q where q: "om_lookup (reg_assignments g) k = Some q"
      "queue = filter (assignment_live now (purge_relays now (reg_relays g))) q"
      "om_contains (purge_peers now (reg_peers g)) k"
      using \<open>om_lookup (reg_assignments (registry_purge now g)) k = Some queue\<close> purge_assignments_lookup [OF ok(3)] by blast
    show ?thesis
      by (rule queue_entry_ok_mono [OF ok(8) [OF q(1)]]) (auto simp: q assignment_live_def)
  qed
qed (use registry_okD [OF assms] in \<open>auto simp: purge_peers_lookup purge_relays_lookup,
    auto simp: purge_peers_def purge_relays_def om_retain_ok\<close>)

section \<open>Operations keep the invariant\<close>

lemma registry_ok_set_peers:
  assumes ok: "registry_ok H g" and entry: "peer_entry_ok H (reg_limits g) k peer"
    and room: "om_contains (reg_peers g) k \<or> length (reg_peers g) < max_peers (reg_limits g)"
  shows "registry_ok H (g\<lparr>reg_peers := om_insert k peer (reg_peers g)\<rparr>)"
proof (rule registry_okI)
  note d = registry_okD [OF ok]
  let ?g = "g\<lparr>reg_peers := om_insert k peer (reg_peers g)\<rparr>"
  show "length (reg_peers ?g) \<le> max_peers (reg_limits ?g)"
    using om.size_insert_bound [OF d(1,4)] room by (simp add: om_contains_def)
  show "peer_entry_ok H (reg_limits ?g) k' l" if "om_lookup (reg_peers ?g) k' = Some l" for k' l
    using that d(6) entry by (auto simp: om_lookup_insert split: if_splits)
  show "queue_entry_ok H ?g k' queue" if "om_lookup (reg_assignments ?g) k' = Some queue" for k' queue
  proof -
    have q: "queue_entry_ok H g k' queue" using that d(8) by simp
    show ?thesis
      by (rule queue_entry_ok_mono [OF q])
        (use q in \<open>auto simp: om_contains_iff om_lookup_insert queue_entry_ok_def\<close>)
  qed
qed (use registry_okD [OF ok] in \<open>auto simp: om_insert_ok\<close>)

lemma registry_ok_set_relays:
  assumes ok: "registry_ok H g" and entry: "relay_entry_ok k relay"
    and room: "om_contains (reg_relays g) k \<or> length (reg_relays g) < max_relays (reg_limits g)"
  shows "registry_ok H (g\<lparr>reg_relays := om_insert k relay (reg_relays g)\<rparr>)"
proof (rule registry_okI)
  note d = registry_okD [OF ok]
  let ?g = "g\<lparr>reg_relays := om_insert k relay (reg_relays g)\<rparr>"
  show "length (reg_relays ?g) \<le> max_relays (reg_limits ?g)"
    using om.size_insert_bound [OF d(2,5)] room by (simp add: om_contains_def)
  show "relay_entry_ok k' l" if "om_lookup (reg_relays ?g) k' = Some l" for k' l
    using that d(7) entry by (auto simp: om_lookup_insert split: if_splits)
  show "queue_entry_ok H ?g k' queue" if "om_lookup (reg_assignments ?g) k' = Some queue" for k' queue
  proof -
    have q: "queue_entry_ok H g k' queue" using that d(8) by simp
    show ?thesis
      by (rule queue_entry_ok_mono [OF q])
        (use q in \<open>auto simp: om_contains_iff om_lookup_insert queue_entry_ok_def\<close>)
  qed
qed (use registry_okD [OF ok] in \<open>auto simp: om_insert_ok\<close>)

lemma registry_ok_set_queue:
  assumes ok: "registry_ok H g" and entry: "queue_entry_ok H g k queue"
  shows "registry_ok H (g\<lparr>reg_next_route := n, reg_assignments := om_insert k queue (reg_assignments g)\<rparr>)"
proof (rule registry_okI)
  note d = registry_okD [OF ok]
  let ?g = "g\<lparr>reg_next_route := n, reg_assignments := om_insert k queue (reg_assignments g)\<rparr>"
  show "queue_entry_ok H ?g k' q" if "om_lookup (reg_assignments ?g) k' = Some q" for k' q
  proof -
    have q: "queue_entry_ok H g k' q" using that d(8) entry by (auto simp: om_lookup_insert split: if_splits)
    show ?thesis by (rule queue_entry_ok_mono [OF q]) (use q in \<open>auto simp: queue_entry_ok_def\<close>)
  qed
qed (use registry_okD [OF ok] in \<open>auto simp: om_insert_ok\<close>)

lemma registry_register_peer_ok:
  assumes "registry_ok H g" shows "registry_ok H (snd (registry_register_peer H now ad g))"
proof -
  let ?g = "registry_purge now g"
  have p: "registry_ok H ?g" using assms by (rule registry_purge_ok)
  show ?thesis
  proof (cases "snd (registry_register_peer H now ad g) = g
      \<or> snd (registry_register_peer H now ad g) = ?g")
    case False
    then have g': "snd (registry_register_peer H now ad g) = ?g\<lparr>reg_peers := om_insert (ad_peer_id ad)
        \<lparr>pl_advertisement = ad, pl_expires_at = lease_until now ?g\<rparr> (reg_peers ?g)\<rparr>"
      and c: "ad_peer_id ad = peer_id_from_public_key H (ad_public_key ad)" "ad_content_ids ad \<noteq> []"
        "length (ad_content_ids ad) \<le> max_content_ids_per_peer (reg_limits g)"
        "distinct (ad_content_ids ad)"
        "om_contains (reg_peers ?g) (ad_peer_id ad) \<or> length (reg_peers ?g) < max_peers (reg_limits ?g)"
      by (auto simp: registry_register_peer_def Let_def not_le length_remdups_eq split: if_splits)
    show ?thesis
      unfolding g' by (rule registry_ok_set_peers [OF p _ c(5)]) (use c in \<open>simp add: peer_entry_ok_def\<close>)
  qed (use assms p in auto)
qed

lemma registry_heartbeat_peer_ok:
  assumes "registry_ok H g" shows "registry_ok H (snd (registry_heartbeat_peer now k g))"
proof (cases "om_lookup (reg_peers (registry_purge now g)) k")
  case None
  then show ?thesis
    using registry_purge_ok [OF assms] by (simp add: registry_heartbeat_peer_def Let_def)
next
  case (Some peer)
  note p = registry_purge_ok [OF assms, of now]
  have "peer_entry_ok H (reg_limits (registry_purge now g)) k (peer\<lparr>pl_expires_at := t\<rparr>)" for t
    using registry_okD(6) [OF p Some] by (simp add: peer_entry_ok_def)
  then show ?thesis
    using Some registry_ok_set_peers [OF p] by (simp add: registry_heartbeat_peer_def Let_def om_contains_iff)
qed

lemma validate_relay_id_iff: "validate_relay_id i = Inr () \<longleftrightarrow> valid_identifier i 64"
  by (auto simp: validate_relay_id_def valid_identifier_def)

lemma registry_register_relay_ok:
  assumes "registry_ok H g" "length (ra_address ad) \<le> 128" "utf8 (ra_address ad)"
  shows "registry_ok H (snd (registry_register_relay now ad g))"
proof -
  let ?g = "registry_purge now g"
  have p: "registry_ok H ?g" using assms(1) by (rule registry_purge_ok)
  show ?thesis
  proof (cases "snd (registry_register_relay now ad g) = g
      \<or> snd (registry_register_relay now ad g) = ?g")
    case False
    then have g': "snd (registry_register_relay now ad g) = ?g\<lparr>reg_relays := om_insert (ra_relay_id ad)
        \<lparr>rl_advertisement = ad, rl_expires_at = lease_until now ?g\<rparr> (reg_relays ?g)\<rparr>"
      and c: "validate_relay_id (ra_relay_id ad) = Inr ()" "socket_addr_ok (ra_address ad)"
        "om_contains (reg_relays ?g) (ra_relay_id ad) \<or> length (reg_relays ?g) < max_relays (reg_limits ?g)"
      by (auto simp: registry_register_relay_def Let_def not_le split: if_splits sum.splits)
    show ?thesis
      unfolding g' by (rule registry_ok_set_relays [OF p _ c(3)])
        (use c assms in \<open>simp add: relay_entry_ok_def relay_ad_ok_def validate_relay_id_iff\<close>)
  qed (use assms p in auto)
qed

lemma registry_heartbeat_relay_ok:
  assumes "registry_ok H g" shows "registry_ok H (snd (registry_heartbeat_relay now k g))"
proof (cases "om_lookup (reg_relays (registry_purge now g)) k")
  case None
  then show ?thesis
    using registry_purge_ok [OF assms] by (simp add: registry_heartbeat_relay_def Let_def)
next
  case (Some relay)
  note p = registry_purge_ok [OF assms, of now]
  have "relay_entry_ok k (relay\<lparr>rl_expires_at := t\<rparr>)" for t
    using registry_okD(7) [OF p Some] by (simp add: relay_entry_ok_def)
  then show ?thesis
    using Some registry_ok_set_relays [OF p] by (simp add: registry_heartbeat_relay_def Let_def om_contains_iff)
qed

section \<open>Route names\<close>

lemma hex_digit_of_cases: "d < 16 \<Longrightarrow> is_ascii_alphanumeric (hex_digit_of d)"
proof -
  have "list_all is_ascii_alphanumeric (ascii ''0123456789abcdef'')"
    by (simp add: ascii_def is_ascii_alphanumeric_def)
  then show "d < 16 \<Longrightarrow> is_ascii_alphanumeric (hex_digit_of d)"
    by (simp add: hex_digit_of_def list_all_length ascii_def)
qed

lemma hex_digit_of_inject: "d < 16 \<Longrightarrow> e < 16 \<Longrightarrow> hex_digit_of d = hex_digit_of e \<longleftrightarrow> d = e"
proof -
  have "distinct (ascii ''0123456789abcdef'')" "length (ascii ''0123456789abcdef'') = 16"
    by (simp_all add: ascii_def)
  then show "d < 16 \<Longrightarrow> e < 16 \<Longrightarrow> hex_digit_of d = hex_digit_of e \<longleftrightarrow> d = e"
    unfolding hex_digit_of_def by (metis nth_eq_iff_index_eq)
qed

lemma digits_inject:
  fixes x y :: nat
  shows "\<forall>i < n. x div 16 ^ i mod 16 = y div 16 ^ i mod 16 \<Longrightarrow> x < 16 ^ n \<Longrightarrow> y < 16 ^ n \<Longrightarrow> x = y"
proof (induction n arbitrary: x y)
  case (Suc n)
  have "\<forall>i < n. x div 16 div 16 ^ i mod 16 = y div 16 div 16 ^ i mod 16"
    using Suc.prems(1) by (simp add: div_mult2_eq [symmetric] flip: power_Suc)
  moreover have "x div 16 < 16 ^ n" "y div 16 < 16 ^ n" using Suc.prems(2,3) by auto
  ultimately have "x div 16 = y div 16" by (rule Suc.IH)
  moreover have "x mod 16 = y mod 16" using Suc.prems(1) by (auto dest: spec [of _ 0])
  ultimately show ?case by (metis div_mult_mod_eq)
qed simp

lemma format_016x_length [simp]: "length (format_016x n) = 16"
  by (simp add: format_016x_def)

lemma format_016x_alnum: "list_all is_ascii_alphanumeric (format_016x n)"
  by (simp add: format_016x_def list_all_iff hex_digit_of_cases)

lemma format_016x_inject: "format_016x m = format_016x n \<longleftrightarrow> m = n"
proof
  assume "format_016x m = format_016x n"
  then have "\<forall>i < 16. unat m div 16 ^ i mod 16 = unat n div 16 ^ i mod 16"
    by (simp add: format_016x_def hex_digit_of_inject)
  moreover have "unat m < 16 ^ 16" "unat n < 16 ^ 16"
    using unat_lt_u64 [of m] unat_lt_u64 [of n] by (simp_all add: u64_max_def)
  ultimately have "unat m = unat n" by (rule digits_inject)
  then show "m = n" by (rule unsigned_word_eqI)
qed simp

lemma route_valid:
  assumes "prefix = ascii ''m2'' \<or> prefix = ascii ''m4''"
  shows "valid_identifier (prefix @ ascii ''-'' @ format_016x n) 128"
proof -
  have "list_all (\<lambda>b. is_ascii_alphanumeric b \<or> b = 45 \<or> b = 95) (format_016x n)"
    using format_016x_alnum by (rule list.pred_mono_strong) simp
  then show ?thesis using assms by (auto simp: valid_identifier_def ascii_def is_ascii_alphanumeric_def)
qed

section \<open>Assignments keep the invariant\<close>

text \<open>The queue that \<open>entry(..).or_default()\<close> finds.\<close>

definition queue_of :: "registry \<Rightarrow> peer_id \<Rightarrow> queued_assignment list" where
  "queue_of g k = (case om_lookup (reg_assignments g) k of None \<Rightarrow> [] | Some queue \<Rightarrow> queue)"

definition new_assignment ::
  "peer_advertisement \<Rightarrow> relay_advertisement \<Rightarrow> str \<Rightarrow> u64 \<Rightarrow> route_assignment" where
  "new_assignment provider relay prefix n =
    \<lparr>rt_provider_id = ad_peer_id provider, rt_provider_public_key = ad_public_key provider,
     rt_relay_id = ra_relay_id relay, rt_relay_address = ra_address relay,
     rt_route = prefix @ ascii ''-'' @ format_016x n\<rparr>"

lemma queue_assignment_eq:
  "queue_assignment now provider relay prefix g =
    (let k = ad_peer_id provider; queue = queue_of g k in
     if max_assignments_per_peer (reg_limits g) \<le> length queue
     then (None, g\<lparr>reg_next_route := reg_next_route g,
             reg_assignments := om_insert k queue (reg_assignments g)\<rparr>)
     else let a = new_assignment provider relay prefix (reg_next_route g + 1) in
       (Some a, g\<lparr>reg_next_route := reg_next_route g + 1, reg_assignments := om_insert k
          (queue @ [\<lparr>qa_assignment = a, qa_expires_at = lease_until now g\<rparr>]) (reg_assignments g)\<rparr>))"
  by (simp add: queue_assignment_def queue_of_def new_assignment_def Let_def)

definition leased_peer :: "registry \<Rightarrow> peer_advertisement \<Rightarrow> bool" where
  "leased_peer g ad \<longleftrightarrow> (\<exists>peer. om_lookup (reg_peers g) (ad_peer_id ad) = Some peer \<and> pl_advertisement peer = ad)"

definition leased_relay :: "registry \<Rightarrow> relay_advertisement \<Rightarrow> bool" where
  "leased_relay g ad \<longleftrightarrow> (\<exists>relay. om_lookup (reg_relays g) (ra_relay_id ad) = Some relay \<and> rl_advertisement relay = ad)"

lemma new_assignment_ok:
  assumes "registry_ok H g" "leased_relay g relay" "prefix = ascii ''m2'' \<or> prefix = ascii ''m4''"
  shows "assignment_ok (new_assignment provider relay prefix n)"
proof -
  have "relay_ad_ok relay"
    using assms registry_okD(7) [OF assms(1)] by (auto simp: leased_relay_def relay_entry_ok_def)
  then show ?thesis
    using route_valid [OF assms(3)]
    by (auto simp: assignment_ok_def validate_assignment_def new_assignment_def relay_ad_ok_def)
qed

lemma queue_of_ok: "registry_ok H g \<Longrightarrow> om_contains (reg_peers g) k \<Longrightarrow> queue_entry_ok H g k (queue_of g k)"
  by (auto simp: queue_of_def queue_entry_ok_def [of _ _ _ "[]"] dest: registry_okD(8) split: option.splits)

lemma queue_assignment_ok:
  assumes ok: "registry_ok H g" and p: "leased_peer g provider" and r: "leased_relay g relay"
    and pre: "prefix = ascii ''m2'' \<or> prefix = ascii ''m4''"
  shows "registry_ok H (snd (queue_assignment now provider relay prefix g))"
proof -
  let ?k = "ad_peer_id provider"
  have c: "om_contains (reg_peers g) ?k" "om_contains (reg_relays g) (ra_relay_id relay)"
    using p r by (auto simp: leased_peer_def leased_relay_def om_contains_iff)
  have key: "?k = peer_id_from_public_key H (ad_public_key provider)"
    using p registry_okD(6) [OF ok] by (auto simp: leased_peer_def peer_entry_ok_def Let_def)
  note q = queue_of_ok [OF ok c(1)]
  let ?a = "new_assignment provider relay prefix (reg_next_route g + 1)"
  have "queue_entry_ok H g ?k (queue_of g ?k @ [\<lparr>qa_assignment = ?a, qa_expires_at = t\<rparr>])"
    if "length (queue_of g ?k) < max_assignments_per_peer (reg_limits g)" for t
    using q that c key new_assignment_ok [OF ok r pre]
    by (auto simp: queue_entry_ok_def Let_def) (simp_all add: new_assignment_def)
  then show ?thesis
    using registry_ok_set_queue [OF ok] registry_ok_set_queue [OF ok q, of "reg_next_route g"]
    by (simp add: queue_assignment_eq Let_def)
qed

lemma queue_assignment_frame:
  "reg_peers (snd (queue_assignment now p r x g)) = reg_peers g"
  "reg_relays (snd (queue_assignment now p r x g)) = reg_relays g"
  "reg_limits (snd (queue_assignment now p r x g)) = reg_limits g"
  "reg_lease_ms (snd (queue_assignment now p r x g)) = reg_lease_ms g"
  by (simp_all add: queue_assignment_eq Let_def)

lemma leased_frame:
  "leased_peer (snd (queue_assignment now p r x g)) = leased_peer g"
  "leased_relay (snd (queue_assignment now p r x g)) = leased_relay g"
  by (rule ext, simp add: leased_peer_def leased_relay_def queue_assignment_frame)+

end
