(* ===== verification/Bootstrap.thy ===== *)
theory Bootstrap
  imports Registry
begin

text \<open>
  What the bootstrap registry promises: discovery, polling and failure reports keep its invariant
  and deliver assignments; then the TCP service around it, the client, and the simulation
  harness of \<open>triptorrent-overlay/src/lib.rs\<close>.
\<close>

section \<open>Discovery\<close>

lemma peers_leased:
  assumes "registry_ok H g" "peer \<in> set (map snd (reg_peers g))"
  shows "leased_peer g (pl_advertisement peer)"
proof -
  obtain k where k: "om_lookup (reg_peers g) k = Some peer"
    using assms registry_okD(1) [OF assms(1)] by (auto simp: om_lookup_iff)
  then have "ad_peer_id (pl_advertisement peer) = k"
    using registry_okD(6) [OF assms(1)] by (auto simp: peer_entry_ok_def Let_def)
  then show ?thesis using k by (auto simp: leased_peer_def)
qed

lemma relays_leased:
  assumes "registry_ok H g" "relay \<in> set (map snd (reg_relays g))"
  shows "leased_relay g (rl_advertisement relay)"
proof -
  obtain k where k: "om_lookup (reg_relays g) k = Some relay"
    using assms registry_okD(2) [OF assms(1)] by (auto simp: om_lookup_iff)
  then have "ra_relay_id (rl_advertisement relay) = k"
    using registry_okD(7) [OF assms(1)] by (auto simp: relay_entry_ok_def)
  then show ?thesis using k by (auto simp: leased_relay_def)
qed

lemma find_SomeD: "find P xs = Some x \<Longrightarrow> x \<in> set xs \<and> P x"
  by (auto simp: find_Some_iff)

text \<open>What \<open>discover\<close> does once expired entries are gone.\<close>

lemma registry_discover_cases:
  assumes "registry_ok H g"
  obtains (none) "registry_discover now c g = (None, registry_purge now g)"
    and "(\<forall>peer \<in> set (map snd (reg_peers (registry_purge now g))).
          c \<notin> set (ad_content_ids (pl_advertisement peer)))
        \<or> reg_relays (registry_purge now g) = []"
  | (queued) peer relay
    where "registry_discover now c g = queue_assignment now (pl_advertisement peer)
        (rl_advertisement relay) (ascii ''m2'') (registry_purge now g)"
    and "peer \<in> set (map snd (reg_peers (registry_purge now g)))"
    and "c \<in> set (ad_content_ids (pl_advertisement peer))"
    and "relay \<in> set (map snd (reg_relays (registry_purge now g)))"
proof (cases "find (\<lambda>peer. c \<in> set (ad_content_ids (pl_advertisement peer)))
      (map snd (reg_peers (registry_purge now g)))")
  case None
  show ?thesis
  proof (rule none)
    show "registry_discover now c g = (None, registry_purge now g)"
      unfolding registry_discover_def Let_def None by simp
  qed (use None in \<open>auto simp: find_None_iff\<close>)
next
  case (Some peer)
  show ?thesis
  proof (cases "map snd (reg_relays (registry_purge now g))")
    case Nil
    then show ?thesis using none Some by (simp add: registry_discover_def Let_def)
  next
    case (Cons relay relays)
    show ?thesis
    proof (rule queued)
      show "registry_discover now c g = queue_assignment now (pl_advertisement peer)
        (rl_advertisement relay) (ascii ''m2'') (registry_purge now g)"
        using Some Cons by (simp add: registry_discover_def Let_def)
      show "relay \<in> set (map snd (reg_relays (registry_purge now g)))"
        unfolding Cons by simp
    qed (use find_SomeD [OF Some] in auto)
  qed
qed

lemma registry_discover_ok:
  assumes "registry_ok H g" shows "registry_ok H (snd (registry_discover now c g))"
proof -
  note p = registry_purge_ok [OF assms, of now]
  show ?thesis
  proof (cases rule: registry_discover_cases [OF assms, of now c])
    case 1
    then show ?thesis using p by simp
  next
    case (2 peer relay)
    then show ?thesis
      using queue_assignment_ok [OF p peers_leased [OF p] relays_leased [OF p]] by simp
  qed
qed

lemma queue_of_queue_assignment:
  "queue_of (snd (queue_assignment now p r x g)) k =
    queue_of g k @ (case fst (queue_assignment now p r x g) of
        Some a \<Rightarrow> if k = ad_peer_id p then [\<lparr>qa_assignment = a, qa_expires_at = lease_until now g\<rparr>] else []
      | None \<Rightarrow> [])"
proof -
  have ins: "queue_of (g\<lparr>reg_next_route := n, reg_assignments := om_insert k' q (reg_assignments g)\<rparr>) k =
      (if k = k' then q else queue_of g k)"
    "queue_of (g\<lparr>reg_assignments := om_insert k' q (reg_assignments g)\<rparr>) k =
      (if k = k' then q else queue_of g k)" for n k' q
    by (simp_all add: queue_of_def om_lookup_insert)
  show ?thesis by (simp add: queue_assignment_eq Let_def ins)
qed

lemma fst_queue_assignment:
  "fst (queue_assignment now p r x g) =
    (if length (queue_of g (ad_peer_id p)) < max_assignments_per_peer (reg_limits g)
     then Some (new_assignment p r x (reg_next_route g + 1)) else None)"
  by (auto simp: queue_assignment_eq Let_def)

lemma next_route_queue_assignment:
  "reg_next_route (snd (queue_assignment now p r x g)) =
    (if fst (queue_assignment now p r x g) = None then reg_next_route g else reg_next_route g + 1)"
  by (auto simp: queue_assignment_eq Let_def)

lemma queue_each_Cons:
  "queue_each now relays i (p # ps) g =
    (let q = queue_assignment now p (relays ! (i mod length relays)) (ascii ''m4'') g;
         rest = queue_each now relays (Suc i) ps (snd q) in
     ((case fst q of None \<Rightarrow> fst rest | Some a \<Rightarrow> a # fst rest), snd rest))"
  by (simp add: Let_def case_prod_beta)

declare queue_each.simps(2) [simp del]

lemma queue_each_frame:
  "reg_peers (snd (queue_each now relays i ps g)) = reg_peers g"
  "reg_relays (snd (queue_each now relays i ps g)) = reg_relays g"
  "reg_limits (snd (queue_each now relays i ps g)) = reg_limits g"
  "reg_lease_ms (snd (queue_each now relays i ps g)) = reg_lease_ms g"
  by (induction ps arbitrary: i g) (simp_all add: queue_each_Cons Let_def queue_assignment_frame)

lemma queue_each_ok:
  assumes "registry_ok H g" "relays \<noteq> []" "\<forall>r \<in> set relays. leased_relay g r"
    and "\<forall>p \<in> set ps. leased_peer g p"
  shows "registry_ok H (snd (queue_each now relays i ps g))"
  using assms
proof (induction ps arbitrary: i g)
  case (Cons p ps)
  let ?r = "relays ! (i mod length relays)"
  have "leased_relay g ?r" using Cons.prems(2,3) by simp
  then have "registry_ok H (snd (queue_assignment now p ?r (ascii ''m4'') g))"
    using queue_assignment_ok [OF Cons.prems(1)] Cons.prems(4) by simp
  then show ?case
    using Cons.IH Cons.prems(2-4) by (simp add: queue_each_Cons Let_def leased_frame)
qed simp

lemma queue_each_assignments:
  assumes "relays \<noteq> []" "a \<in> set (fst (queue_each now relays i ps g))"
  shows "\<exists>p \<in> set ps. \<exists>r \<in> set relays. \<exists>n. a = new_assignment p r (ascii ''m4'') n"
  using assms(2)
proof (induction ps arbitrary: i g)
  case (Cons p ps)
  have "relays ! (i mod length relays) \<in> set relays" using assms(1) by simp
  then show ?case
    using Cons by (fastforce simp: queue_each_Cons Let_def fst_queue_assignment split: if_splits)
qed simp

lemma queue_each_providers:
  assumes "distinct (map ad_peer_id ps)"
  shows "map rt_provider_id (fst (queue_each now relays i ps g)) =
    filter (\<lambda>k. length (queue_of g k) < max_assignments_per_peer (reg_limits g)) (map ad_peer_id ps)"
  using assms
proof (induction ps arbitrary: i g)
  case (Cons p ps)
  let ?q = "queue_assignment now p (relays ! (i mod length relays)) (ascii ''m4'') g"
  have other: "queue_of (snd ?q) k = queue_of g k" if "k \<in> set (map ad_peer_id ps)" for k
  proof -
    have "k \<noteq> ad_peer_id p" using Cons.prems that by (metis distinct.simps(2) list.simps(9))
    then show ?thesis by (simp add: queue_of_queue_assignment split: option.split)
  qed
  have "map rt_provider_id (fst (queue_each now relays (Suc i) ps (snd ?q))) =
      filter (\<lambda>k. length (queue_of g k) < max_assignments_per_peer (reg_limits g)) (map ad_peer_id ps)"
    using Cons other by (auto simp: queue_assignment_frame intro!: filter_cong)
  then show ?case
    by (auto simp: queue_each_Cons Let_def fst_queue_assignment new_assignment_def)
qed simp

lemma queue_each_routes:
  "map rt_route (fst (queue_each now relays i ps g)) =
    map (\<lambda>j. ascii ''m4'' @ ascii ''-'' @ format_016x (reg_next_route g + of_nat (Suc j)))
      [0..<length (fst (queue_each now relays i ps g))]"
proof (induction ps arbitrary: i g)
  case (Cons p ps)
  let ?q = "queue_assignment now p (relays ! (i mod length relays)) (ascii ''m4'') g"
  show ?case
  proof (cases "fst ?q")
    case None
    then show ?thesis
      using Cons [of "Suc i" "snd ?q"] by (simp add: queue_each_Cons Let_def next_route_queue_assignment)
  next
    case (Some a)
    then have "a = new_assignment p (relays ! (i mod length relays)) (ascii ''m4'') (reg_next_route g + 1)"
      by (simp add: fst_queue_assignment split: if_splits)
    then show ?thesis
      using Some Cons [of "Suc i" "snd ?q"]
      by (simp add: queue_each_Cons Let_def next_route_queue_assignment new_assignment_def
          upt_conv_Cons map_Suc_upt [symmetric] add.assoc del: upt_Suc)
  qed
qed simp

lemma swarm_providers_mem:
  assumes "registry_ok H g" "p \<in> set (swarm_providers c limit g)"
  shows "leased_peer g p" "c \<in> set (ad_content_ids p)" "SwarmTransferV1 \<in> set (ad_capabilities p)"
proof -
  obtain peer where "peer \<in> set (map snd (reg_peers g))" "p = pl_advertisement peer"
    "c \<in> set (ad_content_ids p)" "SwarmTransferV1 \<in> set (ad_capabilities p)"
    using assms(2) by (force simp: swarm_providers_def dest!: in_set_takeD)
  then show "leased_peer g p" "c \<in> set (ad_content_ids p)" "SwarmTransferV1 \<in> set (ad_capabilities p)"
    using peers_leased [OF assms(1)] by auto
qed

lemma swarm_providers_distinct:
  assumes "registry_ok H g" shows "distinct (map ad_peer_id (swarm_providers c limit g))"
proof -
  have "map (\<lambda>x. ad_peer_id (pl_advertisement (snd x))) (reg_peers g) = map fst (reg_peers g)"
    using assms by (auto simp: registry_ok_def peer_entry_ok_def Let_def)
  then have "distinct (map (\<lambda>peer. ad_peer_id (pl_advertisement peer)) (map snd (reg_peers g)))"
    by (simp only: map_map comp_def) (rule om_ok_distinct [OF registry_okD(1) [OF assms]])
  then show ?thesis
    by (simp only: swarm_providers_def map_map comp_def take_map [symmetric])
      (intro distinct_take distinct_map_filter, simp add: comp_def)
qed

lemma registry_discover_providers_ok:
  assumes "registry_ok H g" shows "registry_ok H (snd (registry_discover_providers now c limit g))"
proof -
  note p = registry_purge_ok [OF assms, of now]
  let ?relays = "map (\<lambda>(_, relay). rl_advertisement relay) (reg_relays (registry_purge now g))"
  have "\<forall>r \<in> set ?relays. leased_relay (registry_purge now g) r"
    using relays_leased [OF p] by force
  moreover have "\<forall>r \<in> set (swarm_providers c limit (registry_purge now g)). leased_peer (registry_purge now g) r"
    using swarm_providers_mem(1) [OF p] by blast
  ultimately show ?thesis
    using p queue_each_ok [OF p, of ?relays] unfolding registry_discover_providers_def Let_def by simp
qed

section \<open>Polling and failures\<close>

lemma heartbeat_peer_eq:
  "registry_heartbeat_peer now k g =
    (case om_lookup (purge_peers now (reg_peers g)) k of
       None \<Rightarrow> (False, registry_purge now g)
     | Some peer \<Rightarrow> (True, (registry_purge now g)\<lparr>reg_peers := om_insert k
         (peer\<lparr>pl_expires_at := lease_until now g\<rparr>) (purge_peers now (reg_peers g))\<rparr>))"
  by (simp add: registry_heartbeat_peer_def Let_def lease_until_def split: option.split)

lemma heartbeat_peer_frame:
  "reg_assignments (snd (registry_heartbeat_peer now k g)) = reg_assignments (registry_purge now g)"
  "reg_relays (snd (registry_heartbeat_peer now k g)) = purge_relays now (reg_relays g)"
  "reg_limits (snd (registry_heartbeat_peer now k g)) = reg_limits g"
  "reg_lease_ms (snd (registry_heartbeat_peer now k g)) = reg_lease_ms g"
  by (simp_all add: heartbeat_peer_eq split: option.split)

lemma heartbeat_peer_fst:
  "fst (registry_heartbeat_peer now k g) \<longleftrightarrow> om_contains (purge_peers now (reg_peers g)) k"
  by (simp add: heartbeat_peer_eq om_contains_def split: option.split)

text \<open>After the heartbeat has purged, everything in the queue is live: polling takes its head.\<close>

lemma purged_queue_live:
  "om_ok (reg_assignments g) \<Longrightarrow> q \<in> set (queue_of (registry_purge now g) k) \<Longrightarrow>
   assignment_live now (purge_relays now (reg_relays g)) q"
  by (cases "om_lookup (reg_assignments (registry_purge now g)) k")
    (auto simp: queue_of_def purge_assignments_lookup)

lemma registry_poll_peer_eq:
  assumes "registry_ok H g"
  shows "registry_poll_peer now k g =
    (let g' = snd (registry_heartbeat_peer now k g) in
     if om_contains (purge_peers now (reg_peers g)) k
     then (case queue_of g' k of
        [] \<Rightarrow> (None, g')
      | q # queue \<Rightarrow> (Some (qa_assignment q),
          g'\<lparr>reg_assignments := om_insert k queue (reg_assignments g')\<rparr>))
     else (None, g'))"
proof -
  obtain b g' where h: "registry_heartbeat_peer now k g = (b, g')" by (cases "registry_heartbeat_peer now k g")
  have b: "b \<longleftrightarrow> om_contains (purge_peers now (reg_peers g)) k" using heartbeat_peer_fst [of now k g] h by simp
  have fr: "reg_assignments g' = reg_assignments (registry_purge now g)"
    "reg_relays g' = purge_relays now (reg_relays g)"
    using heartbeat_peer_frame [of now k g] h by simp_all
  have q: "queue_of g' k = queue_of (registry_purge now g) k" by (simp add: queue_of_def fr)
  have live: "assignment_live now (reg_relays g') x" if "x \<in> set (queue_of g' k)" for x
    using that purged_queue_live [OF registry_okD(3) [OF assms]] by (simp add: q fr)
  have ne: "queue \<noteq> []" if "om_lookup (reg_assignments g') k = Some queue" for queue
    using that purge_assignments_lookup [OF registry_okD(3) [OF assms]] by (simp add: fr)
  have "(case om_lookup (reg_assignments g') k of None \<Rightarrow> (None, g')
      | Some queue \<Rightarrow> case poll_queue now (reg_relays g') queue of
          (r, queue) \<Rightarrow> (r, g'\<lparr>reg_assignments := om_insert k queue (reg_assignments g')\<rparr>)) =
    (case queue_of g' k of [] \<Rightarrow> (None, g')
      | q # queue \<Rightarrow> (Some (qa_assignment q), g'\<lparr>reg_assignments := om_insert k queue (reg_assignments g')\<rparr>))"
  proof (cases "om_lookup (reg_assignments g') k")
    case (Some queue)
    then obtain x xs where "queue = x # xs" using ne by (cases queue) auto
    then show ?thesis using Some live [of x] by (simp add: queue_of_def)
  qed (simp add: queue_of_def)
  then show ?thesis by (simp add: registry_poll_peer_def h b Let_def split: bool.split)
qed

lemma registry_poll_peer_ok:
  assumes "registry_ok H g" shows "registry_ok H (snd (registry_poll_peer now k g))"
proof -
  let ?g = "snd (registry_heartbeat_peer now k g)"
  note h = registry_heartbeat_peer_ok [OF assms, of now k]
  have "registry_ok H (?g\<lparr>reg_assignments := om_insert k queue (reg_assignments ?g)\<rparr>)"
    if q: "queue_of ?g k = q # queue" for q queue
  proof -
    have "queue_entry_ok H ?g k (q # queue)"
      using registry_okD(8) [OF h] q by (auto simp: queue_of_def split: option.splits)
    then have "queue_entry_ok H ?g k queue" by (auto simp: queue_entry_ok_def)
    from registry_ok_set_queue [OF h this, of "reg_next_route ?g"] show ?thesis by simp
  qed
  then show ?thesis
    using h by (auto simp: registry_poll_peer_eq [OF assms] Let_def split: list.split)
qed

lemma registry_report_relay_failure_ok:
  assumes "registry_ok H g" shows "registry_ok H (registry_report_relay_failure i g)"
proof (rule registry_okI)
  note d = registry_okD [OF assms]
  let ?g = "registry_report_relay_failure i g"
  show "om_ok (reg_relays ?g)" "om_ok (reg_assignments ?g)"
    using d(2,3) by (simp_all add: registry_report_relay_failure_def om_remove_ok om_map_values_ok)
  show "length (reg_relays ?g) \<le> max_relays (reg_limits ?g)"
    using d(5) om_length_remove [of i "reg_relays g"] by (simp add: registry_report_relay_failure_def)
  show "relay_entry_ok k relay" if "om_lookup (reg_relays ?g) k = Some relay" for k relay
    using that d(2,7) by (auto simp: registry_report_relay_failure_def om_lookup_remove split: if_splits)
  show "queue_entry_ok H ?g k queue" if look: "om_lookup (reg_assignments ?g) k = Some queue" for k queue
  proof -
    obtain q where q: "om_lookup (reg_assignments g) k = Some q"
      "queue = filter (\<lambda>q. rt_relay_id (qa_assignment q) \<noteq> i) q"
      using look
      by (cases "om_lookup (reg_assignments g) k")
        (auto simp: registry_report_relay_failure_def om_lookup_map_values)
    note e = d(8) [OF q(1)]
    have "om_contains (reg_peers g) k" using e by (simp add: queue_entry_ok_def)
    then show ?thesis
      by (intro queue_entry_ok_mono [OF e])
        (auto simp: q registry_report_relay_failure_def om_contains_def om_lookup_remove [OF d(2)])
  qed
qed (use registry_okD [OF assms] in \<open>auto simp: registry_report_relay_failure_def\<close>)

section \<open>Requests\<close>

definition request_valid :: "hash \<Rightarrow> overlay_request \<Rightarrow> bool" where
  "request_valid H q \<longleftrightarrow> validate_overlay_request H q = Inr () \<and> request_strings_utf8 q"

definition response_valid :: "overlay_response \<Rightarrow> bool" where
  "response_valid p \<longleftrightarrow> validate_overlay_response p = Inr () \<and> response_strings_utf8 p"

lemma handle_request_snd:
  "snd (handle_request H now (RegisterPeer ad) g) = snd (registry_register_peer H now ad g)"
  "snd (handle_request H now (HeartbeatPeer k) g) = snd (registry_heartbeat_peer now k g)"
  "snd (handle_request H now (PollPeer k) g) =
    (let h = registry_heartbeat_peer now k g in
     if fst h then snd (registry_poll_peer now k (snd h)) else snd h)"
  "snd (handle_request H now (RegisterRelay ra) g) = snd (registry_register_relay now ra g)"
  "snd (handle_request H now (HeartbeatRelay i) g) = snd (registry_heartbeat_relay now i g)"
  "snd (handle_request H now (Discover c) g) = snd (registry_discover now c g)"
  "snd (handle_request H now (DiscoverProviders c l) g) =
    snd (registry_discover_providers now c (unat (min l 16)) g)"
  "snd (handle_request H now (ReportRelayFailure i) g) = registry_report_relay_failure i g"
  "snd (handle_request H now Health g) = g"
  by (simp_all add: Let_def split: prod.split sum.split bool.split)

lemma handle_request_ok:
  assumes "registry_ok H g" "request_valid H q"
  shows "registry_ok H (snd (handle_request H now q g))"
proof (cases q)
  case (RegisterRelay ra)
  then have "length (ra_address ra) \<le> 128" "utf8 (ra_address ra)"
    using assms(2) by (auto simp: request_valid_def split: if_splits)
  then show ?thesis
    using registry_register_relay_ok [OF assms(1)] by (simp only: RegisterRelay handle_request_snd)
next
  case (PollPeer k)
  then show ?thesis
    using registry_heartbeat_peer_ok [OF assms(1)] registry_poll_peer_ok
    by (simp only: handle_request_snd Let_def split: if_split) blast
qed (simp_all only: handle_request_snd assms registry_register_peer_ok registry_heartbeat_peer_ok
    registry_heartbeat_relay_ok registry_discover_ok registry_discover_providers_ok
    registry_report_relay_failure_ok)

lemma assignment_ok_utf8: "assignment_ok a \<Longrightarrow> assignment_strings_utf8 a"
  by (auto simp: assignment_ok_def assignment_strings_utf8_def validate_assignment_def
      dest: valid_identifier_utf8 split: if_splits)

lemma option_response_valid:
  assumes "\<And>a. r = Some a \<Longrightarrow> assignment_ok a"
  shows "response_valid (Assignment r)" "response_valid (Route r)"
  using assms by (cases r; simp add: response_valid_def assignment_ok_utf8; simp add: assignment_ok_def)+

lemma registry_discover_assignment_ok:
  assumes "registry_ok H g" "fst (registry_discover now c g) = Some a"
  shows "assignment_ok a"
proof (cases rule: registry_discover_cases [OF assms(1), of now c])
  case 1
  then show ?thesis using assms(2) by simp
next
  case (2 peer relay)
  note p = registry_purge_ok [OF assms(1), of now]
  have "a = new_assignment (pl_advertisement peer) (rl_advertisement relay) (ascii ''m2'')
      (reg_next_route (registry_purge now g) + 1)"
    using 2(1) assms(2) by (simp add: fst_queue_assignment split: if_splits)
  then show ?thesis using new_assignment_ok [OF p relays_leased [OF p 2(4)]] by simp
qed

lemma registry_poll_peer_assignment_ok:
  assumes "registry_ok H g" "fst (registry_poll_peer now k g) = Some a"
  shows "assignment_ok a"
proof -
  let ?g = "snd (registry_heartbeat_peer now k g)"
  obtain q queue where q: "queue_of ?g k = q # queue" "a = qa_assignment q"
    using assms(2) by (auto simp: registry_poll_peer_eq [OF assms(1)] Let_def split: if_splits list.splits)
  have "queue_entry_ok H ?g k (q # queue)"
    using registry_okD(8) [OF registry_heartbeat_peer_ok [OF assms(1), of now k]] q
    by (auto simp: queue_of_def split: option.splits)
  then show ?thesis using q(2) by (simp add: queue_entry_ok_def Let_def)
qed

lemma registry_discover_providers_assignments:
  assumes "registry_ok H g" "a \<in> set (fst (registry_discover_providers now c limit g))"
  shows "assignment_ok a"
    and "\<exists>p \<in> set (swarm_providers c limit (registry_purge now g)). \<exists>r n.
      leased_relay (registry_purge now g) r \<and> a = new_assignment p r (ascii ''m4'') n"
proof -
  note p = registry_purge_ok [OF assms(1), of now]
  let ?relays = "map (\<lambda>(_, relay). rl_advertisement relay) (reg_relays (registry_purge now g))"
  have ne: "?relays \<noteq> []"
    and a: "a \<in> set (fst (queue_each now ?relays 0 (swarm_providers c limit (registry_purge now g))
        (registry_purge now g)))"
    using assms(2) unfolding registry_discover_providers_def Let_def by (auto split: if_splits)
  have l: "\<forall>r \<in> set ?relays. leased_relay (registry_purge now g) r"
    using relays_leased [OF p] by force
  from queue_each_assignments [OF ne a] l
  show ex: "\<exists>p \<in> set (swarm_providers c limit (registry_purge now g)). \<exists>r n.
      leased_relay (registry_purge now g) r \<and> a = new_assignment p r (ascii ''m4'') n"
    by blast
  then show "assignment_ok a" using new_assignment_ok [OF p] by blast
qed

lemma registry_discover_providers_length:
  assumes "registry_ok H g"
  shows "length (fst (registry_discover_providers now c limit g)) \<le> limit"
proof -
  note p = registry_purge_ok [OF assms, of now]
  have "length (fst (queue_each now relays 0 (swarm_providers c limit (registry_purge now g))
      (registry_purge now g))) \<le> limit" for relays
    using arg_cong [OF queue_each_providers [OF swarm_providers_distinct [OF p]], of length]
      length_filter_le [of _ "map ad_peer_id (swarm_providers c limit (registry_purge now g))"]
    by (fastforce simp: swarm_providers_def intro: le_trans)
  then show ?thesis unfolding registry_discover_providers_def Let_def by simp
qed

lemma error_text_valid: "response_valid (OverlayErrorMsg (registry_error_to_string e))"
proof -
  have "length (registry_error_to_string e) \<le> MAX_ERROR_TEXT_BYTES"
    by (cases e) (simp_all add: MAX_ERROR_TEXT_BYTES_def ascii_def)
  moreover have "\<forall>b \<in> set (registry_error_to_string e). b < 0x80"
    by (cases e) (simp_all add: ascii_def)
  ultimately show ?thesis by (simp add: response_valid_def utf8_ascii)
qed

lemma lease_text_valid:
  "response_valid (OverlayErrorMsg (ascii ''peer lease is not registered''))"
  "response_valid (OverlayErrorMsg (ascii ''relay lease is not registered''))"
proof -
  have "\<forall>b \<in> set (ascii ''peer lease is not registered''). b < 0x80"
    "\<forall>b \<in> set (ascii ''relay lease is not registered''). b < 0x80"
    by (simp_all add: ascii_def)
  then show "response_valid (OverlayErrorMsg (ascii ''peer lease is not registered''))"
    "response_valid (OverlayErrorMsg (ascii ''relay lease is not registered''))"
    by (auto simp: response_valid_def MAX_ERROR_TEXT_BYTES_def intro!: utf8_ascii)
      (simp_all add: ascii_def)
qed

lemma handle_request_response:
  assumes "registry_ok H g" "request_valid H q"
  shows "response_valid (fst (handle_request H now q g))"
proof (cases q)
  case (RegisterPeer ad)
  then show ?thesis
    by (auto simp: error_text_valid response_valid_def [of "Registered _"] split: prod.split sum.split)
next
  case (HeartbeatPeer k)
  then show ?thesis
    by (auto simp: lease_text_valid response_valid_def [of "Registered _"] split: prod.split bool.split)
next
  case (PollPeer k)
  have "registry_ok H (snd (registry_heartbeat_peer now k g))"
    by (rule registry_heartbeat_peer_ok [OF assms(1)])
  then have "response_valid (Assignment (fst (registry_poll_peer now k (snd (registry_heartbeat_peer now k g)))))"
    using registry_poll_peer_assignment_ok by (intro option_response_valid) blast
  then show ?thesis
    by (auto simp: PollPeer lease_text_valid split: prod.splits bool.split)
next
  case (RegisterRelay ra)
  then show ?thesis
    by (auto simp: error_text_valid response_valid_def [of "Registered _"] split: prod.split sum.split)
next
  case (HeartbeatRelay i)
  then show ?thesis
    by (auto simp: lease_text_valid response_valid_def [of "Registered _"] split: prod.split bool.split)
next
  case (Discover c)
  have "response_valid (Route (fst (registry_discover now c g)))"
    using registry_discover_assignment_ok [OF assms(1)] by (intro option_response_valid) blast
  then show ?thesis by (auto simp: Discover split: prod.splits)
next
  case (DiscoverProviders c l)
  let ?as = "fst (registry_discover_providers now c (unat (min l 16)) g)"
  have "unat (min l 16) \<le> unat (16 :: u16)" using min.cobounded2 [of l 16] by (simp only: word_le_nat_alt)
  then have "length ?as \<le> MAX_DISCOVERY_ROUTES"
    using registry_discover_providers_length [OF assms(1), of now c "unat (min l 16)"]
    by (simp add: MAX_DISCOVERY_ROUTES_def)
  moreover have "\<forall>a \<in> set ?as. assignment_ok a"
    using registry_discover_providers_assignments(1) [OF assms(1)] by blast
  then have "\<forall>a \<in> set ?as. validate_assignment a = Inr ()" "list_all assignment_strings_utf8 ?as"
    using assignment_ok_utf8 by (auto simp: assignment_ok_def list_all_iff)
  ultimately have "response_valid (Routes ?as)"
    by (auto simp: response_valid_def result_iffs)
  then show ?thesis by (auto simp: DiscoverProviders split: prod.splits)
qed (simp_all add: response_valid_def)

section \<open>The service\<close>

definition MAX_CONTROL_FRAME :: nat where
  "MAX_CONTROL_FRAME = 256 * 1024"

definition MAX_CONTROL_CONNECTIONS :: nat where
  "MAX_CONTROL_CONNECTIONS = 256"

interpretation control: frame_channel "write_frame MAX_CONTROL_FRAME" "read_frame MAX_CONTROL_FRAME"
  by (rule frame_channel_write_read) (simp add: MAX_CONTROL_FRAME_def u32_max_def)

datatype overlay_error =
    OverlayIo io_error
  | OverlayProtocol protocol_error
  | ConnectionClosed
  | UnexpectedResponse
  | Remote str
  | StatePoisoned

text \<open>
  \<open>handle_connection\<close> on the bytes the client sends: the answer it writes (or its error) and the
  registry it leaves.  Between the handler and the answer the registry's counts are logged, which
  purges it.  The lock is poisoned only by a handler that panics; none of the calls does.
\<close>

definition handle_connection ::
  "hash \<Rightarrow> u64 \<Rightarrow> u8 list \<Rightarrow> registry \<Rightarrow> (overlay_error + u8 list) \<times> registry" where
  "handle_connection H now stream g =
    (case read_frame MAX_CONTROL_FRAME stream of
       Inl e \<Rightarrow> (Inl (OverlayIo e), g)
     | Inr (None, _) \<Rightarrow> (Inl ConnectionClosed, g)
     | Inr (Some frame, _) \<Rightarrow>
         (case decode_overlay_request H frame of
            Inl e \<Rightarrow> (Inl (OverlayProtocol e), g)
          | Inr request \<Rightarrow>
              (case handle_request H now request g of (response, g) \<Rightarrow>
               case registry_snapshot now g of (_, g) \<Rightarrow>
               (and_then (map_err OverlayProtocol (encode_overlay_response response)) (\<lambda>encoded.
                map_err OverlayIo (write_frame MAX_CONTROL_FRAME encoded)), g))))"

text \<open>
  \<open>serve\<close>: the accept loop counts active handlers and turns connections away at the limit; each
  accepted connection is handled under the registry's lock, at the time its thread read.
\<close>

record bootstrap =
  bs_active :: nat
  bs_registry :: registry

definition bootstrap_new :: "u64 \<Rightarrow> bootstrap" where
  "bootstrap_new lease = \<lparr>bs_active = 0, bs_registry = registry_new lease\<rparr>"

inductive bootstrap_step :: "hash \<Rightarrow> bootstrap \<Rightarrow> bootstrap \<Rightarrow> bool" for H where
  accept: "bs_active b < MAX_CONTROL_CONNECTIONS \<Longrightarrow>
    bootstrap_step H b (b\<lparr>bs_active := bs_active b + 1\<rparr>)"
| reject: "MAX_CONTROL_CONNECTIONS \<le> bs_active b \<Longrightarrow> bootstrap_step H b b"
| handled: "0 < bs_active b \<Longrightarrow>
    bootstrap_step H b (b\<lparr>bs_active := bs_active b - 1,
      bs_registry := snd (handle_connection H now stream (bs_registry b))\<rparr>)"

definition bootstrap_reachable :: "hash \<Rightarrow> u64 \<Rightarrow> bootstrap \<Rightarrow> bool" where
  "bootstrap_reachable H lease b \<longleftrightarrow> (bootstrap_step H)\<^sup>*\<^sup>* (bootstrap_new lease) b"

section \<open>The client\<close>

text \<open>
  \<open>BootstrapClient::request\<close>; \<open>server\<close> maps the bytes sent to the bytes that come back, or to the
  failure of the connection.
\<close>

type_synonym exchange = "u8 list \<Rightarrow> io_error + u8 list"

definition client_request :: "hash \<Rightarrow> exchange \<Rightarrow> overlay_request \<Rightarrow> overlay_error + overlay_response" where
  "client_request H server request =
    and_then (map_err OverlayProtocol (encode_overlay_request H request)) (\<lambda>encoded.
    and_then (map_err OverlayIo (write_frame MAX_CONTROL_FRAME encoded)) (\<lambda>sent.
    and_then (map_err OverlayIo (and_then (server sent) (read_frame MAX_CONTROL_FRAME))) (\<lambda>(frame, _).
    and_then (ok_or frame ConnectionClosed) (\<lambda>response.
    map_err OverlayProtocol (decode_overlay_response response)))))"

fun expect_registered :: "overlay_response \<Rightarrow> overlay_error + u64" where
  "expect_registered (Registered lease) = Inr lease"
| "expect_registered (OverlayErrorMsg message) = Inl (Remote message)"
| "expect_registered _ = Inl UnexpectedResponse"

definition client_register_peer :: "hash \<Rightarrow> exchange \<Rightarrow> peer_advertisement \<Rightarrow> overlay_error + u64" where
  "client_register_peer H server peer =
    and_then (client_request H server (RegisterPeer peer)) expect_registered"

definition client_register_relay :: "hash \<Rightarrow> exchange \<Rightarrow> relay_advertisement \<Rightarrow> overlay_error + u64" where
  "client_register_relay H server relay =
    and_then (client_request H server (RegisterRelay relay)) expect_registered"

definition client_heartbeat_peer :: "hash \<Rightarrow> exchange \<Rightarrow> peer_id \<Rightarrow> overlay_error + u64" where
  "client_heartbeat_peer H server peer_id =
    and_then (client_request H server (HeartbeatPeer peer_id)) expect_registered"

definition client_heartbeat_relay :: "hash \<Rightarrow> exchange \<Rightarrow> str \<Rightarrow> overlay_error + u64" where
  "client_heartbeat_relay H server relay_id =
    and_then (client_request H server (HeartbeatRelay relay_id)) expect_registered"

definition client_poll_peer ::
  "hash \<Rightarrow> exchange \<Rightarrow> peer_id \<Rightarrow> overlay_error + route_assignment option" where
  "client_poll_peer H server peer_id =
    and_then (client_request H server (PollPeer peer_id)) (\<lambda>response. case response of
      Assignment a \<Rightarrow> Inr a
    | OverlayErrorMsg message \<Rightarrow> Inl (Remote message)
    | _ \<Rightarrow> Inl UnexpectedResponse)"

definition client_discover ::
  "hash \<Rightarrow> exchange \<Rightarrow> content_id \<Rightarrow> overlay_error + route_assignment option" where
  "client_discover H server content_id =
    and_then (client_request H server (Discover content_id)) (\<lambda>response. case response of
      Route a \<Rightarrow> Inr a
    | OverlayErrorMsg message \<Rightarrow> Inl (Remote message)
    | _ \<Rightarrow> Inl UnexpectedResponse)"

definition client_discover_providers ::
  "hash \<Rightarrow> exchange \<Rightarrow> content_id \<Rightarrow> u16 \<Rightarrow> overlay_error + route_assignment list" where
  "client_discover_providers H server content_id limit =
    and_then (client_request H server (DiscoverProviders content_id limit)) (\<lambda>response. case response of
      Routes as \<Rightarrow> Inr as
    | OverlayErrorMsg message \<Rightarrow> Inl (Remote message)
    | _ \<Rightarrow> Inl UnexpectedResponse)"

fun expect_acknowledged :: "overlay_response \<Rightarrow> overlay_error + unit" where
  "expect_acknowledged Acknowledged = Inr ()"
| "expect_acknowledged (OverlayErrorMsg message) = Inl (Remote message)"
| "expect_acknowledged _ = Inl UnexpectedResponse"

definition client_report_relay_failure :: "hash \<Rightarrow> exchange \<Rightarrow> str \<Rightarrow> overlay_error + unit" where
  "client_report_relay_failure H server relay_id =
    and_then (client_request H server (ReportRelayFailure relay_id)) expect_acknowledged"

definition client_health :: "hash \<Rightarrow> exchange \<Rightarrow> overlay_error + unit" where
  "client_health H server = and_then (client_request H server Health) expect_acknowledged"

section \<open>The simulation harness\<close>

record simulation =
  sim_now_ms :: u64
  sim_registry :: registry

definition simulation_new :: "u64 \<Rightarrow> simulation" where
  "simulation_new lease = \<lparr>sim_now_ms = 0, sim_registry = registry_new lease\<rparr>"

definition simulation_advance :: "u64 \<Rightarrow> simulation \<Rightarrow> simulation" where
  "simulation_advance ms s = s\<lparr>sim_now_ms := saturating_add_u64 (sim_now_ms s) ms\<rparr>"

definition simulation_register_peer ::
  "hash \<Rightarrow> peer_advertisement \<Rightarrow> simulation \<Rightarrow> (registry_error + unit) \<times> simulation" where
  "simulation_register_peer H ad s =
    (case registry_register_peer H (sim_now_ms s) ad (sim_registry s) of
       (r, g) \<Rightarrow> (r, s\<lparr>sim_registry := g\<rparr>))"

definition simulation_register_relay ::
  "relay_advertisement \<Rightarrow> simulation \<Rightarrow> (registry_error + unit) \<times> simulation" where
  "simulation_register_relay ad s =
    (case registry_register_relay (sim_now_ms s) ad (sim_registry s) of
       (r, g) \<Rightarrow> (r, s\<lparr>sim_registry := g\<rparr>))"

definition simulation_discover :: "content_id \<Rightarrow> simulation \<Rightarrow> route_assignment option \<times> simulation" where
  "simulation_discover c s =
    (case registry_discover (sim_now_ms s) c (sim_registry s) of
       (r, g) \<Rightarrow> (r, s\<lparr>sim_registry := g\<rparr>))"

definition simulation_fail_relay :: "str \<Rightarrow> simulation \<Rightarrow> simulation" where
  "simulation_fail_relay relay_id s =
    s\<lparr>sim_registry := registry_report_relay_failure relay_id (sim_registry s)\<rparr>"

definition simulation_snapshot :: "simulation \<Rightarrow> overlay_snapshot \<times> simulation" where
  "simulation_snapshot s =
    (case registry_snapshot (sim_now_ms s) (sim_registry s) of
       (r, g) \<Rightarrow> (r, s\<lparr>sim_registry := g\<rparr>))"

section \<open>The service keeps the registry well formed\<close>

lemma registry_new_ok: "registry_ok H (registry_new lease)"
  by (simp add: registry_ok_def registry_new_def registry_with_limits_def)

lemma registry_snapshot_snd: "snd (registry_snapshot now g) = registry_purge now g"
  by (simp add: registry_snapshot_def Let_def)

lemma decode_overlay_request_valid: "decode_overlay_request H bytes = Inr q \<Longrightarrow> request_valid H q"
  by (simp add: decode_overlay_request_Inr_iff request_valid_def)

lemma handle_connection_snd:
  "snd (handle_connection H now stream g) = g \<or>
   (\<exists>q. request_valid H q \<and>
     snd (handle_connection H now stream g) = registry_purge now (snd (handle_request H now q g)))"
proof -
  have "snd (handle_connection H now stream g) = g \<or>
     (\<exists>frame q. decode_overlay_request H frame = Inr q \<and>
       snd (handle_connection H now stream g) = registry_purge now (snd (handle_request H now q g)))"
    by (auto simp: handle_connection_def registry_snapshot_snd [symmetric] case_prod_beta
        split: sum.split prod.split option.split)
  then show ?thesis using decode_overlay_request_valid by blast
qed

lemma handle_connection_ok:
  "registry_ok H g \<Longrightarrow> registry_ok H (snd (handle_connection H now stream g))"
  using handle_connection_snd [of H now stream g] by (auto simp: registry_purge_ok handle_request_ok)

lemma handle_request_limits: "reg_limits (snd (handle_request H now q g)) = reg_limits g"
proof (cases q)
  case (RegisterPeer ad)
  then show ?thesis
    unfolding RegisterPeer handle_request_snd by (simp add: registry_register_peer_def Let_def)
next
  case (PollPeer k)
  have "reg_limits (snd (registry_poll_peer now k h)) = reg_limits h" for h
    using heartbeat_peer_frame(3) [of now k h]
    by (auto simp: registry_poll_peer_def split: prod.splits bool.splits option.splits)
  then show ?thesis
    unfolding PollPeer handle_request_snd by (simp add: Let_def heartbeat_peer_frame)
next
  case (RegisterRelay ra)
  then show ?thesis
    unfolding RegisterRelay handle_request_snd
    by (simp add: registry_register_relay_def Let_def split: sum.split)
next
  case (HeartbeatRelay i)
  then show ?thesis
    unfolding HeartbeatRelay handle_request_snd
    by (simp add: registry_heartbeat_relay_def Let_def split: option.split)
next
  case (Discover c)
  then show ?thesis
    unfolding Discover handle_request_snd
    by (simp add: registry_discover_def Let_def queue_assignment_frame split: option.split list.split)
next
  case (DiscoverProviders c l)
  then show ?thesis
    unfolding DiscoverProviders handle_request_snd
    by (simp add: registry_discover_providers_def Let_def queue_each_frame)
qed (simp_all only: handle_request_snd heartbeat_peer_frame registry_report_relay_failure_def, simp)

lemma handle_connection_limits: "reg_limits (snd (handle_connection H now stream g)) = reg_limits g"
  using handle_connection_snd [of H now stream g] handle_request_limits by auto

definition bootstrap_ok :: "hash \<Rightarrow> bootstrap \<Rightarrow> bool" where
  "bootstrap_ok H b \<longleftrightarrow>
    bs_active b \<le> MAX_CONTROL_CONNECTIONS \<and> registry_ok H (bs_registry b)
    \<and> reg_limits (bs_registry b) = registry_limits_default"

lemma bootstrap_step_ok: "bootstrap_step H b b' \<Longrightarrow> bootstrap_ok H b \<Longrightarrow> bootstrap_ok H b'"
  by (induction rule: bootstrap_step.induct)
    (auto simp: bootstrap_ok_def handle_connection_ok handle_connection_limits)

lemma bootstrap_reachable_ok:
  assumes "bootstrap_reachable H lease b" shows "bootstrap_ok H b"
proof -
  have "bootstrap_ok H (bootstrap_new lease)"
    using registry_new_ok [of H lease]
    by (simp add: bootstrap_ok_def bootstrap_new_def registry_new_def registry_with_limits_def)
  with assms show ?thesis
    unfolding bootstrap_reachable_def by (induction rule: rtranclp_induct) (auto intro: bootstrap_step_ok)
qed

lemma routes_queued_bound:
  assumes "registry_ok H g"
  shows "routes_queued (reg_assignments g)
    \<le> max_peers (reg_limits g) * max_assignments_per_peer (reg_limits g)"
proof -
  let ?m = "max_assignments_per_peer (reg_limits g)"
  have q: "\<forall>(k, q) \<in> set (reg_assignments g). length q \<le> ?m \<and> k \<in> fst ` set (reg_peers g)"
  proof (intro ballI, clarify)
    fix k q assume "(k, q) \<in> set (reg_assignments g)"
    then have e: "queue_entry_ok H g k q" using assms by (auto simp: registry_ok_def)
    then obtain peer where "(k, peer) \<in> set (reg_peers g)"
      using om_lookup_iff [OF registry_okD(1) [OF assms]] by (auto simp: queue_entry_ok_def om_contains_iff)
    then show "length q \<le> ?m \<and> k \<in> fst ` set (reg_peers g)" using e by (force simp: queue_entry_ok_def)
  qed
  have "sum_list (map (\<lambda>(_, q). length q) xs) \<le> length xs * ?m"
    if "\<forall>(k, q) \<in> set xs. length q \<le> ?m" for xs :: "(peer_id \<times> queued_assignment list) list"
    using that by (induction xs) auto
  then have "routes_queued (reg_assignments g) \<le> length (reg_assignments g) * ?m"
    unfolding routes_queued_def using q by fastforce
  moreover have "length (reg_assignments g) \<le> max_peers (reg_limits g)"
  proof -
    have "length (reg_assignments g) = card (fst ` set (reg_assignments g))"
      using distinct_card [OF om_ok_distinct [OF registry_okD(3) [OF assms]]] by simp
    also have "\<dots> \<le> card (fst ` set (reg_peers g))" using q by (intro card_mono) auto
    also have "\<dots> \<le> length (reg_peers g)" by (metis card_length length_map list.set_map)
    finally show ?thesis using registry_okD(4) [OF assms] by simp
  qed
  ultimately show ?thesis by (meson le_trans mult_le_mono1)
qed

lemma write_control_frame:
  assumes "length f \<le> MAX_CONTROL_FRAME" obtains bs where "write_frame MAX_CONTROL_FRAME f = Inr bs"
  using assms by (auto simp: write_frame_def u32_try_from_def MAX_CONTROL_FRAME_def u32_max_def)

lemma request_encodes:
  assumes "request_valid H q"
  obtains e bs where "encode_overlay_request H q = Inr e" "decode_overlay_request H e = Inr q"
    "write_frame MAX_CONTROL_FRAME e = Inr bs"
proof -
  let ?e = "header DOMAIN_OVERLAY_REQUEST @ enc_request q"
  have e: "encode_overlay_request H q = Inr ?e" "decode_overlay_request H ?e = Inr q"
    using assms by (simp_all add: request_valid_def encode_overlay_request_eq decode_overlay_request_Inr_iff)
  have "length ?e \<le> MAX_CONTROL_FRAME"
    using request_size [of q] assms validate_request_fits [of H q]
    by (simp add: request_valid_def MAX_CONTROL_FRAME_def MAX_OVERLAY_MESSAGE_BYTES_def)
  then show thesis using write_control_frame that e by metis
qed

lemma response_encodes:
  assumes "response_valid p"
  obtains e bs where "encode_overlay_response p = Inr e" "decode_overlay_response e = Inr p"
    "write_frame MAX_CONTROL_FRAME e = Inr bs"
proof -
  let ?e = "header DOMAIN_OVERLAY_RESPONSE @ enc_response p"
  have e: "encode_overlay_response p = Inr ?e" "decode_overlay_response ?e = Inr p"
    using assms by (simp_all add: response_valid_def encode_overlay_response_eq decode_overlay_response_Inr_iff)
  have "length ?e \<le> MAX_CONTROL_FRAME"
    using response_size [of p] assms validate_response_fits [of p]
    by (simp add: response_valid_def MAX_CONTROL_FRAME_def MAX_OVERLAY_MESSAGE_BYTES_def)
  then show thesis using write_control_frame that e by metis
qed

text \<open>The service as the other end of a client's connection; on an error it closes the stream.\<close>

definition served :: "hash \<Rightarrow> u64 \<Rightarrow> registry \<Rightarrow> exchange" where
  "served H now g sent = Inr (case fst (handle_connection H now sent g) of Inl _ \<Rightarrow> [] | Inr bs \<Rightarrow> bs)"

lemma client_request_served:
  assumes "registry_ok H g" "request_valid H q"
  shows "client_request H (served H now g) q = Inr (fst (handle_request H now q g))"
proof -
  let ?p = "fst (handle_request H now q g)"
  obtain e bs where e: "encode_overlay_request H q = Inr e" "decode_overlay_request H e = Inr q"
    "write_frame MAX_CONTROL_FRAME e = Inr bs"
    using request_encodes [OF assms(2)] by blast
  obtain r rs where r: "encode_overlay_response ?p = Inr r" "decode_overlay_response r = Inr ?p"
    "write_frame MAX_CONTROL_FRAME r = Inr rs"
    using response_encodes [OF handle_request_response [OF assms]] by blast
  have rd: "read_frame MAX_CONTROL_FRAME bs = Inr (Some e, [])" "read_frame MAX_CONTROL_FRAME rs = Inr (Some r, [])"
    using control.read_written [OF e(3), of "[]"] control.read_written [OF r(3), of "[]"] by simp_all
  have "fst (handle_connection H now bs g) = Inr rs"
    by (simp add: handle_connection_def rd e case_prod_beta r)
  then show ?thesis by (simp add: client_request_def e served_def rd r)
qed

lemma queue_of_purge:
  assumes "om_ok (reg_assignments g)"
  shows "queue_of (registry_purge now g) k =
    (if om_contains (purge_peers now (reg_peers g)) k
     then filter (assignment_live now (purge_relays now (reg_relays g))) (queue_of g k) else [])"
proof (cases "om_lookup (reg_assignments (registry_purge now g)) k")
  case None
  have "filter (assignment_live now (purge_relays now (reg_relays g))) (queue_of g k) = []"
    if c: "om_contains (purge_peers now (reg_peers g)) k"
  proof (cases "om_lookup (reg_assignments g) k")
    case (Some q)
    then show ?thesis
      using None c purge_assignments_lookup [OF assms, of now k] by (auto simp: queue_of_def)
  qed (simp add: queue_of_def)
  then show ?thesis using None by (simp add: queue_of_def [of "registry_purge now g"])
next
  case (Some q)
  then show ?thesis
    using purge_assignments_lookup [OF assms, of now k q] by (auto simp: queue_of_def)
qed

lemma routes_queued_purge_le: "routes_queued (reg_assignments (registry_purge now g)) \<le> routes_queued (reg_assignments g)"
proof -
  have "routes_queued (om_filter_map f m) \<le> routes_queued m"
    if "\<And>k v v'. f k v = Some v' \<Longrightarrow> length v' \<le> length v"
    for f and m :: "(peer_id, queued_assignment list) omap"
  proof (induction m)
    case (Cons x m)
    obtain k v where x: "x = (k, v)" by (cases x)
    show ?case
      using Cons that [of k v] by (auto simp: x om_filter_map_Cons routes_queued_def split: option.split)
  qed (simp add: om_filter_map_def)
  note mono = this
  show ?thesis
    unfolding registry_purge_def Let_def purge_assignments_def
    by simp (rule mono, auto split: if_splits)
qed

lemma queue_of_heartbeat: "queue_of (snd (registry_heartbeat_peer now k g)) j = queue_of (registry_purge now g) j"
  by (simp add: queue_of_def heartbeat_peer_frame)

lemma queue_of_poll:
  assumes "registry_ok H g"
  shows "queue_of (snd (registry_poll_peer now k g)) k = tl (queue_of (registry_purge now g) k)"
    and "fst (registry_poll_peer now k g) =
      (case queue_of (registry_purge now g) k of [] \<Rightarrow> None | q # _ \<Rightarrow> Some (qa_assignment q))"
proof -
  have e: "queue_of (registry_purge now g) k = []" if "\<not> om_contains (purge_peers now (reg_peers g)) k"
    using that queue_of_purge [OF registry_okD(3) [OF assms]] by simp
  have i: "queue_of (h\<lparr>reg_assignments := om_insert k q (reg_assignments h)\<rparr>) k = q" for h :: registry and q
    by (simp add: queue_of_def om_lookup_insert)
  show "queue_of (snd (registry_poll_peer now k g)) k = tl (queue_of (registry_purge now g) k)"
    using e by (auto simp: registry_poll_peer_eq [OF assms] Let_def queue_of_heartbeat i split: list.split)
  show "fst (registry_poll_peer now k g) =
      (case queue_of (registry_purge now g) k of [] \<Rightarrow> None | q # _ \<Rightarrow> Some (qa_assignment q))"
    using e by (auto simp: registry_poll_peer_eq [OF assms] Let_def queue_of_heartbeat split: list.split)
qed

section \<open>Properties\<close>

text \<open>
  (C17) The bootstrap service is bounded.  Whatever bytes the clients send, at whatever times and in
  whatever order, the service never handles more than 256 connections at once, holds at most 4,096
  peers, 256 relays and 64 assignments per provider, and every queued assignment belongs to a
  registered peer and names a registered relay.
\<close>

theorem bootstrap_bounded:
  assumes "bootstrap_reachable H lease b"
  shows "bs_active b \<le> 256
    \<and> length (reg_peers (bs_registry b)) \<le> 4096
    \<and> length (reg_relays (bs_registry b)) \<le> 256
    \<and> routes_queued (reg_assignments (bs_registry b)) \<le> 4096 * 64
    \<and> (\<forall>(k, queue) \<in> set (reg_assignments (bs_registry b)).
        length queue \<le> 64 \<and> om_contains (reg_peers (bs_registry b)) k
        \<and> (\<forall>q \<in> set queue. rt_provider_id (qa_assignment q) = k
            \<and> om_contains (reg_relays (bs_registry b)) (rt_relay_id (qa_assignment q))))"
proof -
  have b: "bootstrap_ok H b" using assms by (rule bootstrap_reachable_ok)
  then have g: "registry_ok H (bs_registry b)"
    and l: "reg_limits (bs_registry b) = registry_limits_default" by (simp_all add: bootstrap_ok_def)
  have "\<forall>(k, queue) \<in> set (reg_assignments (bs_registry b)). queue_entry_ok H (bs_registry b) k queue"
    using g by (simp add: registry_ok_def)
  then show ?thesis
    using b registry_okD(4,5) [OF g] routes_queued_bound [OF g]
    by (auto simp: l registry_limits_default_def bootstrap_ok_def MAX_CONTROL_CONNECTIONS_def
        queue_entry_ok_def Let_def)
qed

text \<open>
  The client and the service agree.  For every state the service can reach, time and request
  that the client can encode, the exchange over the framed connection succeeds and the client
  receives exactly the response that the registry's handler computed.
\<close>

theorem bootstrap_rpc_exact:
  assumes "bootstrap_reachable H lease b" "request_strings_utf8 q" "is_ok (encode_overlay_request H q)"
  shows "client_request H (served H now (bs_registry b)) q = Inr (fst (handle_request H now q (bs_registry b)))"
proof (rule client_request_served)
  show "registry_ok H (bs_registry b)"
    using bootstrap_reachable_ok [OF assms(1)] by (simp add: bootstrap_ok_def)
  show "request_valid H q"
    using assms(2,3) by (auto simp: request_valid_def is_ok_iff encode_overlay_request_eq result_iffs)
qed

text \<open>
  (C18) Discovery returns live state only: the assignment names a peer whose lease has not expired,
  that advertises the content, with the public key its identifier was derived from, and a relay
  whose lease has not expired, with its registered address.
\<close>

theorem discover_returns_live:
  assumes "registry_ok H g" "registry_discover now c g = (Some a, g')"
  shows "\<exists>peer relay.
    om_lookup (reg_peers g) (rt_provider_id a) = Some peer \<and> now < pl_expires_at peer
    \<and> c \<in> set (ad_content_ids (pl_advertisement peer))
    \<and> rt_provider_public_key a = ad_public_key (pl_advertisement peer)
    \<and> rt_provider_id a = peer_id_from_public_key H (rt_provider_public_key a)
    \<and> om_lookup (reg_relays g) (rt_relay_id a) = Some relay \<and> now < rl_expires_at relay
    \<and> rt_relay_address a = ra_address (rl_advertisement relay)"
proof (cases rule: registry_discover_cases [OF assms(1), of now c])
  case 1
  then show ?thesis using assms(2) by simp
next
  case (2 peer relay)
  note p = registry_purge_ok [OF assms(1), of now] and d = registry_okD [OF assms(1)]
  have a: "a = new_assignment (pl_advertisement peer) (rl_advertisement relay) (ascii ''m2'')
      (reg_next_route (registry_purge now g) + 1)"
    using 2(1) assms(2) fst_queue_assignment by (metis fst_conv option.discI option.inject)
  obtain k where k: "om_lookup (reg_peers g) k = Some peer" "now < pl_expires_at peer"
    using 2(2) by (auto simp: purge_peers_def om_retain_def om_lookup_iff [OF d(1)])
  obtain i where i: "om_lookup (reg_relays g) i = Some relay" "now < rl_expires_at relay"
    using 2(4) by (auto simp: purge_relays_def om_retain_def om_lookup_iff [OF d(2)])
  show ?thesis
    using k i 2(3) d(6) [OF k(1)] d(7) [OF i(1)]
    by (auto simp: a new_assignment_def peer_entry_ok_def relay_entry_ok_def Let_def)
qed



text \<open>
  Expiry is exact and accounted for: after a purge the leases are those that expire later, a
  queue holds in order its unexpired assignments whose relay is still leased, and every entry that
  disappeared is counted in the statistics.
\<close>

theorem purge_exact:
  assumes "registry_ok H g"
  shows "let g' = registry_purge now g in
    (\<forall>k peer. om_lookup (reg_peers g') k = Some peer \<longleftrightarrow>
       om_lookup (reg_peers g) k = Some peer \<and> now < pl_expires_at peer)
    \<and> (\<forall>i relay. om_lookup (reg_relays g') i = Some relay \<longleftrightarrow>
       om_lookup (reg_relays g) i = Some relay \<and> now < rl_expires_at relay)
    \<and> (\<forall>k. queue_of g' k = (if om_contains (reg_peers g') k
       then filter (\<lambda>q. now < qa_expires_at q \<and> om_contains (reg_relays g') (rt_relay_id (qa_assignment q)))
         (queue_of g k)
       else []))
    \<and> reg_expired_peers g' + length (reg_peers g') = reg_expired_peers g + length (reg_peers g)
    \<and> reg_expired_relays g' + length (reg_relays g') = reg_expired_relays g + length (reg_relays g)
    \<and> reg_expired_routes g' + routes_queued (reg_assignments g')
        = reg_expired_routes g + routes_queued (reg_assignments g)"
proof -
  note d = registry_okD [OF assms]
  have l: "length (purge_peers now (reg_peers g)) \<le> length (reg_peers g)"
    "length (purge_relays now (reg_relays g)) \<le> length (reg_relays g)"
    by (simp_all add: purge_peers_def purge_relays_def om.size_retain)
  have c: "reg_expired_peers (registry_purge now g) + length (purge_peers now (reg_peers g))
        = reg_expired_peers g + length (reg_peers g)"
    "reg_expired_relays (registry_purge now g) + length (purge_relays now (reg_relays g))
        = reg_expired_relays g + length (reg_relays g)"
    "reg_expired_routes (registry_purge now g) + routes_queued (reg_assignments (registry_purge now g))
        = reg_expired_routes g + routes_queued (reg_assignments g)"
    using l routes_queued_purge_le [of now g] by (simp_all add: registry_purge_def Let_def)
  show ?thesis
    unfolding Let_def purge_fields
    using c purge_peers_lookup [OF d(1)] purge_relays_lookup [OF d(2)] queue_of_purge [OF d(3)]
    by (simp add: assignment_live_def [abs_def])
qed

section \<open>Instances\<close>

definition demo_hash :: hash where
  "demo_hash = (\<lambda>_. bytes32_fill 7)"

definition demo_peer :: peer_advertisement where
  "demo_peer = \<lparr>ad_peer_id = PeerId (bytes32_fill 7), ad_public_key = bytes32_fill 1,
    ad_capabilities = [SwarmTransferV1], ad_content_ids = [ContentId (bytes32_fill 3)]\<rparr>"

definition demo_relay :: relay_advertisement where
  "demo_relay = \<lparr>ra_relay_id = ascii ''r'', ra_address = ascii ''127.0.0.1:4000''\<rparr>"

definition demo_registry :: registry where
  "demo_registry = (registry_new 100)\<lparr>
    reg_peers := [(PeerId (bytes32_fill 7), \<lparr>pl_advertisement = demo_peer, pl_expires_at = 100\<rparr>)],
    reg_relays := [(ascii ''r'', \<lparr>rl_advertisement = demo_relay, rl_expires_at = 100\<rparr>)]\<rparr>"

definition demo_assignment :: route_assignment where
  "demo_assignment = new_assignment demo_peer demo_relay (ascii ''m2'') 1"

definition demo_discovered :: registry where
  "demo_discovered = demo_registry\<lparr>reg_next_route := 1, reg_assignments :=
    [(PeerId (bytes32_fill 7), [\<lparr>qa_assignment = demo_assignment, qa_expires_at = 105\<rparr>])]\<rparr>"

lemma demo_relay_ad_ok: "relay_ad_ok demo_relay"
proof -
  have "socket_addr_ok (ra_address demo_relay)"
    by (simp add: demo_relay_def socket_addr_ok_def parse_socket_addr_v4_example)
  moreover have "utf8 (ra_address demo_relay)" by (rule utf8_ascii) (auto simp: demo_relay_def ascii_def)
  ultimately show ?thesis
    by (simp add: relay_ad_ok_def valid_identifier_def demo_relay_def ascii_def is_ascii_alphanumeric_def)
qed

lemma demo_registry_ok: "registry_ok demo_hash demo_registry"
proof -
  have "relay_entry_ok (ascii ''r'') \<lparr>rl_advertisement = demo_relay, rl_expires_at = 100\<rparr>"
    using demo_relay_ad_ok by (simp add: relay_entry_ok_def) (simp add: demo_relay_def)
  then show ?thesis
    by (simp add: registry_ok_def demo_registry_def registry_new_def registry_with_limits_def om_ok_def
        registry_limits_default_def peer_entry_ok_def demo_peer_def peer_id_from_public_key_def
        demo_hash_def MAX_ADVERTISED_CONTENT_IDS_def)
qed

lemma demo_purge: "registry_purge 5 demo_registry = demo_registry"
  by (simp add: registry_purge_def Let_def purge_peers_def purge_relays_def om_retain_def demo_registry_def
      registry_new_def registry_with_limits_def purge_assignments_def om_filter_map_def routes_queued_def)

lemma demo_lease: "lease_until 5 demo_registry = 105"
  by (simp add: lease_until_def demo_registry_def registry_new_def registry_with_limits_def
      saturating_add_u64_def u64_max_def max_def word_le_nat_alt)

lemma demo_discover:
  "registry_discover 5 (ContentId (bytes32_fill 3)) demo_registry = (Some demo_assignment, demo_discovered)"
proof -
  have "queue_of demo_registry (PeerId (bytes32_fill 7)) = []" "reg_next_route demo_registry = 0"
    "reg_limits demo_registry = registry_limits_default" "reg_assignments demo_registry = []"
    by (simp_all add: queue_of_def demo_registry_def registry_new_def registry_with_limits_def)
  moreover have "ad_peer_id demo_peer = PeerId (bytes32_fill 7)"
    "ad_content_ids demo_peer = [ContentId (bytes32_fill 3)]"
    by (simp_all add: demo_peer_def)
  moreover have "map snd (reg_peers demo_registry) = [\<lparr>pl_advertisement = demo_peer, pl_expires_at = 100\<rparr>]"
    "map snd (reg_relays demo_registry) = [\<lparr>rl_advertisement = demo_relay, rl_expires_at = 100\<rparr>]"
    by (simp_all add: demo_registry_def)
  ultimately show ?thesis
    by (simp add: registry_discover_def Let_def demo_purge queue_assignment_eq demo_lease demo_assignment_def
        demo_discovered_def registry_limits_default_def)
qed

theorem bootstrap_bounded_witness:
  "bootstrap_reachable demo_hash 100 (bootstrap_new 100\<lparr>bs_active := 1\<rparr>)
   \<and> bs_active (bootstrap_new 100\<lparr>bs_active := 1\<rparr>) \<le> 256"
proof -
  have "bootstrap_step demo_hash (bootstrap_new 100) (bootstrap_new 100\<lparr>bs_active := bs_active (bootstrap_new 100) + 1\<rparr>)"
    by (rule bootstrap_step.accept) (simp add: bootstrap_new_def MAX_CONTROL_CONNECTIONS_def)
  then have r: "bootstrap_reachable demo_hash 100 (bootstrap_new 100\<lparr>bs_active := 1\<rparr>)"
    unfolding bootstrap_reachable_def by (simp add: bootstrap_new_def r_into_rtranclp)
  with bootstrap_bounded [OF this] show ?thesis by simp
qed

theorem bootstrap_rpc_exact_witness:
  "client_request demo_hash (served demo_hash 5 (bs_registry (bootstrap_new 100))) (Discover (ContentId (bytes32_fill 3)))
    = Inr (fst (handle_request demo_hash 5 (Discover (ContentId (bytes32_fill 3))) (bs_registry (bootstrap_new 100))))"
  by (rule bootstrap_rpc_exact [of demo_hash 100])
    (simp_all add: bootstrap_reachable_def is_ok_iff encode_overlay_request_eq)

theorem discover_returns_live_witness:
  "registry_discover 5 (ContentId (bytes32_fill 3)) demo_registry = (Some demo_assignment, demo_discovered)
   \<and> om_lookup (reg_peers demo_registry) (rt_provider_id demo_assignment) \<noteq> None"
  using discover_returns_live [OF demo_registry_ok demo_discover] demo_discover by auto



theorem purge_exact_witness:
  "registry_ok demo_hash demo_registry
   \<and> reg_expired_peers (registry_purge 100 demo_registry) + length (reg_peers (registry_purge 100 demo_registry)) = 1"
  using purge_exact [OF demo_registry_ok, of 100] demo_registry_ok
  by (simp add: Let_def) (simp add: demo_registry_def registry_new_def registry_with_limits_def)

end
