(* ===== verification/Resume.thy ===== *)
theory Resume
  imports Session Swarm Bootstrap
begin

text \<open>
  The resumable partial file of a download, \<open>ResumeDownload\<close> of \<open>triptorrent-cli/src/lib.rs\<close>, on
  a model of the file system in which any operation may fail.  A state file is encoded by the
  Postcard library, whose two functions are arguments.
\<close>

section \<open>Files\<close>

type_synonym path = str

text \<open>
  The file system with the failures to come: each operation consumes the next entry of \<open>faults\<close>
  and fails when it is a fault, having done nothing or only part of its writing.  When the list is
  used up, operations succeed.
\<close>

datatype fault = Untouched | Partly nat

record disk =
  files :: "path \<rightharpoonup> u8 list"
  faults :: "fault option list"

datatype cli_error =
    CliIo
  | CliContent content_error
  | CliNet net_error
  | CliOverlay overlay_error
  | CliSchedule schedule_error
  | CliBail string

type_synonym 'a act = "disk \<Rightarrow> (cli_error + 'a) \<times> disk"

definition act_return :: "'a \<Rightarrow> 'a act" where
  "act_return x d = (Inr x, d)"

definition act_bind :: "'a act \<Rightarrow> ('a \<Rightarrow> 'b act) \<Rightarrow> 'b act" where
  "act_bind m f d = (case m d of (Inl e, d) \<Rightarrow> (Inl e, d) | (Inr x, d) \<Rightarrow> f x d)"

definition act_result :: "cli_error + 'a \<Rightarrow> 'a act" where
  "act_result r d = (r, d)"

definition act_bail :: "string \<Rightarrow> 'a act" where
  "act_bail t d = (Inl (CliBail t), d)"

definition next_fault :: "disk \<Rightarrow> fault option \<times> disk" where
  "next_fault d = (case faults d of [] \<Rightarrow> (None, d) | f # fs \<Rightarrow> (f, d\<lparr>faults := fs\<rparr>))"

definition fs_exists :: "path \<Rightarrow> disk \<Rightarrow> bool" where
  "fs_exists p d \<longleftrightarrow> files d p \<noteq> None"

definition fs_read :: "path \<Rightarrow> u8 list act" where
  "fs_read p d =
    (case next_fault d of (fault, d) \<Rightarrow>
       (case (fault, files d p) of (None, Some bytes) \<Rightarrow> (Inr bytes, d) | _ \<Rightarrow> (Inl CliIo, d)))"

definition fs_write :: "path \<Rightarrow> u8 list \<Rightarrow> unit act" where
  "fs_write p bytes d =
    (case next_fault d of (fault, d) \<Rightarrow>
       (case fault of
          None \<Rightarrow> (Inr (), d\<lparr>files := (files d)(p \<mapsto> bytes)\<rparr>)
        | Some Untouched \<Rightarrow> (Inl CliIo, d)
        | Some (Partly n) \<Rightarrow> (Inl CliIo, d\<lparr>files := (files d)(p \<mapsto> take n bytes)\<rparr>)))"

text \<open>\<open>fs::rename\<close> replaces the destination atomically.\<close>

definition fs_rename :: "path \<Rightarrow> path \<Rightarrow> unit act" where
  "fs_rename source destination d =
    (case next_fault d of (fault, d) \<Rightarrow>
       (case (fault, files d source) of
          (None, Some bytes) \<Rightarrow> (Inr (), d\<lparr>files := (files d)(source := None, destination \<mapsto> bytes)\<rparr>)
        | _ \<Rightarrow> (Inl CliIo, d)))"

definition fs_remove :: "path \<Rightarrow> unit act" where
  "fs_remove p d =
    (case next_fault d of (fault, d) \<Rightarrow>
       (case (fault, files d p) of
          (None, Some _) \<Rightarrow> (Inr (), d\<lparr>files := (files d)(p := None)\<rparr>)
        | _ \<Rightarrow> (Inl CliIo, d)))"

text \<open>Creating a file and setting its length, which fills it with zeros.\<close>

definition fs_create :: "path \<Rightarrow> nat \<Rightarrow> unit act" where
  "fs_create p len d =
    (case next_fault d of (fault, d) \<Rightarrow>
       (case fault of
          None \<Rightarrow> (Inr (), d\<lparr>files := (files d)(p \<mapsto> replicate len 0)\<rparr>)
        | Some Untouched \<Rightarrow> (Inl CliIo, d)
        | Some (Partly _) \<Rightarrow> (Inl CliIo, d\<lparr>files := (files d)(p \<mapsto> [])\<rparr>)))"

text \<open>
  \<open>overwrite\<close> is the effect of \<open>seek\<close> and \<open>write_all\<close>: bytes before the offset and after the data
  stay, and a gap past the end is filled with zeros.  \<open>fs_write_at\<close> includes \<open>sync_data\<close>.
\<close>

definition overwrite :: "nat \<Rightarrow> 'a :: zero list \<Rightarrow> 'a list \<Rightarrow> 'a list" where
  "overwrite offset bytes file =
    take offset file @ replicate (offset - length file) 0 @ bytes @ drop (offset + length bytes) file"

definition fs_write_at :: "path \<Rightarrow> nat \<Rightarrow> u8 list \<Rightarrow> unit act" where
  "fs_write_at p offset bytes d =
    (case next_fault d of (fault, d) \<Rightarrow>
       (case files d p of
          None \<Rightarrow> (Inl CliIo, d)
        | Some file \<Rightarrow>
            (case fault of
               None \<Rightarrow> (Inr (), d\<lparr>files := (files d)(p \<mapsto> overwrite offset bytes file)\<rparr>)
             | Some Untouched \<Rightarrow> (Inl CliIo, d)
             | Some (Partly n) \<Rightarrow>
                 (Inl CliIo, d\<lparr>files := (files d)(p \<mapsto> overwrite offset (take n bytes) file)\<rparr>))))"

definition replace_file :: "path \<Rightarrow> path \<Rightarrow> unit act" where
  "replace_file source destination d =
    (case fs_rename source destination d of
       (Inr _, d) \<Rightarrow> (Inr (), d)
     | (Inl e, d) \<Rightarrow>
         if fs_exists destination d
         then act_bind (fs_remove destination) (\<lambda>_. fs_rename source destination) d
         else (Inl e, d))"

section \<open>Resume state\<close>

definition RESUME_VERSION :: u16 where
  "RESUME_VERSION = 0"

definition MAX_RESUME_STATE_BYTES :: nat where
  "MAX_RESUME_STATE_BYTES = 40 * 1024 * 1024"

record resume_record =
  rr_version :: u16
  rr_manifest :: manifest
  rr_completed :: "bool list"

record resume_download =
  rd_part_path :: path
  rd_state_path :: path
  rd_record :: resume_record

text \<open>The Postcard library: \<open>to_allocvec\<close> and \<open>from_bytes\<close> of a \<open>ResumeRecord\<close>.\<close>

record postcard =
  pc_encode :: "resume_record \<Rightarrow> u8 list"
  pc_decode :: "u8 list \<Rightarrow> resume_record option"

definition append_suffix :: "path \<Rightarrow> string \<Rightarrow> path" where
  "append_suffix p suffix = p @ ascii suffix"

definition expected_chunk_length :: "manifest \<Rightarrow> u32 \<Rightarrow> cli_error + nat" where
  "expected_chunk_length m index =
    (if length (m_chunks m) \<le> unat index then Inl (CliBail ''chunk index is outside the manifest'')
     else
       let offset = unat index * unat (m_chunk_size m) in
       if u64_max < offset then Inl (CliBail ''chunk offset overflow'')
       else if unat (m_length m) < offset then Inl (CliBail ''chunk offset exceeds manifest length'')
       else Inr (min (unat (m_length m) - offset) (unat (m_chunk_size m))))"

definition chunk_offset :: "manifest \<Rightarrow> u32 \<Rightarrow> nat" where
  "chunk_offset m index = min (unat index * unat (m_chunk_size m)) u64_max"

text \<open>\<open>read_exact\<close> at an offset of the partial file.\<close>

definition read_exact_at :: "u8 list \<Rightarrow> nat \<Rightarrow> nat \<Rightarrow> cli_error + u8 list" where
  "read_exact_at file offset len =
    (if offset + len \<le> length file then Inr (take len (drop offset file)) else Inl CliIo)"

fun validate_resumed_chunks ::
  "hash \<Rightarrow> manifest \<Rightarrow> u8 list \<Rightarrow> nat \<Rightarrow> bool list \<Rightarrow> cli_error + unit" where
  "validate_resumed_chunks H m file index [] = Inr ()"
| "validate_resumed_chunks H m file index (finished # completed) =
    (if \<not> finished then validate_resumed_chunks H m file (index + 1) completed
     else and_then (ok_or (u32_try_from index) (CliBail ''resume chunk index overflow'')) (\<lambda>i.
       and_then (expected_chunk_length m i) (\<lambda>len.
       and_then (read_exact_at file (chunk_offset m i) len) (\<lambda>data.
       and_then (map_err CliContent (verify_chunk H m
         \<lparr>c_index = i, c_id = m_chunks m ! index, c_data = data\<rparr>)) (\<lambda>_.
       validate_resumed_chunks H m file (index + 1) completed)))))"

definition save_state :: "postcard \<Rightarrow> resume_download \<Rightarrow> unit act" where
  "save_state pc r =
    (let temporary = append_suffix (rd_state_path r) ''.tmp'' in
     act_bind (fs_write temporary (pc_encode pc (rd_record r))) (\<lambda>_.
     replace_file temporary (rd_state_path r)))"

text \<open>\<open>ResumeDownload::open\<close>: the state, and the number of chunks resumed.\<close>

definition resume_open ::
  "postcard \<Rightarrow> hash \<Rightarrow> path \<Rightarrow> manifest \<Rightarrow> (resume_download \<times> nat) act" where
  "resume_open pc H output m =
    act_bind (act_result (map_err CliContent (validate_shape m))) (\<lambda>_ d.
    let part_path = append_suffix output ''.triptorrent-part'';
        state_path = append_suffix output ''.triptorrent-state'';
        state_exists = fs_exists state_path d; part_exists = fs_exists part_path d in
    if state_exists \<noteq> part_exists
    then act_bail ''resume data is incomplete; both partial file and state are required'' d
    else if state_exists then
      act_bind (fs_read state_path) (\<lambda>encoded.
      if MAX_RESUME_STATE_BYTES < length encoded then act_bail ''resume state exceeds 40 MiB limit''
      else act_bind (act_result (ok_or (pc_decode pc encoded)
          (CliBail ''resume state is malformed or incompatible''))) (\<lambda>record.
      if rr_version record \<noteq> RESUME_VERSION \<or> rr_manifest record \<noteq> m
      then act_bail ''resume state does not match the requested content manifest''
      else if length (rr_completed record) \<noteq> length (m_chunks m)
      then act_bail ''resume state has an invalid chunk count''
      else act_bind (fs_read part_path) (\<lambda>file.
      if length file \<noteq> unat (m_length m)
      then act_bail ''partial file length does not match the resume manifest''
      else act_bind (act_result (validate_resumed_chunks H m file 0 (rr_completed record))) (\<lambda>_.
      act_return (\<lparr>rd_part_path = part_path, rd_state_path = state_path, rd_record = record\<rparr>,
        length (filter (\<lambda>finished. finished) (rr_completed record))))))) d
    else
      act_bind (fs_create part_path (unat (m_length m))) (\<lambda>_.
      let r = \<lparr>rd_part_path = part_path, rd_state_path = state_path,
               rd_record = \<lparr>rr_version = RESUME_VERSION, rr_manifest = m,
                 rr_completed = replicate (length (m_chunks m)) False\<rparr>\<rparr> in
      act_bind (save_state pc r) (\<lambda>_. act_return (r, 0))) d)"

definition mark_completed :: "nat \<Rightarrow> resume_download \<Rightarrow> resume_download" where
  "mark_completed i r =
    r\<lparr>rd_record := (rd_record r)\<lparr>rr_completed := (rr_completed (rd_record r))[i := True]\<rparr>\<rparr>"

definition write_verified_chunk ::
  "postcard \<Rightarrow> hash \<Rightarrow> manifest \<Rightarrow> chunk \<Rightarrow> resume_download \<Rightarrow> resume_download act" where
  "write_verified_chunk pc H m c r =
    act_bind (act_result (map_err CliContent (verify_chunk H m c))) (\<lambda>_.
    act_bind (fs_write_at (rd_part_path r) (chunk_offset m (c_index c)) (c_data c)) (\<lambda>_.
    let r = mark_completed (unat (c_index c)) r in
    act_bind (save_state pc r) (\<lambda>_. act_return r)))"

text \<open>
  \<open>finish\<close> digests the whole partial file, in pieces of a buffer, before it publishes the output.
\<close>

definition resume_finish :: "hash \<Rightarrow> path \<Rightarrow> content_id \<Rightarrow> resume_download \<Rightarrow> unit act" where
  "resume_finish H output content_id r =
    act_bind (fs_read (rd_part_path r)) (\<lambda>file.
    if length file \<noteq> unat (m_length (rr_manifest (rd_record r)))
       \<or> content_id_digest H file \<noteq> content_id
    then act_bail ''completed partial file failed content-ID verification''
    else act_bind (replace_file (rd_part_path r) output) (\<lambda>_. fs_remove (rd_state_path r)))"

section \<open>Reasoning about actions\<close>

lemma act_bind_Inr_iff [result_iffs]:
  "act_bind m f d = (Inr y, d') \<longleftrightarrow> (\<exists>x d1. m d = (Inr x, d1) \<and> f x d1 = (Inr y, d'))"
  by (auto simp: act_bind_def split: prod.splits sum.splits)

lemma act_result_iff [result_iffs]: "act_result r d = (s, d') \<longleftrightarrow> r = s \<and> d' = d"
  by (auto simp: act_result_def)

lemma act_return_iff [result_iffs]: "act_return x d = (s, d') \<longleftrightarrow> s = Inr x \<and> d' = d"
  by (auto simp: act_return_def)

lemma act_bail_iff [result_iffs]: "act_bail t d = (s, d') \<longleftrightarrow> s = Inl (CliBail t) \<and> d' = d"
  by (auto simp: act_bail_def)

lemma next_fault_files: "next_fault d = (f, d') \<Longrightarrow> files d' = files d"
  by (auto simp: next_fault_def split: list.splits)

lemma fs_read_files: "fs_read p d = (r, d') \<Longrightarrow> files d' = files d"
  by (auto simp: fs_read_def split: prod.splits option.splits dest: next_fault_files)

lemma fs_read_Inr: "fs_read p d = (Inr b, d') \<Longrightarrow> files d p = Some b"
  by (auto simp: fs_read_def split: prod.splits option.splits dest: next_fault_files)

lemma fs_write_other: "fs_write p b d = (r, d') \<Longrightarrow> q \<noteq> p \<Longrightarrow> files d' q = files d q"
  by (auto simp: fs_write_def split: prod.splits option.splits fault.splits dest!: next_fault_files)

lemma fs_write_Inr: "fs_write p b d = (Inr u, d') \<Longrightarrow> files d' p = Some b"
  by (auto simp: fs_write_def split: prod.splits option.splits fault.splits)

lemma fs_create_other: "fs_create p n d = (r, d') \<Longrightarrow> q \<noteq> p \<Longrightarrow> files d' q = files d q"
  by (auto simp: fs_create_def split: prod.splits option.splits fault.splits dest!: next_fault_files)

lemma fs_create_Inr: "fs_create p n d = (Inr u, d') \<Longrightarrow> files d' p = Some (replicate n 0)"
  by (auto simp: fs_create_def split: prod.splits option.splits fault.splits)

lemma fs_remove_cases:
  assumes "fs_remove p d = (r, d')"
  shows "(r = Inr () \<and> files d' = (files d)(p := None)) \<or> (r = Inl CliIo \<and> files d' = files d)"
  using assms by (auto simp: fs_remove_def split: prod.splits option.splits dest!: next_fault_files)

lemma fs_rename_cases:
  assumes "fs_rename a b d = (r, d')"
  shows "(\<exists>x. r = Inr () \<and> files d a = Some x \<and> files d' = (files d)(a := None, b \<mapsto> x))
    \<or> (r = Inl CliIo \<and> files d' = files d)"
  using assms by (auto simp: fs_rename_def split: prod.splits option.splits dest!: next_fault_files)

text \<open>
  Replacing a file: the destination is the new content, unchanged, or (when a fault strikes
  between the two steps of the fallback) gone.  Nothing else is touched.
\<close>

lemma replace_file_cases:
  assumes "replace_file a b d = (r, d')" "a \<noteq> b"
  shows "(r = Inr () \<and> files d' b = files d a \<and> files d a \<noteq> None)
      \<or> (r = Inl CliIo \<and> (files d' b = files d b \<or> files d' b = None))"
    and "q \<noteq> a \<Longrightarrow> q \<noteq> b \<Longrightarrow> files d' q = files d q"
    and "r = Inr () \<Longrightarrow> files d' a = None"
proof -
  obtain r1 d1 where 1: "fs_rename a b d = (r1, d1)" by (cases "fs_rename a b d")
  note c1 = fs_rename_cases [OF 1]
  have "(r = Inr () \<and> files d' b = files d a \<and> files d a \<noteq> None \<and> files d' a = None
        \<and> (\<forall>q. q \<noteq> a \<longrightarrow> q \<noteq> b \<longrightarrow> files d' q = files d q))
      \<or> (r = Inl CliIo \<and> (files d' b = files d b \<or> files d' b = None)
        \<and> (\<forall>q. q \<noteq> a \<longrightarrow> q \<noteq> b \<longrightarrow> files d' q = files d q))"
  proof (cases r1)
    case (Inr u)
    then show ?thesis using 1 c1 assms by (auto simp: replace_file_def)
  next
    case (Inl e)
    then have d1: "files d1 = files d" "e = CliIo" using c1 by auto
    show ?thesis
    proof (cases "fs_exists b d1")
      case False
      then show ?thesis using 1 Inl d1 assms by (simp add: replace_file_def)
    next
      case True
      obtain r2 d2 where 2: "fs_remove b d1 = (r2, d2)" by (cases "fs_remove b d1")
      obtain r3 d3 where 3: "fs_rename a b d2 = (r3, d3)" by (cases "fs_rename a b d2")
      show ?thesis
        using 1 Inl True 2 3 fs_remove_cases [OF 2] fs_rename_cases [OF 3] assms d1
        by (auto simp: replace_file_def act_bind_def)
    qed
  qed
  then show "(r = Inr () \<and> files d' b = files d a \<and> files d a \<noteq> None)
      \<or> (r = Inl CliIo \<and> (files d' b = files d b \<or> files d' b = None))"
    "q \<noteq> a \<Longrightarrow> q \<noteq> b \<Longrightarrow> files d' q = files d q" "r = Inr () \<Longrightarrow> files d' a = None"
    by auto
qed

section \<open>Writing into a file\<close>

lemma length_overwrite: "off + length b \<le> length f \<Longrightarrow> length (overwrite off b f) = length f"
  by (simp add: overwrite_def)

lemma nth_overwrite:
  assumes "off + length b \<le> length f" "j < length f"
  shows "overwrite off b f ! j = (if off \<le> j \<and> j < off + length b then b ! (j - off) else f ! j)"
  using assms by (auto simp: overwrite_def nth_append)

lemma overwrite_same:
  assumes "off + length b \<le> length f"
  shows "take (length b) (drop off (overwrite off b f)) = b"
  using assms by (simp add: overwrite_def)

lemma overwrite_disjoint:
  assumes "off + length b \<le> length f" "o' + n \<le> off \<or> off + length b \<le> o'"
  shows "take n (drop o' (overwrite off b f)) = take n (drop o' f)"
proof (rule nth_equalityI)
  show "length (take n (drop o' (overwrite off b f))) = length (take n (drop o' f))"
    using assms by (simp add: length_overwrite)
next
  fix j assume "j < length (take n (drop o' (overwrite off b f)))"
  then show "take n (drop o' (overwrite off b f)) ! j = take n (drop o' f) ! j"
    using assms by (auto simp: length_overwrite nth_overwrite)
qed

section \<open>Chunks of a manifest\<close>

definition chunk_len :: "manifest \<Rightarrow> nat \<Rightarrow> nat" where
  "chunk_len m i = min (unat (m_length m) - i * CHUNK_SIZE) CHUNK_SIZE"

definition chunk_bytes :: "manifest \<Rightarrow> u8 list \<Rightarrow> nat \<Rightarrow> u8 list" where
  "chunk_bytes m file i = take (chunk_len m i) (drop (i * CHUNK_SIZE) file)"

definition chunk_verified :: "hash \<Rightarrow> manifest \<Rightarrow> u8 list \<Rightarrow> nat \<Rightarrow> bool" where
  "chunk_verified H m file i \<longleftrightarrow> chunk_id_digest H (chunk_bytes m file i) = m_chunks m ! i"

lemma shape_index:
  assumes "validate_shape m = Inr ()" "i < length (m_chunks m)"
  shows "i * CHUNK_SIZE < unat (m_length m)" "i \<le> u32_max" "unat (of_nat i :: u32) = i"
    "i * CHUNK_SIZE \<le> u64_max"
proof -
  have l: "length (m_chunks m) \<le> MAX_MANIFEST_CHUNKS"
    "length (m_chunks m) = div_ceil (unat (m_length m)) CHUNK_SIZE"
    using assms(1) by (simp_all add: validate_shape_Inr_iff)
  show "i * CHUNK_SIZE < unat (m_length m)"
    using assms(2) l(2) div_ceil_le_iff [of CHUNK_SIZE "unat (m_length m)" i] by (auto simp: mult.commute not_le)
  show i: "i \<le> u32_max" using assms(2) l(1) by (simp add: MAX_MANIFEST_CHUNKS_def u32_max_def)
  then show "unat (of_nat i :: u32) = i" by (rule unat_of_nat_u32)
  show "i * CHUNK_SIZE \<le> u64_max"
    using assms(2) l(1) by (simp add: MAX_MANIFEST_CHUNKS_def CHUNK_SIZE_def u64_max_def)
qed

lemma shape_last:
  assumes "validate_shape m = Inr ()" "Suc i < length (m_chunks m)"
  shows "chunk_len m i = CHUNK_SIZE"
  using shape_index(1) [OF assms] by (simp add: chunk_len_def)

lemma chunk_len_le: "chunk_len m i \<le> CHUNK_SIZE"
  by (simp add: chunk_len_def)

lemma chunk_len_pos: "validate_shape m = Inr () \<Longrightarrow> i < length (m_chunks m) \<Longrightarrow> 0 < chunk_len m i"
  using shape_index(1) [of m i] by (simp add: chunk_len_def)

lemma chunk_end: "validate_shape m = Inr () \<Longrightarrow> i < length (m_chunks m) \<Longrightarrow>
    i * CHUNK_SIZE + chunk_len m i \<le> unat (m_length m)"
  using shape_index(1) [of m i] by (simp add: chunk_len_def)

lemma expected_chunk_length_eq:
  assumes "validate_shape m = Inr ()" "i < length (m_chunks m)"
  shows "expected_chunk_length m (of_nat i) = Inr (chunk_len m i)"
    and "chunk_offset m (of_nat i) = i * CHUNK_SIZE"
  using shape_index [OF assms] assms
  by (simp_all add: expected_chunk_length_def Let_def chunk_len_def chunk_offset_def validate_shape_Inr_iff)

lemma chunks_disjoint:
  assumes "validate_shape m = Inr ()" "i < length (m_chunks m)" "j < length (m_chunks m)" "i \<noteq> j"
  shows "j * CHUNK_SIZE + chunk_len m j \<le> i * CHUNK_SIZE \<or> i * CHUNK_SIZE + chunk_len m i \<le> j * CHUNK_SIZE"
proof (cases "j < i")
  case True
  then have "Suc j * CHUNK_SIZE \<le> i * CHUNK_SIZE" by (intro mult_le_mono1) simp
  then have "j * CHUNK_SIZE + chunk_len m j \<le> i * CHUNK_SIZE" using chunk_len_le [of m j] by simp
  then show ?thesis ..
next
  case False
  then have "Suc i * CHUNK_SIZE \<le> j * CHUNK_SIZE" using assms(4) by (intro mult_le_mono1) simp
  then have "i * CHUNK_SIZE + chunk_len m i \<le> j * CHUNK_SIZE" using chunk_len_le [of m i] by simp
  then show ?thesis ..
qed

text \<open>Writing one chunk leaves the others and makes its own bytes the data.\<close>

lemma chunk_bytes_overwrite:
  assumes "validate_shape m = Inr ()" "i < length (m_chunks m)" "j < length (m_chunks m)"
    and "length f = unat (m_length m)" "length b \<le> chunk_len m i"
  shows "j \<noteq> i \<Longrightarrow> chunk_bytes m (overwrite (i * CHUNK_SIZE) b f) j = chunk_bytes m f j"
    and "length b = chunk_len m i \<Longrightarrow> chunk_bytes m (overwrite (i * CHUNK_SIZE) b f) i = b"
proof -
  have e: "i * CHUNK_SIZE + length b \<le> length f" using chunk_end [OF assms(1,2)] assms(4,5) by simp
  show "chunk_bytes m (overwrite (i * CHUNK_SIZE) b f) j = chunk_bytes m f j" if "j \<noteq> i"
    unfolding chunk_bytes_def
    by (rule overwrite_disjoint [OF e]) (use chunks_disjoint [OF assms(1-3)] that assms(5) in auto)
  show "chunk_bytes m (overwrite (i * CHUNK_SIZE) b f) i = b" if "length b = chunk_len m i"
    unfolding chunk_bytes_def using overwrite_same [OF e] that by simp
qed

lemma validate_resumed_chunks_iff:
  assumes "validate_shape m = Inr ()" "length file = unat (m_length m)"
  shows "index + length completed \<le> length (m_chunks m) \<Longrightarrow>
    validate_resumed_chunks H m file index completed = Inr () \<longleftrightarrow>
    (\<forall>j < length completed. completed ! j \<longrightarrow> chunk_verified H m file (index + j))"
proof (induction completed arbitrary: index)
  case (Cons b bs)
  then have i: "index < length (m_chunks m)" by simp
  note e = expected_chunk_length_eq [OF assms(1) i] and x = shape_index [OF assms(1) i]
  have r: "read_exact_at file (index * CHUNK_SIZE) (chunk_len m index) = Inr (chunk_bytes m file index)"
    using chunk_end [OF assms(1) i] assms(2) by (simp add: read_exact_at_def chunk_bytes_def)
  have u: "u32_try_from index = Some (of_nat index)" using x(2) by (simp add: u32_try_from_def)
  have v: "verify_chunk H m \<lparr>c_index = of_nat index, c_id = m_chunks m ! index, c_data = chunk_bytes m file index\<rparr> = Inr ()
      \<longleftrightarrow> chunk_verified H m file index"
    using i x(3) by (simp add: verify_chunk_Inr_iff chunk_verified_def del: unat_of_nat)
  have ih: "validate_resumed_chunks H m file (Suc index) bs = Inr () \<longleftrightarrow>
      (\<forall>j < length bs. bs ! j \<longrightarrow> chunk_verified H m file (Suc (index + j)))"
    using Cons.IH [of "Suc index"] Cons.prems by simp
  show ?case
    by (simp add: u e r result_iffs v ih All_less_Suc2)
qed simp

section \<open>Resumable states\<close>

definition part_path_of :: "path \<Rightarrow> path" where
  "part_path_of output = append_suffix output ''.triptorrent-part''"

definition state_path_of :: "path \<Rightarrow> path" where
  "state_path_of output = append_suffix output ''.triptorrent-state''"

lemma paths_distinct:
  "part_path_of p \<noteq> state_path_of p" "append_suffix (state_path_of p) ''.tmp'' \<noteq> part_path_of p"
  "append_suffix (state_path_of p) ''.tmp'' \<noteq> state_path_of p" "part_path_of p \<noteq> p" "state_path_of p \<noteq> p"
  by (simp_all add: part_path_of_def state_path_of_def append_suffix_def ascii_def)

text \<open>
  The partial file and the state file fit together: both exist, the state decodes to a record of
  this manifest, and every chunk recorded as completed is present and verifies.
\<close>

definition resumable :: "postcard \<Rightarrow> hash \<Rightarrow> path \<Rightarrow> manifest \<Rightarrow> bool list \<Rightarrow> disk \<Rightarrow> bool" where
  "resumable pc H output m completed d \<longleftrightarrow>
    (\<exists>encoded file. files d (state_path_of output) = Some encoded
      \<and> length encoded \<le> MAX_RESUME_STATE_BYTES
      \<and> pc_decode pc encoded =
          Some \<lparr>rr_version = RESUME_VERSION, rr_manifest = m, rr_completed = completed\<rparr>
      \<and> length completed = length (m_chunks m)
      \<and> files d (part_path_of output) = Some file \<and> length file = unat (m_length m)
      \<and> (\<forall>i < length completed. completed ! i \<longrightarrow> chunk_verified H m file i))"

definition resume_of :: "path \<Rightarrow> manifest \<Rightarrow> bool list \<Rightarrow> resume_download" where
  "resume_of output m completed =
    \<lparr>rd_part_path = part_path_of output, rd_state_path = state_path_of output,
     rd_record = \<lparr>rr_version = RESUME_VERSION, rr_manifest = m, rr_completed = completed\<rparr>\<rparr>"

text \<open>What the transfer relies on of the Postcard library.\<close>

definition postcard_sound :: "postcard \<Rightarrow> manifest \<Rightarrow> bool" where
  "postcard_sound pc m \<longleftrightarrow>
    (\<forall>completed. length completed = length (m_chunks m) \<longrightarrow>
      (let record = \<lparr>rr_version = RESUME_VERSION, rr_manifest = m, rr_completed = completed\<rparr> in
       pc_decode pc (pc_encode pc record) = Some record
       \<and> length (pc_encode pc record) \<le> MAX_RESUME_STATE_BYTES))"

lemma resume_open_existing:
  assumes "validate_shape m = Inr ()" "fs_exists (state_path_of output) d" "fs_exists (part_path_of output) d"
  shows "resume_open pc H output m d = (Inr (r, n), d') \<Longrightarrow>
      resumable pc H output m (rr_completed (rd_record r)) d' \<and> r = resume_of output m (rr_completed (rd_record r))
      \<and> n = length (filter (\<lambda>finished. finished) (rr_completed (rd_record r))) \<and> files d' = files d"
proof -
  assume "resume_open pc H output m d = (Inr (r, n), d')"
  then obtain encoded d1 rcd fl where
    e: "fs_read (state_path_of output) d = (Inr encoded, d1)" "length encoded \<le> MAX_RESUME_STATE_BYTES"
      "pc_decode pc encoded = Some rcd" "rr_version rcd = RESUME_VERSION" "rr_manifest rcd = m"
      "length (rr_completed rcd) = length (m_chunks m)"
      "fs_read (part_path_of output) d1 = (Inr fl, d')" "length fl = unat (m_length m)"
      "validate_resumed_chunks H m fl 0 (rr_completed rcd) = Inr ()"
      "r = \<lparr>rd_part_path = part_path_of output, rd_state_path = state_path_of output, rd_record = rcd\<rparr>"
      "n = length (filter (\<lambda>finished. finished) (rr_completed rcd))"
    using assms
    by (auto simp: resume_open_def Let_def result_iffs part_path_of_def state_path_of_def split: if_splits)
  have rec: "rcd = \<lparr>rr_version = RESUME_VERSION, rr_manifest = m, rr_completed = rr_completed rcd\<rparr>"
    using e(4,5) by (cases rcd) auto
  have f: "files d1 = files d" "files d' = files d"
    using fs_read_files [OF e(1)] fs_read_files [OF e(7)] by simp_all
  have "\<forall>i < length (rr_completed rcd). rr_completed rcd ! i \<longrightarrow> chunk_verified H m fl i"
    using validate_resumed_chunks_iff [OF assms(1) e(8), of 0 "rr_completed rcd" H] e(6,9) by simp
  then have "resumable pc H output m (rr_completed rcd) d'"
    using fs_read_Inr [OF e(1)] fs_read_Inr [OF e(7)] e(2,3,6,8) f rec unfolding resumable_def by auto
  then show ?thesis using e(10,11) f rec by (simp add: resume_of_def)
qed

lemma resume_open_resumable:
  assumes "validate_shape m = Inr ()" "resumable pc H output m completed d" "faults d = []"
  shows "resume_open pc H output m d =
    (Inr (resume_of output m completed, length (filter (\<lambda>finished. finished) completed)), d)"
proof -
  obtain encoded fl where e: "files d (state_path_of output) = Some encoded"
      "length encoded \<le> MAX_RESUME_STATE_BYTES"
      "pc_decode pc encoded = Some \<lparr>rr_version = RESUME_VERSION, rr_manifest = m, rr_completed = completed\<rparr>"
      "length completed = length (m_chunks m)"
      "files d (part_path_of output) = Some fl" "length fl = unat (m_length m)"
      "\<forall>i < length completed. completed ! i \<longrightarrow> chunk_verified H m fl i"
    using assms(2) unfolding resumable_def by blast
  have rd: "fs_read (state_path_of output) d = (Inr encoded, d)" "fs_read (part_path_of output) d = (Inr fl, d)"
    using e(1,5) assms(3) by (simp_all add: fs_read_def next_fault_def)
  have ex: "fs_exists (state_path_of output) d" "fs_exists (part_path_of output) d"
    using e(1,5) by (simp_all add: fs_exists_def)
  have v: "validate_resumed_chunks H m fl 0 completed = Inr ()"
    using validate_resumed_chunks_iff [OF assms(1) e(6), of 0 completed H] e(4,7) by simp
  show ?thesis
    using assms(1) ex rd e v
    by (simp add: resume_open_def Let_def act_bind_def act_result_def act_return_def
        part_path_of_def [symmetric] state_path_of_def [symmetric] resume_of_def)
qed

section \<open>Saving and writing\<close>

lemma save_state_cases:
  assumes "save_state pc (resume_of output m completed) d = (r, d')"
  shows "(r = Inr () \<and> files d' (state_path_of output) =
        Some (pc_encode pc \<lparr>rr_version = RESUME_VERSION, rr_manifest = m, rr_completed = completed\<rparr>))
      \<or> (r = Inl CliIo \<and> (files d' (state_path_of output) = files d (state_path_of output)
          \<or> files d' (state_path_of output) = None))"
    and "q \<noteq> state_path_of output \<Longrightarrow> q \<noteq> append_suffix (state_path_of output) ''.tmp'' \<Longrightarrow>
      files d' q = files d q"
proof -
  let ?tmp = "append_suffix (state_path_of output) ''.tmp''"
  let ?enc = "pc_encode pc \<lparr>rr_version = RESUME_VERSION, rr_manifest = m, rr_completed = completed\<rparr>"
  obtain r1 d1 where 1: "fs_write ?tmp ?enc d = (r1, d1)" by (cases "fs_write ?tmp ?enc d")
  obtain r2 d2 where 2: "replace_file ?tmp (state_path_of output) d1 = (r2, d2)"
    by (cases "replace_file ?tmp (state_path_of output) d1")
  have e: "(r, d') = (case r1 of Inl e \<Rightarrow> (Inl e, d1) | Inr _ \<Rightarrow> (r2, d2))"
    using assms 1 2 by (cases r1) (auto simp: save_state_def resume_of_def Let_def act_bind_def)
  have r1: "r1 = Inl CliIo \<or> r1 = Inr ()"
    using 1 by (auto simp: fs_write_def split: prod.splits option.splits fault.splits)
  note o1 = fs_write_other [OF 1]
  note c2 = replace_file_cases [OF 2 paths_distinct(3)]
  show "(r = Inr () \<and> files d' (state_path_of output) = Some ?enc)
      \<or> (r = Inl CliIo \<and> (files d' (state_path_of output) = files d (state_path_of output)
          \<or> files d' (state_path_of output) = None))"
  proof (cases r1)
    case (Inl e')
    then show ?thesis using e r1 o1 paths_distinct(3) [of "output"] by auto
  next
    case (Inr u)
    then have "files d1 ?tmp = Some ?enc" using 1 fs_write_Inr by blast
    then show ?thesis using e Inr c2(1) o1 [of "state_path_of output"] paths_distinct(3) [of "output"] by auto
  qed
  show "files d' q = files d q" if "q \<noteq> state_path_of output" "q \<noteq> ?tmp"
    using e o1 [OF that(2)] c2(2) [OF that(2,1)] by (auto split: sum.splits)
qed

lemma fs_write_at_cases:
  assumes "fs_write_at p off b d = (r, d')" "files d p = Some f"
  shows "(r = Inr () \<and> files d' = (files d)(p \<mapsto> overwrite off b f))
    \<or> (r = Inl CliIo \<and> (files d' = files d \<or> (\<exists>n. files d' = (files d)(p \<mapsto> overwrite off (take n b) f))))"
  using assms
  by (auto simp: fs_write_at_def split: prod.splits option.splits fault.splits dest!: next_fault_files)

text \<open>The state file and the partial file of a resumable state, with an updated partial file.\<close>

lemma resumable_keep:
  assumes shape: "validate_shape m = Inr ()" and d: "resumable pc H output m completed d"
    and f: "files d (part_path_of output) = Some f" and i: "i < length (m_chunks m)" "\<not> completed ! i"
    and b: "length b \<le> chunk_len m i"
    and d': "files d' (state_path_of output) = files d (state_path_of output)"
      "files d' (part_path_of output) = Some (overwrite (i * CHUNK_SIZE) b f)"
  shows "resumable pc H output m completed d'"
proof -
  let ?f = "overwrite (i * CHUNK_SIZE) b f"
  have e: "length completed = length (m_chunks m)" "length f = unat (m_length m)"
    "\<forall>j < length completed. completed ! j \<longrightarrow> chunk_verified H m f j"
    using d f by (auto simp: resumable_def)
  have "length ?f = length f" using chunk_end [OF shape i(1)] b e(2) by (intro length_overwrite) simp
  moreover have "chunk_verified H m ?f j" if "j < length completed" "completed ! j" for j
  proof -
    have "j \<noteq> i" using that i by auto
    then show ?thesis
      using e that chunk_bytes_overwrite(1) [OF shape i(1) _ e(2) b, of j] by (simp add: chunk_verified_def)
  qed
  ultimately show ?thesis using d f d' e(2) by (auto simp: resumable_def)
qed

lemma resumable_new:
  assumes shape: "validate_shape m = Inr ()" and d: "resumable pc H output m completed d"
    and pc: "postcard_sound pc m"
    and f: "files d (part_path_of output) = Some f" and i: "i < length (m_chunks m)"
    and b: "length b = chunk_len m i" "chunk_id_digest H b = m_chunks m ! i"
    and d': "files d' (state_path_of output) = Some (pc_encode pc
        \<lparr>rr_version = RESUME_VERSION, rr_manifest = m, rr_completed = completed[i := True]\<rparr>)"
      "files d' (part_path_of output) = Some (overwrite (i * CHUNK_SIZE) b f)"
  shows "resumable pc H output m (completed[i := True]) d'"
proof -
  let ?f = "overwrite (i * CHUNK_SIZE) b f" and ?c = "completed[i := True]"
  have e: "length completed = length (m_chunks m)" "length f = unat (m_length m)"
    "\<forall>j < length completed. completed ! j \<longrightarrow> chunk_verified H m f j"
    using d f by (auto simp: resumable_def)
  have "length ?f = unat (m_length m)" using chunk_end [OF shape i] b e(2) by (simp add: length_overwrite)
  moreover have "chunk_verified H m ?f j" if "j < length ?c" "?c ! j" for j
    using e that b chunk_bytes_overwrite [OF shape i _ e(2), of j b]
    by (cases "j = i") (auto simp: chunk_verified_def nth_list_update)
  moreover have "length ?c = length (m_chunks m)" using e(1) by simp
  ultimately show ?thesis
    using d' pc unfolding resumable_def postcard_sound_def Let_def by fastforce
qed

lemma write_verified_chunk_cases:
  assumes "validate_shape m = Inr ()" "verify_chunk H m c = Inr ()"
    and w: "write_verified_chunk pc H m c (resume_of output m completed) d = (r, d')"
    and f: "files d (part_path_of output) = Some f"
  obtains (failed) b e where "r = Inl e" "length b \<le> length (c_data c)"
      "files d' (part_path_of output) = Some f \<or>
        files d' (part_path_of output) = Some (overwrite (unat (c_index c) * CHUNK_SIZE) b f)"
      "files d' (state_path_of output) = files d (state_path_of output) \<or> files d' (state_path_of output) = None"
  | (written) "r = Inr (resume_of output m (completed[unat (c_index c) := True]))"
      "files d' (part_path_of output) = Some (overwrite (unat (c_index c) * CHUNK_SIZE) (c_data c) f)"
      "files d' (state_path_of output) = Some (pc_encode pc
        \<lparr>rr_version = RESUME_VERSION, rr_manifest = m, rr_completed = completed[unat (c_index c) := True]\<rparr>)"
proof -
  let ?i = "unat (c_index c)" and ?c' = "completed[unat (c_index c) := True]"
  have off: "chunk_offset m (c_index c) = ?i * CHUNK_SIZE"
    using expected_chunk_length_eq(2) [OF assms(1), of ?i] assms(2) by (simp add: verify_chunk_Inr_iff)
  obtain r1 d1 where 1: "fs_write_at (part_path_of output) (?i * CHUNK_SIZE) (c_data c) d = (r1, d1)"
    by (cases "fs_write_at (part_path_of output) (?i * CHUNK_SIZE) (c_data c) d")
  obtain r2 d2 where 2: "save_state pc (resume_of output m ?c') d1 = (r2, d2)"
    by (cases "save_state pc (resume_of output m ?c') d1")
  have eq: "(r, d') = (case r1 of Inl e \<Rightarrow> (Inl e, d1)
      | Inr _ \<Rightarrow> (case r2 of Inl e \<Rightarrow> (Inl e, d2) | Inr _ \<Rightarrow> (Inr (resume_of output m ?c'), d2)))"
    using w 1 2 assms(2) off
    by (cases r1; cases r2) (simp_all add: write_verified_chunk_def act_bind_def act_result_def
        act_return_def resume_of_def mark_completed_def Let_def)
  note c1 = fs_write_at_cases [OF 1 f] and p = paths_distinct [of "output"]
  have part: "files d2 (part_path_of output) = files d1 (part_path_of output)"
    by (rule save_state_cases(2) [OF 2]) (use p in auto)
  show thesis
  proof (cases "r1 = Inr () \<and> r2 = Inr ()")
    case True
    then show ?thesis using written eq c1 part save_state_cases(1) [OF 2] by auto
  next
    case False
    then have e: "\<exists>e. r = Inl e" "d' = d1 \<or> r1 = Inr () \<and> d' = d2"
      using eq by (auto split: sum.splits)
    have st: "files d1 (state_path_of output) = files d (state_path_of output)" using c1 p(1) by auto
    have "\<exists>b. length b \<le> length (c_data c) \<and> (files d1 (part_path_of output) = Some f \<or>
        files d1 (part_path_of output) = Some (overwrite (?i * CHUNK_SIZE) b f))"
    proof (cases "r1 = Inr () \<or> files d1 = files d")
      case True
      then show ?thesis using c1 f by auto
    next
      case False
      then obtain n where "files d1 = (files d)(part_path_of output \<mapsto> overwrite (?i * CHUNK_SIZE) (take n (c_data c)) f)"
        using c1 by auto
      then show ?thesis by (intro exI [of _ "take n (c_data c)"]) simp
    qed
    moreover have "files d' (part_path_of output) = files d1 (part_path_of output)" using e(2) part by auto
    moreover have "files d' (state_path_of output) = files d (state_path_of output) \<or> files d' (state_path_of output) = None"
      using e False st save_state_cases(1) [OF 2] by auto
    ultimately show ?thesis using failed e(1) by metis
  qed
qed

lemma write_verified_chunk_crash:
  assumes shape: "validate_shape m = Inr ()" and pc: "postcard_sound pc m"
    and d: "resumable pc H output m completed d" and i: "\<not> completed ! unat (c_index c)"
    and len: "length (c_data c) = chunk_len m (unat (c_index c))"
    and w: "write_verified_chunk pc H m c (resume_of output m completed) d = (r, d')"
  shows "files d' (state_path_of output) \<noteq> None \<Longrightarrow>
      resumable pc H output m completed d' \<or> resumable pc H output m (completed[unat (c_index c) := True]) d'"
    and "r = Inr x \<Longrightarrow> x = resume_of output m (completed[unat (c_index c) := True])
      \<and> resumable pc H output m (completed[unat (c_index c) := True]) d'"
proof -
  let ?c' = "completed[unat (c_index c) := True]"
  obtain f where f: "files d (part_path_of output) = Some f" using d by (auto simp: resumable_def)
  have "(files d' (state_path_of output) \<noteq> None \<longrightarrow>
      resumable pc H output m completed d' \<or> resumable pc H output m ?c' d')
    \<and> (\<forall>x. r = Inr x \<longrightarrow> x = resume_of output m ?c' \<and> resumable pc H output m ?c' d')"
  proof (cases "verify_chunk H m c")
    case (Inl err)
    then have "d' = d" "\<forall>x. r \<noteq> Inr x"
      using w by (auto simp: write_verified_chunk_def act_bind_def act_result_def)
    then show ?thesis using d by simp
  next
    case (Inr u)
    then have v: "unat (c_index c) < length (m_chunks m)"
      "chunk_id_digest H (c_data c) = m_chunks m ! unat (c_index c)" "verify_chunk H m c = Inr ()"
      by (simp_all add: verify_chunk_Inr_iff)
    show ?thesis
    proof (cases rule: write_verified_chunk_cases [OF shape v(3) w f])
      case (1 b e)
      show ?thesis
      proof (cases "files d' (part_path_of output) = Some f")
        case True
        then show ?thesis using 1(1,4) d f by (auto simp: resumable_def)
      next
        case False
        then show ?thesis using resumable_keep [OF shape d f v(1) i, of b d'] 1 len by auto
      qed
    next
      case 2
      then show ?thesis using resumable_new [OF shape d pc f v(1) len v(2)] by simp
    qed
  qed
  then show "files d' (state_path_of output) \<noteq> None \<Longrightarrow>
      resumable pc H output m completed d' \<or> resumable pc H output m ?c' d'"
    "r = Inr x \<Longrightarrow> x = resume_of output m ?c' \<and> resumable pc H output m ?c' d'"
    by auto
qed

section \<open>Opening and finishing\<close>

lemma resume_open_fresh:
  assumes "validate_shape m = Inr ()" "postcard_sound pc m"
    and "\<not> fs_exists (state_path_of output) d" "\<not> fs_exists (part_path_of output) d"
    and "resume_open pc H output m d = (Inr (r, n), d')"
  shows "r = resume_of output m (replicate (length (m_chunks m)) False) \<and> n = 0
    \<and> resumable pc H output m (replicate (length (m_chunks m)) False) d'"
proof -
  let ?c = "replicate (length (m_chunks m)) False"
  obtain d1 where d1: "fs_create (part_path_of output) (unat (m_length m)) d = (Inr (), d1)"
    "save_state pc (resume_of output m ?c) d1 = (Inr (), d')"
    and r: "r = resume_of output m ?c" "n = 0"
    using assms(1,3-5)
    by (auto simp: resume_open_def Let_def result_iffs resume_of_def
        part_path_of_def [symmetric] state_path_of_def [symmetric] split: if_splits)
  have "files d' (part_path_of output) = Some (replicate (unat (m_length m)) 0)"
    using save_state_cases(2) [OF d1(2), of "part_path_of output"] fs_create_Inr [OF d1(1)]
      paths_distinct [of "output"] by auto
  moreover have "files d' (state_path_of output) = Some (pc_encode pc
      \<lparr>rr_version = RESUME_VERSION, rr_manifest = m, rr_completed = ?c\<rparr>)"
    using save_state_cases(1) [OF d1(2)] by simp
  ultimately show ?thesis
    using r assms(2) unfolding resumable_def postcard_sound_def Let_def by fastforce
qed

lemma resume_open_sound:
  assumes "postcard_sound pc m" "resume_open pc H output m d = (Inr (r, n), d')"
  shows "validate_shape m = Inr () \<and> resumable pc H output m (rr_completed (rd_record r)) d'
    \<and> r = resume_of output m (rr_completed (rd_record r))
    \<and> n = length (filter (\<lambda>finished. finished) (rr_completed (rd_record r)))"
proof -
  have shape: "validate_shape m = Inr ()"
    using assms(2) by (auto simp: resume_open_def result_iffs)
  have "fs_exists (state_path_of output) d = fs_exists (part_path_of output) d"
    using assms(2) shape
    by (auto simp: resume_open_def Let_def result_iffs part_path_of_def state_path_of_def split: if_splits)
  then show ?thesis
    using resume_open_existing [OF shape _ _ assms(2)] resume_open_fresh [OF shape assms(1) _ _ assms(2)] shape
    by (cases "fs_exists (state_path_of output) d") (auto simp: resume_of_def)
qed

lemma resume_finish_cases:
  assumes "resume_finish H output c (resume_of output m completed) d = (r, d')"
  shows "files d' output = files d output \<or> files d' output = None
      \<or> (\<exists>f. files d (part_path_of output) = Some f \<and> files d' output = Some f
          \<and> content_id_digest H f = c \<and> length f = unat (m_length m))"
    and "r = Inr () \<Longrightarrow> (\<exists>f. files d (part_path_of output) = Some f \<and> files d' output = Some f
        \<and> content_id_digest H f = c \<and> length f = unat (m_length m))
      \<and> files d' (part_path_of output) = None \<and> files d' (state_path_of output) = None"
proof -
  note p = paths_distinct [of "output"]
  obtain r1 d1 where 1: "fs_read (part_path_of output) d = (r1, d1)" by (cases "fs_read (part_path_of output) d")
  note f1 = fs_read_files [OF 1]
  have "(files d' output = files d output \<or> files d' output = None
      \<or> (\<exists>f. files d (part_path_of output) = Some f \<and> files d' output = Some f
          \<and> content_id_digest H f = c \<and> length f = unat (m_length m)))
    \<and> (r = Inr () \<longrightarrow> (\<exists>f. files d (part_path_of output) = Some f \<and> files d' output = Some f
        \<and> content_id_digest H f = c \<and> length f = unat (m_length m))
      \<and> files d' (part_path_of output) = None \<and> files d' (state_path_of output) = None)"
  proof (cases r1)
    case (Inl e)
    then show ?thesis using assms 1 f1 by (auto simp: resume_finish_def act_bind_def resume_of_def)
  next
    case (Inr f)
    have f: "files d (part_path_of output) = Some f" using fs_read_Inr 1 Inr by blast
    show ?thesis
    proof (cases "length f = unat (m_length m) \<and> content_id_digest H f = c")
      case False
      then show ?thesis
        using assms 1 f1 Inr by (auto simp: resume_finish_def act_bind_def resume_of_def act_bail_def)
    next
      case True
      obtain r2 d2 where 2: "replace_file (part_path_of output) output d1 = (r2, d2)"
        by (cases "replace_file (part_path_of output) output d1")
      obtain r3 d3 where 3: "fs_remove (state_path_of output) d2 = (r3, d3)"
        by (cases "fs_remove (state_path_of output) d2")
      have "(r, d') = (case r2 of Inl e \<Rightarrow> (Inl e, d2) | Inr _ \<Rightarrow> (r3, d3))"
        using assms 1 2 3 Inr True
        by (cases r2) (auto simp: resume_finish_def act_bind_def resume_of_def)
      then show ?thesis
        using replace_file_cases [OF 2 p(4)] fs_remove_cases [OF 3] f f1 p True
        by (auto split: sum.splits)
    qed
  qed
  then show "files d' output = files d output \<or> files d' output = None
      \<or> (\<exists>f. files d (part_path_of output) = Some f \<and> files d' output = Some f
          \<and> content_id_digest H f = c \<and> length f = unat (m_length m))"
    "r = Inr () \<Longrightarrow> (\<exists>f. files d (part_path_of output) = Some f \<and> files d' output = Some f
        \<and> content_id_digest H f = c \<and> length f = unat (m_length m))
      \<and> files d' (part_path_of output) = None \<and> files d' (state_path_of output) = None"
    by auto
qed

section \<open>Properties\<close>

text \<open>
  (C10) Resume state is only trusted after revalidation: when \<open>open\<close> succeeds, whether it found
  files or created them, the partial file has the manifest's length, the completion bits match the
  manifest, and every chunk they mark as completed is on disk with the digest the manifest lists.
\<close>

theorem resume_open_verified:
  assumes "postcard_sound pc m" "resume_open pc H output m d = (Inr (r, n), d')"
  shows "\<exists>f. files d' (part_path_of output) = Some f \<and> length f = unat (m_length m)
    \<and> rr_manifest (rd_record r) = m \<and> length (rr_completed (rd_record r)) = length (m_chunks m)
    \<and> n = length (filter (\<lambda>finished. finished) (rr_completed (rd_record r)))
    \<and> (\<forall>i < length (m_chunks m). rr_completed (rd_record r) ! i \<longrightarrow>
        chunk_id_digest H (chunk_bytes m f i) = m_chunks m ! i)"
proof -
  note o = resume_open_sound [OF assms]
  then have "rr_manifest (rd_record r) = m" by (metis resume_of_def resume_download.select_convs(3) resume_record.select_convs(2))
  then show ?thesis using o unfolding resumable_def chunk_verified_def by metis
qed


text \<open>
  (C11) Only verified content is published: whatever fails while finishing, the output path holds
  what it held before, nothing, or a file of the manifest's length whose digest is the content
  identifier; and when finishing reports success it holds that file and the resume files are gone.
\<close>

theorem finish_publishes_verified:
  assumes "resume_finish H output c (resume_of output m completed) d = (r, d')"
  shows "(files d' output = files d output \<or> files d' output = None
      \<or> (\<exists>f. files d' output = Some f \<and> content_id_digest H f = c \<and> length f = unat (m_length m)))
    \<and> (is_ok r \<longrightarrow>
        (\<exists>f. files d' output = Some f \<and> content_id_digest H f = c \<and> length f = unat (m_length m))
        \<and> files d' (part_path_of output) = None \<and> files d' (state_path_of output) = None)"
  using resume_finish_cases [OF assms] by (auto simp: is_ok_iff)

section \<open>Instances\<close>

definition demo_manifest :: manifest where
  "demo_manifest = \<lparr>m_content_id = ContentId (bytes32_fill 7), m_length = 2, m_chunk_size = 32768,
    m_chunks = [ChunkId (bytes32_fill 7)]\<rparr>"

definition demo_postcard :: postcard where
  "demo_postcard = \<lparr>pc_encode = (\<lambda>r. map (\<lambda>b. if b then 1 else 0) (rr_completed r)),
    pc_decode = (\<lambda>e. Some \<lparr>rr_version = RESUME_VERSION, rr_manifest = demo_manifest,
      rr_completed = map (\<lambda>x. x = 1) e\<rparr>)\<rparr>"

definition demo_disk :: "fault option list \<Rightarrow> disk" where
  "demo_disk fs = \<lparr>files = [part_path_of [] \<mapsto> [0, 0], state_path_of [] \<mapsto> [0]], faults = fs\<rparr>"

definition demo_chunk :: chunk where
  "demo_chunk = \<lparr>c_index = 0, c_id = ChunkId (bytes32_fill 7), c_data = [1, 2]\<rparr>"

lemma demo_shape: "validate_shape demo_manifest = Inr ()"
  by (simp add: validate_shape_def demo_manifest_def CHUNK_SIZE_def MAX_CONTENT_LENGTH_def
      MAX_MANIFEST_CHUNKS_def div_ceil_def)

lemma demo_postcard_sound: "postcard_sound demo_postcard demo_manifest"
  by (auto simp: postcard_sound_def demo_postcard_def Let_def demo_manifest_def MAX_RESUME_STATE_BYTES_def
      o_def intro!: map_idI)

lemma demo_resumable: "resumable demo_postcard (\<lambda>_. bytes32_fill 7) [] demo_manifest [False] (demo_disk fs)"
  using paths_distinct [of "[]"]
  by (simp add: resumable_def demo_disk_def demo_postcard_def demo_manifest_def MAX_RESUME_STATE_BYTES_def)

theorem resume_open_verified_witness:
  "\<exists>r n d'. resume_open demo_postcard (\<lambda>_. bytes32_fill 7) [] demo_manifest (demo_disk []) = (Inr (r, n), d')
    \<and> length (rr_completed (rd_record r)) = 1"
proof -
  have o: "resume_open demo_postcard (\<lambda>_. bytes32_fill 7) [] demo_manifest (demo_disk []) =
      (Inr (resume_of [] demo_manifest [False], length (filter (\<lambda>finished. finished) [False])), demo_disk [])"
    by (rule resume_open_resumable [OF demo_shape demo_resumable]) (simp add: demo_disk_def)
  show ?thesis using resume_open_verified [OF demo_postcard_sound o] o by (auto simp: demo_manifest_def)
qed

lemma demo_write_fails:
  "\<exists>d'. write_verified_chunk demo_postcard (\<lambda>_. bytes32_fill 7) demo_manifest demo_chunk
      (resume_of [] demo_manifest [False]) (demo_disk [Some (Partly 1)]) = (Inl CliIo, d')
    \<and> files d' (state_path_of []) = Some [0]"
  using paths_distinct [of "[]"]
  by (simp add: write_verified_chunk_def act_bind_def act_result_def verify_chunk_def demo_chunk_def
      demo_manifest_def chunk_id_digest_def fs_write_at_def next_fault_def demo_disk_def resume_of_def)


theorem finish_publishes_verified_witness:
  "\<exists>r d'. resume_finish (\<lambda>_. bytes32_fill 7) [] (ContentId (bytes32_fill 7))
      (resume_of [] demo_manifest [True]) (demo_disk []) = (r, d') \<and> is_ok r
    \<and> (\<exists>f. files d' [] = Some f \<and> length f = 2)"
proof -
  obtain r d' where f: "resume_finish (\<lambda>_. bytes32_fill 7) [] (ContentId (bytes32_fill 7))
      (resume_of [] demo_manifest [True]) (demo_disk []) = (r, d')"
    by (cases "resume_finish (\<lambda>_. bytes32_fill 7) [] (ContentId (bytes32_fill 7))
      (resume_of [] demo_manifest [True]) (demo_disk [])")
  then have "r = Inr ()"
    using paths_distinct [of "[]"]
    by (auto simp: resume_finish_def act_bind_def fs_read_def next_fault_def demo_disk_def resume_of_def
        demo_manifest_def content_id_digest_def replace_file_def fs_rename_def fs_remove_def)
  then show ?thesis
    using finish_publishes_verified [OF f] f by (auto simp: is_ok_iff demo_manifest_def)
qed

definition short_hash :: hash where
  "short_hash = (\<lambda>b. bytes32_fill (if b = [1] then 7 else 9))"


end
