(* ===== verification/Rate.thy ===== *)
theory Rate
  imports Rust_Std
begin

text \<open>
  The leaky-bucket reservation of \<open>triptorrent-swarm/src/lib.rs\<close> (\<open>RateSchedule\<close>), used by the
  runtime rate limiter.  Instants and durations are nanoseconds since the limiter's epoch.
\<close>

section \<open>The rate schedule\<close>

record rate_schedule =
  rs_bytes_per_second :: u64
  rs_next_available_ns :: u128

definition u128_max :: nat where
  "u128_max = 2 ^ 128 - 1"

definition saturating_mul_u128 :: "u128 \<Rightarrow> u128 \<Rightarrow> u128" where
  "saturating_mul_u128 a b = (if unat a * unat b \<le> u128_max then a * b else - 1)"

definition saturating_add_u128 :: "u128 \<Rightarrow> u128 \<Rightarrow> u128" where
  "saturating_add_u128 a b = (if unat a + unat b \<le> u128_max then a + b else - 1)"

definition saturating_sub_u128 :: "u128 \<Rightarrow> u128 \<Rightarrow> u128" where
  "saturating_sub_u128 a b = (if b \<le> a then a - b else 0)"

text \<open>A \<open>Duration\<close> is the number of its nanoseconds.\<close>

definition duration_from_nanos :: "u128 \<Rightarrow> nat" where
  "duration_from_nanos nanos = unat (unwrap_or (u64_try_from (unat nanos)) (- 1 :: u64))"

definition rate_new :: "u64 \<Rightarrow> rate_schedule" where
  "rate_new bytes_per_second =
    \<lparr>rs_bytes_per_second = bytes_per_second, rs_next_available_ns = 0\<rparr>"

definition reserve :: "rate_schedule \<Rightarrow> u128 \<Rightarrow> u64 \<Rightarrow> nat \<times> rate_schedule" where
  "reserve rs now_ns bytes =
    (if rs_bytes_per_second rs = 0 \<or> bytes = 0 then (0, rs)
     else
       let start = max (rs_next_available_ns rs) now_ns;
           service_ns = of_nat (div_ceil
             (unat (saturating_mul_u128 (ucast bytes) 1000000000))
             (unat (rs_bytes_per_second rs)))
       in (duration_from_nanos (saturating_sub_u128 start now_ns),
           rs\<lparr>rs_next_available_ns := saturating_add_u128 start service_ns\<rparr>))"

section \<open>Arithmetic of one reservation\<close>

lemma unat_ucast_u64: "unat (ucast (b :: u64) :: u128) = unat b"
proof -
  have "unat b < 2 ^ LENGTH(64)" by (rule unsigned_less)
  then show ?thesis by (simp add: unsigned_ucast_eq take_bit_nat_eq_self)
qed

lemma unat_u64_bound: "unat (b :: u64) < 2 ^ 64"
proof -
  have "unat b < 2 ^ LENGTH(64)" by (rule unsigned_less)
  then show ?thesis by simp
qed

text \<open>The nanoseconds that \<open>bytes\<close> take at a rate.\<close>

definition service_time :: "u64 \<Rightarrow> u64 \<Rightarrow> nat" where
  "service_time rate bytes = div_ceil (unat bytes * 1000000000) (unat rate)"

lemma billion_product: "unat (saturating_mul_u128 (ucast (b :: u64)) 1000000000) = unat b * 1000000000"
proof -
  have n: "unat (1000000000 :: u128) = 1000000000" by simp
  have "unat b * 1000000000 < 2 ^ 64 * 2 ^ 30"
    using unat_u64_bound [of b] by (intro mult_strict_mono) auto
  then have "unat b * 1000000000 < 2 ^ 128" by (simp add: power_add [symmetric])
  then show ?thesis
    by (simp add: saturating_mul_u128_def u128_max_def unat_ucast_u64 n unat_word_ariths)
qed

lemma div_ceil_le: "0 < r \<Longrightarrow> div_ceil a r \<le> a"
  by (subst div_ceil_le_iff) auto

lemma service_time_bound: "rate \<noteq> 0 \<Longrightarrow> service_time rate b < 2 ^ 94"
proof -
  assume "rate \<noteq> 0"
  then have "0 < unat rate" by (simp add: unat_gt_0)
  then have "service_time rate b \<le> unat b * 1000000000" by (simp add: service_time_def div_ceil_le)
  also have "\<dots> < 2 ^ 64 * 2 ^ 30" using unat_u64_bound [of b] by (intro mult_strict_mono) auto
  finally show ?thesis by (simp add: power_add [symmetric])
qed

lemma unat_saturating_add_u128: "unat (saturating_add_u128 a b) = min (unat a + unat b) u128_max"
proof -
  have "unat (- 1 :: u128) = u128_max"
    by (simp add: u128_max_def unsigned_minus_1_eq_mask mask_eq_exp_minus_1)
  moreover have "unat a + unat b \<le> u128_max \<Longrightarrow> unat (a + b) = unat a + unat b"
    by (simp add: unat_word_ariths u128_max_def)
  ultimately show ?thesis by (simp add: saturating_add_u128_def)
qed

lemma unat_saturating_sub_u128: "unat (saturating_sub_u128 a b) = unat a - unat b"
  by (simp add: saturating_sub_u128_def unat_sub word_le_nat_alt)

lemma unwrap_u64_max: "unat (unwrap_or (u64_try_from k) (- 1 :: u64)) = min k u64_max"
proof -
  have "unat (- 1 :: u64) = u64_max"
    by (simp add: u64_max_def unsigned_minus_1_eq_mask mask_eq_exp_minus_1)
  then show ?thesis by (simp add: u64_try_from_def unat_of_nat_u64 min_def)
qed

lemma duration_from_nanos_eq: "duration_from_nanos n = min (unat n) u64_max"
  by (simp only: duration_from_nanos_def unwrap_u64_max)

lemma unat_max: "unat (max a b) = max (unat a) (unat b)"
  by (simp add: max_def word_le_nat_alt)

lemma reserve_next:
  assumes "rs_bytes_per_second rs \<noteq> 0" "bytes \<noteq> 0"
  shows "unat (rs_next_available_ns (snd (reserve rs now bytes))) =
    min (max (unat (rs_next_available_ns rs)) (unat now)
      + service_time (rs_bytes_per_second rs) bytes) u128_max"
proof -
  have "service_time (rs_bytes_per_second rs) bytes < 2 ^ 128"
    using service_time_bound [OF assms(1), of bytes] by simp
  then have "unat (of_nat (service_time (rs_bytes_per_second rs) bytes) :: u128)
      = service_time (rs_bytes_per_second rs) bytes"
    by (simp add: unat_of_nat)
  then show ?thesis
    using assms
    by (simp add: reserve_def Let_def unat_saturating_add_u128 billion_product unat_max
        service_time_def [symmetric])
qed

lemma reserve_wait:
  assumes "rs_bytes_per_second rs \<noteq> 0" "bytes \<noteq> 0"
  shows "fst (reserve rs now bytes) =
    min (unat (rs_next_available_ns rs) - unat now) u64_max"
  using assms
  by (simp add: reserve_def Let_def duration_from_nanos_eq unat_saturating_sub_u128 unat_max max_def
      word_le_nat_alt)

lemma reserve_rate_unchanged [simp]:
  "rs_bytes_per_second (snd (reserve rs now bytes)) = rs_bytes_per_second rs"
  by (simp add: reserve_def Let_def)

section \<open>Sequences of reservations\<close>

fun reserve_all :: "rate_schedule \<Rightarrow> (u128 \<times> u64) list \<Rightarrow> rate_schedule" where
  "reserve_all rs [] = rs"
| "reserve_all rs ((now, bytes) # reqs) = reserve_all (snd (reserve rs now bytes)) reqs"

definition bytes_total :: "(u128 \<times> u64) list \<Rightarrow> nat" where
  "bytes_total reqs = sum_list (map (\<lambda>(_, b). unat b) reqs)"

lemma service_time_rate:
  "rate \<noteq> 0 \<Longrightarrow> unat bytes * 1000000000 \<le> unat rate * service_time rate bytes"
  by (simp add: service_time_def div_ceil_ge unat_gt_0)

lemma reserve_step:
  assumes r: "rs_bytes_per_second rs \<noteq> 0" and now: "unat now < 2 ^ 94"
    and n: "unat (rs_next_available_ns rs) \<le> k * 2 ^ 95" "k < 2 ^ 32"
  shows "unat (rs_next_available_ns (snd (reserve rs now bytes))) \<le> (k + 1) * 2 ^ 95"
    and "unat (rs_bytes_per_second rs) * unat (rs_next_available_ns rs) + unat bytes * 1000000000
      \<le> unat (rs_bytes_per_second rs) * unat (rs_next_available_ns (snd (reserve rs now bytes)))"
proof -
  let ?r = "rs_bytes_per_second rs" and ?n = "rs_next_available_ns rs"
  let ?s = "service_time ?r bytes"
  have s: "?s < 2 ^ 94" using service_time_bound [OF r] .
  have le: "max (unat ?n) (unat now) + ?s \<le> (k + 1) * 2 ^ 95" using n(1) now s by simp
  also have "\<dots> \<le> 2 ^ 32 * 2 ^ 95" using n(2) by (intro mult_right_mono) auto
  finally have "max (unat ?n) (unat now) + ?s \<le> u128_max" by (simp add: u128_max_def)
  then have nx: "unat (rs_next_available_ns (snd (reserve rs now bytes))) =
      max (unat ?n) (unat now) + ?s" if "bytes \<noteq> 0"
    using reserve_next [OF r that, of now] by simp
  have zero: "snd (reserve rs now bytes) = rs" if "bytes = 0" using that by (simp add: reserve_def)
  show "unat (rs_next_available_ns (snd (reserve rs now bytes))) \<le> (k + 1) * 2 ^ 95"
    using le nx zero n(1) by (cases "bytes = 0") auto
  have "unat ?r * unat ?n + unat bytes * 1000000000 \<le> unat ?r * (max (unat ?n) (unat now) + ?s)"
    using service_time_rate [OF r, of bytes] by (simp add: distrib_left) (simp add: add_mono)
  then show "unat ?r * unat ?n + unat bytes * 1000000000
      \<le> unat ?r * unat (rs_next_available_ns (snd (reserve rs now bytes)))"
    using nx zero by (cases "bytes = 0") auto
qed

lemma reserve_all_rate:
  assumes "rs_bytes_per_second rs \<noteq> 0" "list_all (\<lambda>(now, _). unat now < 2 ^ 94) reqs"
    and "unat (rs_next_available_ns rs) \<le> k * 2 ^ 95" "k + length reqs \<le> 2 ^ 32"
  shows "unat (rs_bytes_per_second rs) * unat (rs_next_available_ns rs) + bytes_total reqs * 1000000000
    \<le> unat (rs_bytes_per_second rs) * unat (rs_next_available_ns (reserve_all rs reqs))
    \<and> rs_bytes_per_second (reserve_all rs reqs) = rs_bytes_per_second rs"
  using assms
proof (induction reqs arbitrary: rs k)
  case (Cons q reqs)
  obtain now bytes where q: "q = (now, bytes)" by (cases q)
  let ?rs = "snd (reserve rs now bytes)"
  have k: "k < 2 ^ 32" and t: "unat now < 2 ^ 94" using Cons.prems q by auto
  note step = reserve_step [OF Cons.prems(1) t Cons.prems(3) k, of bytes]
  have "unat (rs_bytes_per_second ?rs) * unat (rs_next_available_ns ?rs) + bytes_total reqs * 1000000000
      \<le> unat (rs_bytes_per_second ?rs) * unat (rs_next_available_ns (reserve_all ?rs reqs))
      \<and> rs_bytes_per_second (reserve_all ?rs reqs) = rs_bytes_per_second ?rs"
    using Cons.prems step(1) by (intro Cons.IH [of ?rs "k + 1"]) auto
  then show ?case using step(2) q by (simp add: bytes_total_def add_mult_distrib)
qed (simp add: bytes_total_def)

section \<open>Properties\<close>

text \<open>
  (C31) The configured rate is kept.  After any sequence of fewer than \<open>2^32\<close> reservations from a
  fresh schedule, a further reservation of a positive number of bytes makes its caller wait until
  an instant by which all bytes reserved before fit the rate (unless the wait was clipped to the
  largest duration).
\<close>

theorem reserve_keeps_rate:
  assumes "rate \<noteq> 0" "bytes \<noteq> 0" "length reqs \<le> 2 ^ 32"
    and "list_all (\<lambda>(now, _). unat now < 2 ^ 94) reqs"
    and "reserve (reserve_all (rate_new rate) reqs) now bytes = (wait, rs)" "wait < u64_max"
  shows "bytes_total reqs * 1000000000 \<le> unat rate * (unat now + wait)"
proof -
  let ?rs = "reserve_all (rate_new rate) reqs"
  have *: "bytes_total reqs * 1000000000 \<le> unat rate * unat (rs_next_available_ns ?rs)"
    and r: "rs_bytes_per_second ?rs = rate"
    using reserve_all_rate [of "rate_new rate" reqs 0] assms by (simp_all add: rate_new_def)
  have "wait = min (unat (rs_next_available_ns ?rs) - unat now) u64_max"
    using reserve_wait [of ?rs bytes now] assms r by simp
  then have "unat (rs_next_available_ns ?rs) \<le> unat now + wait" using assms(6) by simp
  then have "unat rate * unat (rs_next_available_ns ?rs) \<le> unat rate * (unat now + wait)"
    by (intro mult_left_mono) auto
  with * show ?thesis by linarith
qed

theorem reserve_keeps_rate_witness:
  "bytes_total [(0, 1000)] * 1000000000 \<le> unat (1000 :: u64) * (unat (0 :: u128) + 1000000000)"
proof (rule reserve_keeps_rate [of 1000 1 "[(0, 1000)]" 0 1000000000])
  show "reserve (reserve_all (rate_new 1000) [(0, 1000)]) 0 1 =
      (1000000000, \<lparr>rs_bytes_per_second = 1000, rs_next_available_ns = 1001000000\<rparr>)"
    by (simp add: reserve_def rate_new_def Let_def saturating_mul_u128_def saturating_add_u128_def
        saturating_sub_u128_def duration_from_nanos_def u64_try_from_def u64_max_def u128_max_def
        div_ceil_def)
qed (simp_all add: u64_max_def)

end
