(* ===== verification/Download.thy ===== *)
theory Download
  imports Resume Rate
begin

text \<open>
  The multi-source download of \<open>triptorrent-cli/src/lib.rs\<close>: \<open>download_chunks\<close> hands chunks to
  provider workers, verifies and stores their answers, and \<open>receive_swarm\<close> runs it between opening
  the resume state and publishing the file.  What the threads and the network do is an argument:
  a list of events, one for each turn of the loop.
\<close>

section \<open>Progress\<close>

record progress =
  pr_bytes_total :: nat
  pr_verified_bytes :: nat
  pr_total_chunks :: nat
  pr_verified_chunks :: nat
  pr_provider_count :: nat
  pr_retry_count :: nat
  pr_rejected_chunks :: nat

text \<open>The loop of \<open>report_verified_progress\<close>: verified bytes (saturating) and chunks.\<close>

fun count_verified :: "manifest \<Rightarrow> nat \<Rightarrow> bool list \<Rightarrow> nat \<times> nat \<Rightarrow> cli_error + nat \<times> nat" where
  "count_verified m index [] acc = Inr acc"
| "count_verified m index (finished # completed) acc =
    (if finished then
       and_then (ok_or (u32_try_from index) (CliBail ''progress chunk index overflow'')) (\<lambda>i.
       and_then (expected_chunk_length m i) (\<lambda>len.
       count_verified m (index + 1) completed (min (fst acc + len) u64_max, snd acc + 1)))
     else count_verified m (index + 1) completed acc)"

definition report_verified_progress ::
  "manifest \<Rightarrow> bool list \<Rightarrow> nat \<Rightarrow> nat \<Rightarrow> nat \<Rightarrow> cli_error + progress" where
  "report_verified_progress m completed provider_count retry_count rejected_chunks =
    and_then (count_verified m 0 completed (0, 0)) (\<lambda>(bytes, chunks).
    Inr \<lparr>pr_bytes_total = unat (m_length m), pr_verified_bytes = bytes,
         pr_total_chunks = length (m_chunks m), pr_verified_chunks = chunks,
         pr_provider_count = provider_count, pr_retry_count = retry_count,
         pr_rejected_chunks = rejected_chunks\<rparr>)"

definition rejected_requests :: "scheduler \<Rightarrow> nat \<Rightarrow> nat" where
  "rejected_requests s provider_count =
    sum_list (map (\<lambda>slot. case provider_stats_of s slot of None \<Rightarrow> 0 | Some stats \<Rightarrow> st_rejected stats)
      [0..<provider_count])"

section \<open>The download loop\<close>

text \<open>
  One turn: whether the monitor lets the transfer continue, which workers take a command, and the
  next result: none within the timeout, or the answer to one of the outstanding requests (chosen
  by a number), which is a chunk or a failure.
\<close>

record event =
  ev_continue :: bool
  ev_sent :: "nat \<Rightarrow> bool"
  ev_result :: "(nat \<times> (nat \<Rightarrow> u32 \<Rightarrow> chunk option)) option"

record download =
  dl_scheduler :: scheduler
  dl_resume :: resume_download
  dl_pending :: "(nat \<times> u32) list"
  dl_reports :: "progress list"

text \<open>The assignment loop over the workers: the scheduler, the requests sent, and \<open>assigned\<close>.\<close>

fun assign_workers ::
  "manifest \<Rightarrow> (nat \<Rightarrow> bool) \<Rightarrow> nat list \<Rightarrow> scheduler \<times> (nat \<times> u32) list \<times> bool
    \<Rightarrow> cli_error + scheduler \<times> (nat \<times> u32) list \<times> bool" where
  "assign_workers m sent [] acc = Inr acc"
| "assign_workers m sent (slot # slots) (s, pending, assigned) =
    (case assign s slot of
       (None, s) \<Rightarrow> assign_workers m sent slots (s, pending, assigned)
     | (Some index, s) \<Rightarrow>
         and_then (expected_chunk_length m index) (\<lambda>_.
         if sent slot then assign_workers m sent slots (s, pending @ [(slot, index)], True)
         else assign_workers m sent slots (reject s slot, pending, assigned)))"

definition report ::
  "manifest \<Rightarrow> nat \<Rightarrow> download \<Rightarrow> cli_error + download" where
  "report m n s =
    and_then (report_verified_progress m (rr_completed (rd_record (dl_resume s))) n
      (retries (dl_scheduler s)) (rejected_requests (dl_scheduler s) n)) (\<lambda>p.
    Inr (s\<lparr>dl_reports := dl_reports s @ [p]\<rparr>))"

text \<open>The match on a worker's result.\<close>

definition take_result ::
  "postcard \<Rightarrow> hash \<Rightarrow> manifest \<Rightarrow> nat \<Rightarrow> nat \<times> u32 \<Rightarrow> chunk option \<Rightarrow> download \<Rightarrow> download act" where
  "take_result pc H m n request response s =
    (case request of (provider, requested) \<Rightarrow>
     let s = s\<lparr>dl_pending := remove1 request (dl_pending s)\<rparr>;
         rejected = (let s = s\<lparr>dl_scheduler := reject (dl_scheduler s) provider\<rparr> in
           act_bind (act_result (report m n s)) (\<lambda>s.
           if \<not> can_finish (dl_scheduler s)
           then act_bail ''no honest provider remains for a required chunk''
           else act_return s)) in
     case response of
       None \<Rightarrow> rejected
     | Some c \<Rightarrow>
         if c_index c = requested \<and> is_ok (verify_chunk H m c) then
           act_bind (write_verified_chunk pc H m c (dl_resume s)) (\<lambda>r.
           case accept (dl_scheduler s) provider (c_index c) of
             (Inl e, _) \<Rightarrow> act_result (Inl (CliSchedule e))
           | (Inr _, sched) \<Rightarrow>
               act_result (report m n (s\<lparr>dl_resume := r, dl_scheduler := sched\<rparr>)))
         else rejected)"

text \<open>
  The loop, on a list of events; \<open>None\<close> means that it is still running when they are used up.
\<close>

fun download_chunks ::
  "postcard \<Rightarrow> hash \<Rightarrow> manifest \<Rightarrow> nat \<Rightarrow> event list \<Rightarrow> download \<Rightarrow> disk
    \<Rightarrow> ((cli_error + download) \<times> disk) option" where
  "download_chunks pc H m n [] s d =
    (if is_complete (dl_scheduler s) then Some (Inr s, d) else None)"
| "download_chunks pc H m n (ev # evs) s d =
    (if is_complete (dl_scheduler s) then Some (Inr s, d)
     else if \<not> ev_continue ev then Some (Inl (CliBail ''fetch stopped by local control''), d)
     else case assign_workers m (ev_sent ev) [0..<n] (dl_scheduler s, dl_pending s, False) of
       Inl e \<Rightarrow> Some (Inl e, d)
     | Inr (sched, pending, assigned) \<Rightarrow>
         let s = s\<lparr>dl_scheduler := sched, dl_pending := pending\<rparr> in
         if is_complete sched then Some (Inr s, d)
         else if \<not> has_in_flight sched \<and> \<not> assigned
         then Some (Inl (CliBail ''no healthy provider can supply the remaining chunks''), d)
         else case ev_result ev of
           None \<Rightarrow> Some (Inl (CliBail ''timed out waiting for a provider chunk''), d)
         | Some (k, answer) \<Rightarrow>
             if pending = [] then Some (Inl (CliBail ''timed out waiting for a provider chunk''), d)
             else let request = pending ! (k mod length pending) in
               case take_result pc H m n request (answer (fst request) (snd request)) s d of
                 (Inl e, d) \<Rightarrow> Some (Inl e, d)
               | (Inr s, d) \<Rightarrow> download_chunks pc H m n evs s d)"

section \<open>The whole transfer\<close>

record transfer_stats =
  ts_accepted :: "(peer_id \<times> nat) list"
  ts_rejected :: "(peer_id \<times> nat) list"
  ts_retries :: nat
  ts_resumed_chunks :: nat

record connected_provider =
  cp_peer_id :: peer_id
  cp_manifest :: manifest
  cp_availability :: piece_availability

definition stats_of :: "connected_provider list \<Rightarrow> scheduler \<Rightarrow> nat \<Rightarrow> transfer_stats" where
  "stats_of providers s resumed =
    \<lparr>ts_accepted = map (\<lambda>(slot, p). (cp_peer_id p,
       case provider_stats_of s slot of None \<Rightarrow> 0 | Some stats \<Rightarrow> st_accepted stats)) (enumerate_list providers),
     ts_rejected = map (\<lambda>(slot, p). (cp_peer_id p,
       case provider_stats_of s slot of None \<Rightarrow> 0 | Some stats \<Rightarrow> st_rejected stats)) (enumerate_list providers),
     ts_retries = retries s, ts_resumed_chunks = resumed\<rparr>"

text \<open>
  \<open>receive_swarm\<close>: the statistics and the progress reports, or an error; \<open>None\<close> while the download
  loop is running.  \<open>providers[0]\<close> panics on an empty list, which the caller excludes.
\<close>

definition receive_swarm ::
  "postcard \<Rightarrow> hash \<Rightarrow> connected_provider list \<Rightarrow> content_id \<Rightarrow> path \<Rightarrow> event list \<Rightarrow> disk
    \<Rightarrow> ((cli_error + transfer_stats \<times> progress list) \<times> disk) option" where
  "receive_swarm pc H providers content_id output events d =
    (let m = cp_manifest (hd providers); n = length providers in
     if list_ex (\<lambda>p. cp_manifest p \<noteq> m) providers
     then Some (act_bail ''providers returned inconsistent manifests'' d)
     else case resume_open pc H output m d of
       (Inl e, d) \<Rightarrow> Some (Inl e, d)
     | (Inr (resume, resumed), d) \<Rightarrow>
         (case report_verified_progress m (rr_completed (rd_record resume)) n 0 0 of
            Inl e \<Rightarrow> Some (Inl e, d)
          | Inr p \<Rightarrow>
              (case scheduler_new (length (m_chunks m)) (map cp_availability providers)
                  (rr_completed (rd_record resume)) of
                 Inl e \<Rightarrow> Some (Inl (CliSchedule e), d)
               | Inr sched \<Rightarrow>
                   if \<not> can_finish sched
                   then Some (act_bail ''discovered providers do not cover every missing chunk'' d)
                   else case download_chunks pc H m n events
                       \<lparr>dl_scheduler = sched, dl_resume = resume, dl_pending = [], dl_reports = [p]\<rparr> d of
                     None \<Rightarrow> None
                   | Some (Inl e, d) \<Rightarrow> Some (Inl e, d)
                   | Some (Inr s, d) \<Rightarrow>
                       Some (act_bind (resume_finish H output content_id (dl_resume s)) (\<lambda>_.
                         act_return (stats_of providers (dl_scheduler s) resumed, dl_reports s)) d))))"

section \<open>Progress is exact\<close>

definition verified_bytes :: "manifest \<Rightarrow> bool list \<Rightarrow> nat" where
  "verified_bytes m completed =
    sum_list (map (\<lambda>i. if completed ! i then chunk_len m i else 0) [0..<length completed])"

lemma count_verified_eq:
  assumes "validate_shape m = Inr ()"
  shows "index + length completed \<le> length (m_chunks m) \<Longrightarrow>
    fst acc + sum_list (map (\<lambda>j. if completed ! j then chunk_len m (index + j) else 0) [0..<length completed])
      \<le> u64_max \<Longrightarrow>
    count_verified m index completed acc =
      Inr (fst acc + sum_list (map (\<lambda>j. if completed ! j then chunk_len m (index + j) else 0)
             [0..<length completed]),
           snd acc + length (filter (\<lambda>finished. finished) completed))"
proof (induction completed arbitrary: index acc)
  case (Cons b bs)
  have i: "index < length (m_chunks m)" using Cons.prems by simp
  have u: "u32_try_from index = Some (of_nat index)"
    using shape_index(2) [OF assms i] by (simp add: u32_try_from_def)
  have upt: "[0..<length (b # bs)] = 0 # map Suc [0..<length bs]"
    by (simp only: map_Suc_upt list.size) (simp add: upt_conv_Cons del: upt_Suc)
  let ?rest = "sum_list (map (\<lambda>j. if bs ! j then chunk_len m (Suc index + j) else 0) [0..<length bs])"
  have sum: "sum_list (map (\<lambda>j. if (b # bs) ! j then chunk_len m (index + j) else 0) [0..<length (b # bs)])
      = (if b then chunk_len m index else 0) + ?rest"
    unfolding upt by (simp add: comp_def cong: if_cong)
  show ?case
  proof (cases b)
    case True
    have le: "fst acc + chunk_len m index + ?rest \<le> u64_max" using Cons.prems(2) True unfolding sum by simp
    have "count_verified m (Suc index) bs (fst acc + chunk_len m index, Suc (snd acc)) =
        Inr (fst acc + chunk_len m index + ?rest, Suc (snd acc) + length (filter (\<lambda>finished. finished) bs))"
      using Cons.IH [of "Suc index" "(fst acc + chunk_len m index, Suc (snd acc))"] Cons.prems(1) le by simp
    then show ?thesis
      using True le unfolding sum by (simp add: u expected_chunk_length_eq [OF assms i])
  next
    case False
    then show ?thesis
      using Cons.IH [of "Suc index" acc] Cons.prems unfolding sum by simp
  qed
qed simp

lemma sum_chunk_len:
  assumes "validate_shape m = Inr ()" "n \<le> length (m_chunks m)"
  shows "sum_list (map (chunk_len m) [0..<n]) = min (n * CHUNK_SIZE) (unat (m_length m))"
  using assms(2)
proof (induction n)
  case (Suc n)
  then have "n * CHUNK_SIZE < unat (m_length m)" using shape_index(1) [OF assms(1), of n] by simp
  moreover have "chunk_len m n = min (unat (m_length m) - n * CHUNK_SIZE) CHUNK_SIZE"
    by (simp add: chunk_len_def)
  ultimately show ?case using Suc by auto
qed simp

lemma sum_chunk_len_all:
  assumes "validate_shape m = Inr ()"
  shows "sum_list (map (chunk_len m) [0..<length (m_chunks m)]) = unat (m_length m)"
  using sum_chunk_len [OF assms, of "length (m_chunks m)"] assms div_ceil_ge [of CHUNK_SIZE "unat (m_length m)"]
  by (simp add: validate_shape_Inr_iff mult.commute)

lemma verified_bytes_bounds:
  assumes "validate_shape m = Inr ()" "length completed = length (m_chunks m)"
  shows "verified_bytes m completed \<le> unat (m_length m)"
    and "verified_bytes m completed = unat (m_length m) \<longleftrightarrow> (\<forall>i < length completed. completed ! i)"
proof -
  let ?n = "length completed"
  have all: "sum_list (map (chunk_len m) [0..<?n]) = unat (m_length m)"
    using sum_chunk_len_all [OF assms(1)] assms(2) by simp
  have le: "sum_list (map (\<lambda>i. if completed ! i then chunk_len m i else 0) [0..<k])
      \<le> sum_list (map (chunk_len m) [0..<k])" for k
    by (intro sum_list_mono) auto
  show "verified_bytes m completed \<le> unat (m_length m)" using le [of ?n] all by (simp add: verified_bytes_def)
  have lt: "sum_list (map (\<lambda>i. if completed ! i then chunk_len m i else 0) [0..<k])
      < sum_list (map (chunk_len m) [0..<k])" if "j < k" "k \<le> ?n" "\<not> completed ! j" for j k
    using that
  proof (induction k)
    case (Suc k)
    show ?case
    proof (cases "j = k")
      case True
      then show ?thesis using Suc.prems le [of k] chunk_len_pos [OF assms(1), of k] assms(2) by auto
    next
      case False
      then show ?thesis using Suc by auto
    qed
  qed simp
  show "verified_bytes m completed = unat (m_length m) \<longleftrightarrow> (\<forall>i < ?n. completed ! i)"
  proof
    assume "verified_bytes m completed = unat (m_length m)"
    then show "\<forall>i < ?n. completed ! i" using lt [of _ ?n] all by (fastforce simp: verified_bytes_def)
  next
    assume "\<forall>i < ?n. completed ! i"
    then have eq: "map (\<lambda>i. if completed ! i then chunk_len m i else 0) [0..<?n] = map (chunk_len m) [0..<?n]"
      by simp
    show "verified_bytes m completed = unat (m_length m)" unfolding verified_bytes_def eq by (rule all)
  qed
qed

lemma report_verified_progress_eq:
  assumes "validate_shape m = Inr ()" "length completed = length (m_chunks m)"
  shows "report_verified_progress m completed n rt rj =
    Inr \<lparr>pr_bytes_total = unat (m_length m), pr_verified_bytes = verified_bytes m completed,
         pr_total_chunks = length (m_chunks m),
         pr_verified_chunks = length (filter (\<lambda>finished. finished) completed),
         pr_provider_count = n, pr_retry_count = rt, pr_rejected_chunks = rj\<rparr>"
proof -
  have "count_verified m 0 completed (0, 0) =
      Inr (verified_bytes m completed, length (filter (\<lambda>finished. finished) completed))"
    using count_verified_eq [OF assms(1), of 0 completed "(0, 0)"] assms(2)
      verified_bytes_bounds(1) [OF assms] unat_lt_u64 [of "m_length m"]
    by (simp add: verified_bytes_def cong: if_cong)
  then show ?thesis by (simp add: report_verified_progress_def)
qed

section \<open>Assigning work\<close>

text \<open>
  \<open>same_work s s'\<close>: \<open>s'\<close> differs from \<open>s\<close> only in what is in flight and in which providers have
  been given up.
\<close>

definition same_work :: "scheduler \<Rightarrow> scheduler \<Rightarrow> bool" where
  "same_work s s' \<longleftrightarrow>
    length (s_chunks s') = length (s_chunks s) \<and> length (s_providers s') = length (s_providers s)
    \<and> (\<forall>i. chunk_done s' i \<longleftrightarrow> chunk_done s i) \<and> remaining s' = remaining s
    \<and> active_count s' \<le> active_count s \<and> accepted_total s' = accepted_total s"

lemma same_work_refl [simp]: "same_work s s"
  by (simp add: same_work_def)

lemma same_work_trans: "same_work s s' \<Longrightarrow> same_work s' s'' \<Longrightarrow> same_work s s''"
  by (auto simp: same_work_def)

lemma same_work_assign:
  assumes "sched_ok s" shows "same_work s (snd (assign s p))"
proof -
  have "same_work s (claim_chunk s p i)" if "eligible s p i" for i
    using that claim_chunk_counts [OF that] claim_chunk_accepted [OF that]
    by (auto simp: same_work_def chunk_done_def claim_chunk_def eligible_def nth_list_update)
  then show ?thesis using assign_result [OF assms, of p] by auto
qed

lemma active_count_reject_le: "active_count (reject s p) \<le> active_count s"
proof (cases "p < length (s_providers s)")
  case True
  then show ?thesis
    using length_filter_update [of p "s_providers s" p_active
        "(s_providers s ! p)\<lparr>p_busy := False, p_active := False,
           p_rejected := p_rejected (s_providers s ! p) + 1\<rparr>"]
    by (auto simp: active_count_def reject_def Let_def split: if_splits)
qed (simp add: active_count_def reject_def)

lemma same_work_reject: "same_work s (reject s p)"
  by (auto simp: same_work_def chunk_done_def reject_fields reject_counts reject_accepted
      active_count_reject_le split: if_splits)

lemma assign_some_bound:
  assumes "sched_ok s" "fst (assign s p) = Some w"
  shows "unat w < length (s_chunks s)"
proof -
  have "claims (snd (assign s p)) p (unat w)" using swarm.asg_claimed [OF assms(1)] assms(2) by blast
  then show ?thesis using same_work_assign [OF assms(1), of p] by (simp add: claims_def same_work_def)
qed

lemma expected_chunk_length_ok:
  assumes "validate_shape m = Inr ()" "unat w < length (m_chunks m)"
  shows "expected_chunk_length m w = Inr (chunk_len m (unat w))"
  using expected_chunk_length_eq(1) [OF assms] by simp

lemma assign_workers_ok:
  assumes "validate_shape m = Inr ()" "length (s_chunks s) = length (m_chunks m)"
    and "sched_ok s" "swarm.tracks pending s"
  shows "\<exists>s' pending' assigned'. assign_workers m sent slots (s, pending, assigned) = Inr (s', pending', assigned')
    \<and> sched_ok s' \<and> swarm.tracks pending' s' \<and> same_work s s'"
  using assms(2-)
proof (induction slots arbitrary: s pending assigned)
  case (Cons slot slots)
  obtain o' s1 where a: "assign s slot = (o', s1)" by (cases "assign s slot")
  have s1: "sched_ok s1" "same_work s s1"
    using swarm.asg_inv [OF Cons.prems(2), of slot] same_work_assign [OF Cons.prems(2), of slot] a by simp_all
  have len: "length (s_chunks s1) = length (m_chunks m)" using s1(2) Cons.prems(1) by (simp add: same_work_def)
  show ?case
  proof (cases o')
    case None
    have "swarm.tracks pending s1"
      using swarm.tracks_assign_none [OF Cons.prems(2,3), of slot] a None by simp
    from Cons.IH [OF len s1(1) this] show ?thesis using a None same_work_trans [OF s1(2)] by fastforce
  next
    case (Some w)
    have "unat w < length (m_chunks m)"
      using assign_some_bound [OF Cons.prems(2), of slot w] a Some Cons.prems(1) by simp
    note e = expected_chunk_length_ok [OF assms(1) this]
    show ?thesis
    proof (cases "sent slot")
      case True
      have "swarm.tracks (pending @ [(slot, w)]) s1"
        using swarm.tracks_assign_some [OF Cons.prems(2,3), of slot w] a Some by simp
      from Cons.IH [OF len s1(1) this] show ?thesis
        using a Some e True same_work_trans [OF s1(2)] by fastforce
    next
      case False
      have t: "swarm.tracks pending (reject s1 slot)"
        using swarm.tracks_assign_reject [OF Cons.prems(2,3), of slot w] a Some by simp
      have r: "sched_ok (reject s1 slot)" "same_work s (reject s1 slot)"
        using swarm.rej_inv [OF s1(1)] same_work_trans [OF s1(2) same_work_reject] by simp_all
      have "length (s_chunks (reject s1 slot)) = length (m_chunks m)" using len by (simp add: reject_fields)
      from Cons.IH [OF this r(1) t] show ?thesis
        using a Some e False same_work_trans [OF r(2)] by fastforce
    qed
  qed
qed simp

section \<open>The invariant of the loop\<close>

definition loop_ok :: "manifest \<Rightarrow> download \<Rightarrow> bool" where
  "loop_ok m s \<longleftrightarrow> sched_ok (dl_scheduler s) \<and> swarm.tracks (dl_pending s) (dl_scheduler s)
    \<and> length (s_chunks (dl_scheduler s)) = length (m_chunks m)
    \<and> length (rr_completed (rd_record (dl_resume s))) = length (m_chunks m)"

text \<open>What is on disk: the chunks the scheduler counts as complete, ready to be resumed.\<close>

definition stored :: "postcard \<Rightarrow> hash \<Rightarrow> path \<Rightarrow> manifest \<Rightarrow> download \<Rightarrow> disk \<Rightarrow> bool" where
  "stored pc H output m s d \<longleftrightarrow>
    (\<exists>completed. dl_resume s = resume_of output m completed \<and> resumable pc H output m completed d
      \<and> (\<forall>i < length (m_chunks m). completed ! i \<longleftrightarrow> chunk_done (dl_scheduler s) i))"

definition recoverable :: "postcard \<Rightarrow> hash \<Rightarrow> path \<Rightarrow> manifest \<Rightarrow> scheduler \<Rightarrow> disk \<Rightarrow> bool" where
  "recoverable pc H output m s d \<longleftrightarrow>
    (files d (state_path_of output) \<noteq> None \<longrightarrow>
      (\<exists>completed. resumable pc H output m completed d
        \<and> (\<forall>i < length (m_chunks m). chunk_done s i \<longrightarrow> completed ! i)))"

definition work :: "scheduler \<Rightarrow> nat" where
  "work s = remaining s + active_count s"

text \<open>\<open>later s s'\<close>: no chunk is lost and every newly complete chunk is credited to a provider.\<close>

definition later :: "scheduler \<Rightarrow> scheduler \<Rightarrow> bool" where
  "later s s' \<longleftrightarrow> (\<forall>i. chunk_done s i \<longrightarrow> chunk_done s' i)
    \<and> accepted_total s' + remaining s' = accepted_total s + remaining s"

text \<open>
  The answers of a run do not exhibit a digest collision between data of different lengths: what
  verifies against the manifest has the length that the manifest implies.
\<close>

definition answer_sized :: "hash \<Rightarrow> manifest \<Rightarrow> chunk option \<Rightarrow> bool" where
  "answer_sized H m answer \<longleftrightarrow> (case answer of None \<Rightarrow> True | Some c \<Rightarrow>
    is_ok (verify_chunk H m c) \<longrightarrow> length (c_data c) = chunk_len m (unat (c_index c)))"

definition answers_sized :: "hash \<Rightarrow> manifest \<Rightarrow> event list \<Rightarrow> bool" where
  "answers_sized H m evs \<longleftrightarrow>
    (\<forall>ev \<in> set evs. \<forall>k answer. ev_result ev = Some (k, answer) \<longrightarrow> (\<forall>p w. answer_sized H m (answer p w)))"

lemma later_refl [simp]: "later s s" by (simp add: later_def)

lemma later_trans: "later s s' \<Longrightarrow> later s' s'' \<Longrightarrow> later s s''"
  by (simp add: later_def)

lemma same_work_later: "same_work s s' \<Longrightarrow> later s s'"
  by (simp add: same_work_def later_def)

lemma stored_recoverable: "stored pc H output m s d \<Longrightarrow> recoverable pc H output m (dl_scheduler s) d"
  by (auto simp: stored_def recoverable_def)

lemma recoverable_later: "later s s' \<Longrightarrow> recoverable pc H output m s' d \<Longrightarrow> recoverable pc H output m s d"
  unfolding recoverable_def later_def by blast

lemma stored_cong:
  "stored pc H output m s d \<Longrightarrow> dl_resume s' = dl_resume s \<Longrightarrow> same_work (dl_scheduler s) (dl_scheduler s')
    \<Longrightarrow> stored pc H output m s' d"
  by (auto simp: stored_def same_work_def)

definition current_progress :: "manifest \<Rightarrow> nat \<Rightarrow> download \<Rightarrow> progress" where
  "current_progress m n s =
    (let completed = rr_completed (rd_record (dl_resume s)) in
     \<lparr>pr_bytes_total = unat (m_length m), pr_verified_bytes = verified_bytes m completed,
      pr_total_chunks = length (m_chunks m),
      pr_verified_chunks = length (filter (\<lambda>finished. finished) completed),
      pr_provider_count = n, pr_retry_count = retries (dl_scheduler s),
      pr_rejected_chunks = rejected_requests (dl_scheduler s) n\<rparr>)"

lemma report_ok:
  assumes "validate_shape m = Inr ()" "length (rr_completed (rd_record (dl_resume s))) = length (m_chunks m)"
  shows "report m n s = Inr (s\<lparr>dl_reports := dl_reports s @ [current_progress m n s]\<rparr>)"
  using report_verified_progress_eq [OF assms] by (simp add: report_def current_progress_def Let_def)

section \<open>Taking an answer\<close>

lemma accept_claimed:
  assumes "sched_ok s" "claims s p (unat w)"
  obtains s' where "accept s p w = (Inr (), s')" "later s s'" "length (s_chunks s') = length (s_chunks s)"
    "length (s_providers s') = length (s_providers s)" "work s' < work s"
    "\<And>i. chunk_done s' i \<longleftrightarrow> chunk_done s i \<or> i = unat w"
proof
  let ?s = "finish_chunk s p (unat w)"
  note b = claims_bounds [OF assms]
  note c = finish_chunk_counts [OF assms] finish_chunk_accepted [OF b(1), of "unat w"]
  show "accept s p w = (Inr (), ?s)" using assms by (simp add: accept_eq)
  show d: "chunk_done ?s i \<longleftrightarrow> chunk_done s i \<or> i = unat w" for i
    using b(2) by (auto simp: chunk_done_def finish_chunk_def nth_list_update)
  show "later s ?s" "work ?s < work s" using c d by (auto simp: later_def work_def)
qed (simp_all add: finish_chunk_def)

lemma write_verified_chunk_result:
  assumes "write_verified_chunk pc H m c r d = (Inr r', d')"
  shows "length (rr_completed (rd_record r')) = length (rr_completed (rd_record r))"
  using assms by (auto simp: write_verified_chunk_def result_iffs mark_completed_def Let_def)

text \<open>The three outcomes of an answer: refused, stored, or an error while storing it.\<close>

lemma take_result_cases:
  assumes shape: "validate_shape m = Inr ()" and ok: "loop_ok m s" and req: "(p, w) \<in> set (dl_pending s)"
    and t: "take_result pc H m n (p, w) response s d = (r, d')"
  obtains (rejected) s' where "d' = d" "dl_resume s' = dl_resume s" "dl_scheduler s' = reject (dl_scheduler s) p"
      "dl_pending s' = remove1 (p, w) (dl_pending s)"
      "r = (if can_finish (dl_scheduler s') then Inr s'
            else Inl (CliBail ''no honest provider remains for a required chunk''))"
      "\<nexists>c. response = Some c \<and> c_index c = w \<and> verify_chunk H m c = Inr ()"
  | (accepted) c s' where "response = Some c" "c_index c = w" "verify_chunk H m c = Inr ()"
      "write_verified_chunk pc H m c (dl_resume s) d = (Inr (dl_resume s'), d')"
      "accept (dl_scheduler s) p w = (Inr (), dl_scheduler s')"
      "dl_pending s' = remove1 (p, w) (dl_pending s)" "r = Inr s'"
  | (failed) c e where "response = Some c" "c_index c = w" "verify_chunk H m c = Inr ()"
      "write_verified_chunk pc H m c (dl_resume s) d = (Inl e, d')" "r = Inl e"
proof -
  let ?s = "s\<lparr>dl_pending := remove1 (p, w) (dl_pending s)\<rparr>"
  have l: "length (rr_completed (rd_record (dl_resume s))) = length (m_chunks m)" using ok by (simp add: loop_ok_def)
  show thesis
  proof (cases "\<exists>c. response = Some c \<and> c_index c = w \<and> verify_chunk H m c = Inr ()")
    case False
    let ?r = "?s\<lparr>dl_scheduler := reject (dl_scheduler s) p\<rparr>"
    let ?s' = "?r\<lparr>dl_reports := dl_reports ?r @ [current_progress m n ?r]\<rparr>"
    have "(r, d') = (if can_finish (dl_scheduler ?s') then Inr ?s'
        else Inl (CliBail ''no honest provider remains for a required chunk''), d)"
      using t False l
      by (cases response)
        (auto simp: take_result_def Let_def act_bind_def act_result_def act_bail_def act_return_def
          report_ok [OF shape] is_ok_iff split: if_splits)
    then show thesis using rejected [of ?s'] False by simp
  next
    case True
    then obtain c where c: "response = Some c" "c_index c = w" "verify_chunk H m c = Inr ()" by blast
    have "claims (dl_scheduler s) p (unat w)" using ok req by (auto simp: loop_ok_def swarm.tracks_def)
    then obtain sched where a: "accept (dl_scheduler s) p w = (Inr (), sched)"
      using accept_claimed ok unfolding loop_ok_def by metis
    obtain r1 d1 where 1: "write_verified_chunk pc H m c (dl_resume s) d = (r1, d1)"
      by (cases "write_verified_chunk pc H m c (dl_resume s) d")
    show thesis
    proof (cases r1)
      case (Inl e)
      then show thesis using failed [OF c] t c 1 by (auto simp: take_result_def act_bind_def is_ok_iff)
    next
      case (Inr res)
      let ?r = "?s\<lparr>dl_resume := res, dl_scheduler := sched\<rparr>"
      let ?s' = "?r\<lparr>dl_reports := dl_reports ?r @ [current_progress m n ?r]\<rparr>"
      have "length (rr_completed (rd_record (dl_resume ?r))) = length (m_chunks m)"
        using write_verified_chunk_result 1 Inr l by fastforce
      then have "r = Inr ?s'" "d' = d1"
        using t c 1 Inr a report_ok [OF shape, of ?r n]
        by (auto simp: take_result_def act_bind_def act_result_def is_ok_iff)
      then show thesis using accepted [of c ?s', OF c] 1 Inr a by simp
    qed
  qed
qed

lemma take_result_progress:
  assumes "validate_shape m = Inr ()" and ok: "loop_ok m s" and req: "(p, w) \<in> set (dl_pending s)"
    and "take_result pc H m n (p, w) response s d = (Inr s', d')"
  shows "loop_ok m s'" "work (dl_scheduler s') < work (dl_scheduler s)" "later (dl_scheduler s) (dl_scheduler s')"
    "length (s_providers (dl_scheduler s')) = length (s_providers (dl_scheduler s))"
proof -
  have o: "sched_ok (dl_scheduler s)" "swarm.tracks (dl_pending s) (dl_scheduler s)" using ok by (auto simp: loop_ok_def)
  then have c: "claims (dl_scheduler s) p (unat w)" using req by (auto simp: swarm.tracks_def)
  have "loop_ok m s' \<and> work (dl_scheduler s') < work (dl_scheduler s) \<and> later (dl_scheduler s) (dl_scheduler s')
    \<and> length (s_providers (dl_scheduler s')) = length (s_providers (dl_scheduler s))"
  proof (cases rule: take_result_cases [OF assms(1) ok req assms(4)])
    case (1 s1)
    then have "s1 = s'" by (simp split: if_splits)
    then show ?thesis
      using 1(2-4) ok swarm.tracks_reject [OF o req] swarm.rej_inv [OF o(1), of p]
        swarm.answer_progress(2) [OF o req] same_work_later [OF same_work_reject]
      by (simp add: loop_ok_def reject_fields work_def)
  next
    case (2 c1 s1)
    obtain sched where a: "accept (dl_scheduler s) p w = (Inr (), sched)" "later (dl_scheduler s) sched"
      "length (s_chunks sched) = length (s_chunks (dl_scheduler s))"
      "length (s_providers sched) = length (s_providers (dl_scheduler s))" "work sched < work (dl_scheduler s)"
      using accept_claimed [OF o(1) c] by metis
    have "s1 = s'" "dl_scheduler s1 = sched" using 2 a(1) by simp_all
    then show ?thesis
      using 2(6) ok a swarm.tracks_accept [OF o req] swarm.acc_inv [OF o(1), of p w]
        write_verified_chunk_result [OF 2(4)]
      by (simp add: loop_ok_def)
  qed simp
  then show "loop_ok m s'" "work (dl_scheduler s') < work (dl_scheduler s)" "later (dl_scheduler s) (dl_scheduler s')"
    "length (s_providers (dl_scheduler s')) = length (s_providers (dl_scheduler s))"
    by auto
qed

lemma take_result_stored:
  assumes shape: "validate_shape m = Inr ()" and pc: "postcard_sound pc m"
    and ok: "loop_ok m s" and st: "stored pc H output m s d" and req: "(p, w) \<in> set (dl_pending s)"
    and sized: "answer_sized H m response"
    and t: "take_result pc H m n (p, w) response s d = (r, d')"
  shows "recoverable pc H output m (dl_scheduler s) d'" "r = Inr s' \<Longrightarrow> stored pc H output m s' d'"
proof -
  obtain completed where c: "dl_resume s = resume_of output m completed" "resumable pc H output m completed d"
    "\<forall>i < length (m_chunks m). completed ! i \<longleftrightarrow> chunk_done (dl_scheduler s) i"
    using st by (auto simp: stored_def)
  have o: "sched_ok (dl_scheduler s)" "claims (dl_scheduler s) p (unat w)" "unat w < length (m_chunks m)"
    using ok req by (auto simp: loop_ok_def swarm.tracks_def claims_def)
  then have missing: "\<not> completed ! unat w" using c(3) by (auto simp: chunk_done_def claims_def)
  have wr: "(files d' (state_path_of output) \<noteq> None \<longrightarrow>
        resumable pc H output m completed d' \<or> resumable pc H output m (completed[unat w := True]) d')
      \<and> (\<forall>x. r1 = Inr x \<longrightarrow> x = resume_of output m (completed[unat w := True])
          \<and> resumable pc H output m (completed[unat w := True]) d')"
    if "response = Some a" "c_index a = w" "verify_chunk H m a = Inr ()"
      "write_verified_chunk pc H m a (dl_resume s) d = (r1, d')" for a r1
    using write_verified_chunk_crash [OF shape pc c(2), of a r1 d'] that missing sized c(1)
    by (auto simp: answer_sized_def is_ok_iff)
  have len: "length completed = length (m_chunks m)" using c(2) by (auto simp: resumable_def)
  have upd: "completed[unat w := True] ! i \<longleftrightarrow> completed ! i \<or> i = unat w" if "i < length (m_chunks m)" for i
    using that len o(3) by (auto simp: nth_list_update)
  have rec: "recoverable pc H output m (dl_scheduler s) d'" if "files d' (state_path_of output) \<noteq> None \<longrightarrow>
      resumable pc H output m completed d' \<or> resumable pc H output m (completed[unat w := True]) d'"
    using that c(3) upd unfolding recoverable_def by blast
  have "recoverable pc H output m (dl_scheduler s) d' \<and> (\<forall>s'. r = Inr s' \<longrightarrow> stored pc H output m s' d')"
  proof (cases rule: take_result_cases [OF shape ok req t])
    case (1 s1)
    have "stored pc H output m s1 d" using stored_cong [OF st 1(2)] 1(3) same_work_reject by simp
    then show ?thesis using 1(1,5) stored_recoverable [OF st] by (simp split: if_splits)
  next
    case (2 a s1)
    obtain sched where acc: "accept (dl_scheduler s) p w = (Inr (), sched)"
      "\<And>i. chunk_done sched i \<longleftrightarrow> chunk_done (dl_scheduler s) i \<or> i = unat w"
      using accept_claimed [OF o(1,2)] by metis
    have "stored pc H output m s1 d'"
      using wr [OF 2(1-4)] c(3) acc 2(5)
      by (intro stored_def [THEN iffD2] exI [of _ "completed[unat w := True]"]) (auto simp: upd)
    moreover have "recoverable pc H output m (dl_scheduler s) d'"
      using rec wr [OF 2(1-4)] by blast
    ultimately show ?thesis using 2(7) by simp
  next
    case (3 a e)
    then show ?thesis using rec wr [OF 3(1-4)] by simp
  qed
  then show "recoverable pc H output m (dl_scheduler s) d'" "r = Inr s' \<Longrightarrow> stored pc H output m s' d'" by auto
qed

section \<open>The loop\<close>

text \<open>One turn of the loop that reaches the results channel with a request outstanding.\<close>

lemma download_chunks_turn:
  assumes shape: "validate_shape m = Inr ()" and ok: "loop_ok m s"
    and "\<not> is_complete (dl_scheduler s)" "ev_continue ev"
  obtains (stopped) e sched pending assigned where "download_chunks pc H m n (ev # evs) s d = Some (Inl e, d)"
      "assign_workers m (ev_sent ev) [0..<n] (dl_scheduler s, dl_pending s, False) = Inr (sched, pending, assigned)"
      "ev_result ev = None \<or> pending = []"
  | (answered) s1 p w k answer assigned where "loop_ok m s1" "same_work (dl_scheduler s) (dl_scheduler s1)"
      "dl_resume s1 = dl_resume s" "(p, w) \<in> set (dl_pending s1)" "ev_result ev = Some (k, answer)"
      "download_chunks pc H m n (ev # evs) s d =
        (case take_result pc H m n (p, w) (answer p w) s1 d of
           (Inl e, d) \<Rightarrow> Some (Inl e, d) | (Inr s, d) \<Rightarrow> download_chunks pc H m n evs s d)"
      "assign_workers m (ev_sent ev) [0..<n] (dl_scheduler s, dl_pending s, False) =
        Inr (dl_scheduler s1, dl_pending s1, assigned)"
proof -
  obtain sched pending assigned where a:
    "assign_workers m (ev_sent ev) [0..<n] (dl_scheduler s, dl_pending s, False) = Inr (sched, pending, assigned)"
    "sched_ok sched" "swarm.tracks pending sched" "same_work (dl_scheduler s) sched"
    using assign_workers_ok [OF shape, of "dl_scheduler s" "dl_pending s"] ok unfolding loop_ok_def by metis
  let ?s = "s\<lparr>dl_scheduler := sched, dl_pending := pending\<rparr>"
  have s1: "loop_ok m ?s" using ok a by (simp add: loop_ok_def same_work_def)
  have "\<not> is_complete sched" using assms(3) a(4) by (simp add: is_complete_iff same_work_def)
  note e = this assms(3,4) a(1)
  show thesis
  proof (cases "\<not> has_in_flight sched \<and> \<not> assigned \<or> ev_result ev = None \<or> pending = []")
    case True
    then have "\<exists>x. download_chunks pc H m n (ev # evs) s d = Some (Inl x, d)"
      using e by (cases "ev_result ev") (auto simp: Let_def)
    moreover have "ev_result ev = None \<or> pending = []"
      using True has_in_flight_iff [of sched] swarm.tracks_none [OF a(3)] by blast
    ultimately show thesis using stopped a(1) by blast
  next
    case False
    then obtain k answer where k: "ev_result ev = Some (k, answer)" by auto
    obtain p w where q: "pending ! (k mod length pending) = (p, w)" by fastforce
    have "(p, w) \<in> set pending" using False q nth_mem [of "k mod length pending" pending] by simp
    moreover have "(\<not> has_in_flight sched \<and> \<not> assigned) = False" "pending \<noteq> []" using False by auto
    then have "download_chunks pc H m n (ev # evs) s d =
        (case take_result pc H m n (p, w) (answer p w) ?s d of
           (Inl e, d) \<Rightarrow> Some (Inl e, d) | (Inr s, d) \<Rightarrow> download_chunks pc H m n evs s d)"
      using e by (simp only: download_chunks.simps sum.case prod.case Let_def k q if_False if_True option.case fst_conv snd_conv simp_thms)
    ultimately show thesis using answered [of ?s p w k answer assigned] s1 a(1,4) k by simp
  qed
qed

lemma download_chunks_terminates:
  assumes "validate_shape m = Inr ()"
  shows "loop_ok m s \<Longrightarrow> work (dl_scheduler s) \<le> length evs \<Longrightarrow> \<exists>r. download_chunks pc H m n evs s d = Some r"
proof (induction evs arbitrary: s d)
  case Nil
  then show ?case by (simp add: is_complete_iff work_def)
next
  case (Cons ev evs)
  show ?case
  proof (cases "is_complete (dl_scheduler s) \<or> \<not> ev_continue ev")
    case False
    then have f: "\<not> is_complete (dl_scheduler s)" "ev_continue ev" by auto
    show ?thesis
    proof (cases rule: download_chunks_turn [OF assms Cons.prems(1) f, of pc H n evs d])
      case (2 s1 p w k answer)
      obtain r d' where t: "take_result pc H m n (p, w) (answer p w) s1 d = (r, d')" by fastforce
      show ?thesis
      proof (cases r)
        case (Inr s')
        have "work (dl_scheduler s1) \<le> work (dl_scheduler s)" using 2(2) by (simp add: same_work_def work_def)
        then show ?thesis
          using take_result_progress(1,2) [OF assms 2(1,4) t [unfolded Inr]] Cons.prems(2) Cons.IH [of s' d'] 2(6) t Inr
          by simp
      qed (use 2(6) t in simp)
    qed blast
  qed auto
qed

lemma download_chunks_sound:
  assumes "validate_shape m = Inr ()"
  shows "loop_ok m s \<Longrightarrow> download_chunks pc H m n evs s d = Some (Inr s', d') \<Longrightarrow>
    loop_ok m s' \<and> is_complete (dl_scheduler s') \<and> later (dl_scheduler s) (dl_scheduler s')
    \<and> length (s_providers (dl_scheduler s')) = length (s_providers (dl_scheduler s))"
proof (induction evs arbitrary: s d)
  case Nil
  then show ?case by (auto split: if_splits)
next
  case (Cons ev evs)
  show ?case
  proof (cases "is_complete (dl_scheduler s) \<or> \<not> ev_continue ev")
    case False
    then have f: "\<not> is_complete (dl_scheduler s)" "ev_continue ev" by auto
    show ?thesis
    proof (cases rule: download_chunks_turn [OF assms Cons.prems(1) f, of pc H n evs d])
      case 1
      then show ?thesis using Cons.prems(2) by simp
    next
      case (2 s1 p w k answer)
      obtain s2 d2 where t: "take_result pc H m n (p, w) (answer p w) s1 d = (Inr s2, d2)"
        "download_chunks pc H m n evs s2 d2 = Some (Inr s', d')"
        using 2(6) Cons.prems(2) by (auto split: prod.splits sum.splits)
      note p = take_result_progress [OF assms 2(1,4) t(1)]
      show ?thesis
        using Cons.IH [OF p(1) t(2)] p(3,4) 2(2) same_work_later [OF 2(2)] later_trans
        by (auto simp: same_work_def intro: later_trans)
    qed
  qed (use Cons.prems in \<open>auto split: if_splits\<close>)
qed

lemma download_chunks_stored:
  assumes shape: "validate_shape m = Inr ()" and pc: "postcard_sound pc m"
  shows "loop_ok m s \<Longrightarrow> stored pc H output m s d \<Longrightarrow> answers_sized H m evs \<Longrightarrow>
    download_chunks pc H m n evs s d = Some (r, d') \<Longrightarrow>
    recoverable pc H output m (dl_scheduler s) d' \<and> (\<forall>s'. r = Inr s' \<longrightarrow> stored pc H output m s' d')"
proof (induction evs arbitrary: s d)
  case Nil
  then show ?case using stored_recoverable by (auto split: if_splits)
next
  case (Cons ev evs)
  show ?case
  proof (cases "is_complete (dl_scheduler s) \<or> \<not> ev_continue ev")
    case False
    then have f: "\<not> is_complete (dl_scheduler s)" "ev_continue ev" by auto
    show ?thesis
    proof (cases rule: download_chunks_turn [OF shape Cons.prems(1) f, of pc H n evs d])
      case 1
      then show ?thesis using Cons.prems(4) stored_recoverable [OF Cons.prems(2)] by (auto simp del: download_chunks.simps)
    next
      case (2 s1 p w k answer)
      have sz: "answer_sized H m (answer p w)" "answers_sized H m evs"
        using Cons.prems(3) 2(5) by (auto simp: answers_sized_def)
      note st = stored_cong [OF Cons.prems(2) 2(3,2)]
      note bk = recoverable_later [OF same_work_later [OF 2(2)]]
      obtain r1 d1 where t: "take_result pc H m n (p, w) (answer p w) s1 d = (r1, d1)" by fastforce
      note k = take_result_stored [OF shape pc 2(1) st 2(4) sz(1) t]
      show ?thesis
      proof (cases r1)
        case (Inl e)
        then show ?thesis using 2(6) t Cons.prems(4) bk [OF k(1)] by (auto simp del: download_chunks.simps)
      next
        case (Inr s2)
        note p = take_result_progress [OF shape 2(1,4) t [unfolded Inr]]
        have "recoverable pc H output m (dl_scheduler s2) d' \<and> (\<forall>s'. r = Inr s' \<longrightarrow> stored pc H output m s' d')"
          using Cons.IH [OF p(1) k(2) [OF Inr] sz(2)] 2(6) t Inr Cons.prems(4) by (simp del: download_chunks.simps)
        then show ?thesis using bk recoverable_later [OF p(3)] by blast
      qed
    qed
  qed (use Cons.prems stored_recoverable in \<open>auto split: if_splits\<close>)
qed

section \<open>An honest provider\<close>

definition honest :: "scheduler \<Rightarrow> nat \<Rightarrow> bool" where
  "honest s p \<longleftrightarrow> p < length (s_providers s) \<and> p_active (s_providers s ! p)
    \<and> (\<forall>i < length (s_chunks s). provider_has (s_providers s ! p) i)"

lemma honest_can_finish: "honest s p \<Longrightarrow> can_finish s"
  by (force simp: can_finish_def honest_def source_count_def list_all_length filter_empty_conv in_set_conv_nth)

lemma honest_assign:
  assumes "sched_ok s" "honest s p" shows "honest (snd (assign s q)) p"
  using assms(2) assign_result [OF assms(1), of q]
  by (auto simp: honest_def claim_chunk_def nth_list_update eligible_def)

lemma honest_reject: "honest s p \<Longrightarrow> q \<noteq> p \<Longrightarrow> honest (reject s q) p"
  by (auto simp: honest_def reject_fields)

lemma honest_accept:
  assumes "sched_ok s" "honest s p" shows "honest (snd (accept s q w)) p"
  using assms claims_bounds(1) [OF assms(1), of q "unat w"]
  by (auto simp: accept_eq honest_def finish_chunk_def nth_list_update)

lemma honest_assigned:
  assumes "sched_ok s" "honest s p" "\<not> is_complete s" "\<nexists>q i. claims s q i"
  shows "fst (assign s p) \<noteq> None"
proof -
  have "0 < remaining s" using assms(3) by (simp add: is_complete_iff)
  then obtain i where i: "i < length (s_chunks s)" "s_chunks s ! i \<noteq> ChunkDone"
    by (auto simp: remaining_def filter_empty_conv in_set_conv_nth)
  then have "s_chunks s ! i = Missing" using assms(4) by (cases "s_chunks s ! i") (auto simp: claims_def)
  moreover have "\<not> p_busy (s_providers s ! p)"
    using assms by (auto simp: sched_ok_def sched_claims_def honest_def)
  ultimately have e: "eligible s p i" using assms(2) i by (simp add: eligible_def honest_def)
  have "sched_shape s" using assms(1) by (simp add: sched_ok_def)
  then show ?thesis by (cases rule: assign_cases [of s p]) (use e in auto)
qed

lemma assign_workers_honest:
  assumes "validate_shape m = Inr ()" "sent p"
  shows "length (s_chunks s) = length (m_chunks m) \<Longrightarrow> sched_ok s \<Longrightarrow> swarm.tracks pending s \<Longrightarrow>
    honest s p \<Longrightarrow> \<not> is_complete s \<Longrightarrow> p \<in> set slots \<or> pending \<noteq> [] \<Longrightarrow>
    assign_workers m sent slots (s, pending, assigned) = Inr (s', pending', assigned') \<Longrightarrow>
    honest s' p \<and> pending' \<noteq> []"
proof (induction slots arbitrary: s pending assigned)
  case (Cons slot slots)
  obtain o' s1 where a: "assign s slot = (o', s1)" by (cases "assign s slot")
  have s1: "sched_ok s1" "same_work s s1" "honest s1 p"
    using swarm.asg_inv [OF Cons.prems(2), of slot] same_work_assign [OF Cons.prems(2), of slot]
      honest_assign [OF Cons.prems(2,4), of slot] a by simp_all
  have len: "length (s_chunks s1) = length (m_chunks m)" "\<not> is_complete s1"
    using s1(2) Cons.prems(1,5) by (simp_all add: same_work_def is_complete_iff)
  show ?case
  proof (cases o')
    case None
    have t: "swarm.tracks pending s1"
      using swarm.tracks_assign_none [OF Cons.prems(2,3), of slot] a None by simp
    have "p \<in> set slots \<or> pending \<noteq> []"
      using Cons.prems(6) honest_assigned [OF Cons.prems(2,4,5)] swarm.tracks_none [OF Cons.prems(3)] a None by auto
    from Cons.IH [OF len(1) s1(1) t s1(3) len(2) this] show ?thesis using Cons.prems(7) a None by simp
  next
    case (Some w)
    have "unat w < length (m_chunks m)"
      using assign_some_bound [OF Cons.prems(2), of slot w] a Some Cons.prems(1) by simp
    note e = expected_chunk_length_ok [OF assms(1) this]
    show ?thesis
    proof (cases "sent slot")
      case True
      have t: "swarm.tracks (pending @ [(slot, w)]) s1"
        using swarm.tracks_assign_some [OF Cons.prems(2,3), of slot w] a Some by simp
      from Cons.IH [OF len(1) s1(1) t s1(3) len(2)] show ?thesis using Cons.prems(7) a Some e True by simp
    next
      case False
      then have "slot \<noteq> p" using assms(2) by auto
      have t: "swarm.tracks pending (reject s1 slot)"
        using swarm.tracks_assign_reject [OF Cons.prems(2,3), of slot w] a Some by simp
      have "length (s_chunks (reject s1 slot)) = length (m_chunks m)" "\<not> is_complete (reject s1 slot)"
        using len by (simp_all add: reject_fields is_complete_iff reject_counts)
      from Cons.IH [OF this(1) swarm.rej_inv [OF s1(1)] t honest_reject [OF s1(3) \<open>slot \<noteq> p\<close>] this(2)]
      show ?thesis using Cons.prems(6,7) a Some e False \<open>slot \<noteq> p\<close> by auto
    qed
  qed
qed simp

lemma write_verified_chunk_no_faults:
  assumes "faults d = []" "files d (part_path_of output) \<noteq> None" "verify_chunk H m c = Inr ()"
  shows "\<exists>completed' d'. write_verified_chunk pc H m c (resume_of output m completed) d =
      (Inr (resume_of output m completed'), d') \<and> faults d' = [] \<and> files d' (part_path_of output) \<noteq> None"
  using assms paths_distinct [of "output"]
  by (auto simp: write_verified_chunk_def act_bind_def act_result_def act_return_def fs_write_at_def
      next_fault_def resume_of_def save_state_def Let_def fs_write_def replace_file_def fs_rename_def mark_completed_def)

text \<open>An event in which the transfer goes on and provider \<open>p\<close> would answer correctly.\<close>

definition honest_event :: "hash \<Rightarrow> manifest \<Rightarrow> nat \<Rightarrow> event \<Rightarrow> bool" where
  "honest_event H m p ev \<longleftrightarrow> ev_continue ev \<and> ev_sent ev p \<and> (\<exists>k answer. ev_result ev = Some (k, answer)
    \<and> (\<forall>w. unat w < length (m_chunks m) \<longrightarrow>
        (\<exists>c. answer p w = Some c \<and> c_index c = w \<and> verify_chunk H m c = Inr ())))"

lemma take_result_honest:
  assumes shape: "validate_shape m = Inr ()" and ok: "loop_ok m s" and req: "(q, w) \<in> set (dl_pending s)"
    and h: "honest (dl_scheduler s) p" "q = p \<longrightarrow>
      (\<exists>c. response = Some c \<and> c_index c = w \<and> verify_chunk H m c = Inr ())"
    and res: "dl_resume s = resume_of output m completed" "faults d = []" "files d (part_path_of output) \<noteq> None"
    and t: "take_result pc H m n (q, w) response s d = (r, d')"
  obtains s' completed' where "r = Inr s'" "honest (dl_scheduler s') p" "dl_resume s' = resume_of output m completed'"
    "faults d' = []" "files d' (part_path_of output) \<noteq> None"
proof (cases rule: take_result_cases [OF shape ok req t])
  case (1 s1)
  then have "honest (dl_scheduler s1) p" using h honest_reject by auto
  then show thesis using that [of s1 completed] 1 res honest_can_finish [of "dl_scheduler s1" p] by simp
next
  case (2 c s1)
  obtain x d1 where "write_verified_chunk pc H m c (resume_of output m completed) d = (Inr (resume_of output m x), d1)"
    "faults d1 = []" "files d1 (part_path_of output) \<noteq> None"
    using write_verified_chunk_no_faults [OF res(2,3) 2(3)] by blast
  moreover have "honest (dl_scheduler s1) p"
    using honest_accept [of "dl_scheduler s" p q w] h(1) ok 2(5) by (simp add: loop_ok_def)
  ultimately show thesis using that [of s1 x] 2(4,7) res(1) by simp
next
  case (3 c e)
  then show thesis
    using write_verified_chunk_no_faults [OF res(2,3) 3(3), of pc completed] res(1) by auto
qed

lemma download_chunks_live:
  assumes shape: "validate_shape m = Inr ()" and "p < n"
  shows "loop_ok m s \<Longrightarrow> honest (dl_scheduler s) p \<Longrightarrow> dl_resume s = resume_of output m completed \<Longrightarrow>
    faults d = [] \<Longrightarrow> files d (part_path_of output) \<noteq> None \<Longrightarrow> list_all (honest_event H m p) evs \<Longrightarrow>
    work (dl_scheduler s) \<le> length evs \<Longrightarrow> \<exists>s' d'. download_chunks pc H m n evs s d = Some (Inr s', d') \<and> faults d' = []"
proof (induction evs arbitrary: s d completed)
  case Nil
  then show ?case by (simp add: is_complete_iff work_def)
next
  case (Cons ev evs)
  have ev: "ev_continue ev" "ev_sent ev p" "ev_result ev \<noteq> None"
    using Cons.prems(6) by (auto simp: honest_event_def)
  show ?case
  proof (cases "is_complete (dl_scheduler s)")
    case False
    have h: "honest sched p \<and> pending \<noteq> []" if "assign_workers m (ev_sent ev) [0..<n]
        (dl_scheduler s, dl_pending s, False) = Inr (sched, pending, assigned)" for sched pending assigned
      using assign_workers_honest [OF shape ev(2) _ _ _ Cons.prems(2) False _ that] Cons.prems(1) assms(2)
      by (simp add: loop_ok_def)
    show ?thesis
    proof (cases rule: download_chunks_turn [OF shape Cons.prems(1) False ev(1), of pc H n evs d])
      case 1
      then show ?thesis using h ev(3) by blast
    next
      case (2 s1 q w k answer assigned)
      have "unat w < length (m_chunks m)"
        using 2(1,4) by (auto simp: loop_ok_def swarm.tracks_def claims_def)
      then have good: "q = p \<longrightarrow> (\<exists>c. answer q w = Some c \<and> c_index c = w \<and> verify_chunk H m c = Inr ())"
        using Cons.prems(6) 2(5) by (auto simp: honest_event_def)
      have res: "dl_resume s1 = resume_of output m completed" using 2(3) Cons.prems(3) by simp
      obtain r d' where t: "take_result pc H m n (q, w) (answer q w) s1 d = (r, d')" by fastforce
      have h1: "honest (dl_scheduler s1) p" using h 2(7) by blast
      obtain s' x where s': "r = Inr s'" "honest (dl_scheduler s') p" "dl_resume s' = resume_of output m x"
        "faults d' = []" "files d' (part_path_of output) \<noteq> None"
        using take_result_honest [OF shape 2(1,4) h1 good res Cons.prems(4,5) t] by metis
      note pr = take_result_progress [OF shape 2(1,4) t [unfolded s'(1)]]
      have "work (dl_scheduler s1) \<le> work (dl_scheduler s)" using 2(2) by (simp add: same_work_def work_def)
      then have "work (dl_scheduler s') \<le> length evs" using pr(2) Cons.prems(7) by simp
      from Cons.IH [OF pr(1) s'(2-5) _ this] show ?thesis using Cons.prems(6) 2(6) t s'(1) by simp
    qed
  qed (use Cons.prems(4) in simp)
qed

section \<open>The transfer\<close>

lemma resume_open_length:
  "resume_open pc H output m d = (Inr (r, n), d') \<Longrightarrow>
    validate_shape m = Inr () \<and> length (rr_completed (rd_record r)) = length (m_chunks m)"
  by (auto simp: resume_open_def Let_def result_iffs split: if_splits)

definition start :: "scheduler \<Rightarrow> resume_download \<Rightarrow> progress \<Rightarrow> download" where
  "start sched resume p = \<lparr>dl_scheduler = sched, dl_resume = resume, dl_pending = [], dl_reports = [p]\<rparr>"

lemma start_ok:
  assumes "length completed = length (m_chunks m)" "rr_completed (rd_record resume) = completed"
    and "scheduler_new (length (m_chunks m)) as completed = Inr sched"
  shows "loop_ok m (start sched resume p)" "work sched \<le> length (m_chunks m) + length as"
    "\<And>i. chunk_done sched i \<longleftrightarrow> i < length completed \<and> completed ! i"
proof -
  note c = scheduler_new_counts [OF assms(3)]
  have s: "s_chunks sched = map (\<lambda>d. if d then ChunkDone else Missing) completed"
    using assms(3) by (auto simp: scheduler_new_def result_iffs split: if_splits)
  have "\<not> claims sched q i" for q i by (auto simp: claims_def s split: if_splits)
  then show "loop_ok m (start sched resume p)"
    using scheduler_new_ok [OF assms(3)] assms(1,2) s by (simp add: loop_ok_def start_def swarm.tracks_def)
  have "active_count sched \<le> length as" using c(4) by (metis active_count_def length_filter_le)
  moreover have "remaining sched \<le> length (m_chunks m)" using c(2) assms(1) by (metis length_filter_le)
  ultimately show "work sched \<le> length (m_chunks m) + length as" by (simp add: work_def)
  show "chunk_done sched i \<longleftrightarrow> i < length completed \<and> completed ! i" for i by (rule c(5))
qed

lemma start_stored:
  assumes "postcard_sound pc m" "resume_open pc H output m d = (Inr (resume, k), d0)"
    and "scheduler_new (length (m_chunks m)) as (rr_completed (rd_record resume)) = Inr sched"
  shows "loop_ok m (start sched resume p)" "stored pc H output m (start sched resume p) d0"
proof -
  note l = resume_open_length [OF assms(2)]
  note st = start_ok [OF conjunct2 [OF l] refl assms(3)]
  show "loop_ok m (start sched resume p)" by (rule st(1))
  show "stored pc H output m (start sched resume p) d0"
    using resume_open_sound [OF assms(1,2)] l st(3) by (auto simp: stored_def start_def)
qed

lemma resumable_reopens:
  assumes "validate_shape m = Inr ()" "resumable pc H output m completed d"
  shows "fst (resume_open pc H output m (d\<lparr>faults := []\<rparr>)) =
    Inr (resume_of output m completed, length (filter (\<lambda>finished. finished) completed))"
proof -
  have "resumable pc H output m completed (d\<lparr>faults := []\<rparr>)" using assms(2) by (simp add: resumable_def)
  then show ?thesis using resume_open_resumable [OF assms(1)] by simp
qed

text \<open>A transfer ends before the loop, or runs it between opening and finishing.\<close>

lemma receive_swarm_cases:
  assumes "m = cp_manifest (hd providers)"
  obtains (early) e d' where "receive_swarm pc H providers cid out events d = Some (Inl e, d')"
      "d' = d \<or> d' = snd (resume_open pc H out m d)"
  | (loop) resume k d0 sched p where "resume_open pc H out m d = (Inr (resume, k), d0)"
      "scheduler_new (length (m_chunks m)) (map cp_availability providers) (rr_completed (rd_record resume)) = Inr sched"
      "receive_swarm pc H providers cid out events d =
        (case download_chunks pc H m (length providers) events (start sched resume p) d0 of
           None \<Rightarrow> None | Some (Inl e, d) \<Rightarrow> Some (Inl e, d)
         | Some (Inr s, d) \<Rightarrow> Some (act_bind (resume_finish H out cid (dl_resume s)) (\<lambda>_.
             act_return (stats_of providers (dl_scheduler s) k, dl_reports s)) d))"
proof (cases "list_ex (\<lambda>p. cp_manifest p \<noteq> m) providers")
  case True
  then show thesis using early by (auto simp: receive_swarm_def Let_def assms act_bail_def)
next
  case False
  note f = this
  obtain r d0 where o: "resume_open pc H out m d = (r, d0)" by (cases "resume_open pc H out m d")
  show thesis
  proof (cases r)
    case (Inl e)
    then show thesis using early f o by (auto simp: receive_swarm_def Let_def assms)
  next
    case (Inr rk)
    obtain resume k where r: "rk = (resume, k)" by fastforce
    let ?c = "rr_completed (rd_record resume)"
    obtain p where p: "report_verified_progress m ?c (length providers) 0 0 = Inr p"
      using report_verified_progress_eq resume_open_length [OF o [unfolded Inr r]] by metis
    show thesis
    proof (cases "scheduler_new (length (m_chunks m)) (map cp_availability providers) ?c")
      case (Inl e)
      then show thesis using early f o Inr r p by (auto simp: receive_swarm_def Let_def assms)
    next
      case (Inr sched)
      note n = this
      show thesis
      proof (cases "can_finish sched")
        case False
        then show thesis using early f o \<open>r = Inr rk\<close> r p n by (auto simp: receive_swarm_def Let_def assms act_bail_def)
      next
        case True
        then have "receive_swarm pc H providers cid out events d =
          (case download_chunks pc H m (length providers) events (start sched resume p) d0 of
             None \<Rightarrow> None | Some (Inl e, d) \<Rightarrow> Some (Inl e, d)
           | Some (Inr s, d) \<Rightarrow> Some (act_bind (resume_finish H out cid (dl_resume s)) (\<lambda>_.
               act_return (stats_of providers (dl_scheduler s) k, dl_reports s)) d))"
          using f o \<open>r = Inr rk\<close> r p n by (simp add: receive_swarm_def Let_def assms start_def)
        then show thesis using loop o \<open>r = Inr rk\<close> r n by blast
      qed
    qed
  qed
qed

lemma resume_finish_keeps:
  assumes "resume_finish H output c (resume_of output m completed) d = (Inl e, d')"
    and "files d' (part_path_of output) \<noteq> None"
  shows "files d' (part_path_of output) = files d (part_path_of output)"
    and "files d' (state_path_of output) = files d (state_path_of output)"
proof -
  note p = paths_distinct [of "output"]
  obtain r1 d1 where 1: "fs_read (part_path_of output) d = (r1, d1)" by (cases "fs_read (part_path_of output) d")
  obtain r2 d2 where 2: "replace_file (part_path_of output) output d1 = (r2, d2)"
    by (cases "replace_file (part_path_of output) output d1")
  obtain r3 d3 where 3: "fs_remove (state_path_of output) d2 = (r3, d3)" by (cases "fs_remove (state_path_of output) d2")
  have part: "files d2 (part_path_of output) = files d1 (part_path_of output) \<or> files d2 (part_path_of output) = None"
    using 2 p by (auto simp: replace_file_def act_bind_def fs_rename_def fs_remove_def next_fault_def
        split: prod.splits sum.splits option.splits list.splits if_splits)
  have "files d' = files d1 \<or> files d' = files d2 \<and> is_ok r2 = False \<or> files d' = files d3 \<and> is_ok r2"
    using assms(1) 1 2 3
    by (cases r1; cases r2) (auto simp: resume_finish_def act_bind_def resume_of_def act_bail_def is_ok_iff split: if_splits)
  then show "files d' (part_path_of output) = files d (part_path_of output)"
    "files d' (state_path_of output) = files d (state_path_of output)"
    using fs_read_files [OF 1] replace_file_cases [OF 2 p(4)] fs_remove_cases [OF 3] part assms(2) p
    by (auto simp: is_ok_iff)
qed

lemma sum_accepted:
  assumes "length (s_providers s) = length providers"
  shows "sum_list (map snd (ts_accepted (stats_of providers s k))) = accepted_total s"
proof -
  have "map snd (ts_accepted (stats_of providers s k)) = map p_accepted (s_providers s)"
    using assms
    by (auto simp: stats_of_def provider_stats_of_def Let_def intro!: nth_equalityI)
  then show ?thesis by (simp add: accepted_total_def)
qed

lemma filter_complement: "length (filter Not bs) + length (filter (\<lambda>b. b) bs) = length bs"
  using sum_length_filter_compl [of Not bs] by simp

lemma receive_swarm_keeps:
  assumes "m = cp_manifest (hd providers)" "postcard_sound pc m" "answers_sized H m events"
    and "resume_open pc H output m d = (Inr (resume, k), d0)"
    and "receive_swarm pc H providers cid output events d = Some (Inl e, d')"
    and "files d' (part_path_of output) \<noteq> None" "files d' (state_path_of output) \<noteq> None"
  shows "\<exists>x. resumable pc H output m x d'
    \<and> (\<forall>i < length (m_chunks m). rr_completed (rd_record resume) ! i \<longrightarrow> x ! i)"
proof (cases rule: receive_swarm_cases [OF assms(1), where pc = pc and H = H and cid = cid and out = "output" and events = events and d = d])
  case (1 e1 d1)
  note l = resume_open_length [OF assms(4)]
  have "files d' = files d0"
  proof (cases "d' = d")
    case True
    then show ?thesis
      using resume_open_existing [OF conjunct1 [OF l] _ _ assms(4)] assms(6,7) by (simp add: fs_exists_def)
  next
    case False
    then show ?thesis using 1 assms(4,5) by simp
  qed
  then show ?thesis using resume_open_sound [OF assms(2,4)] by (auto simp: resumable_def)
next
  case (2 resume' k' d0' sched p)
  have eq: "resume' = resume" "d0' = d0" using 2(1) assms(4) by simp_all
  note l = resume_open_length [OF assms(4)]
  note st = start_stored [OF assms(2,4) 2(2) [unfolded eq], of p]
  note dn = start_ok(3) [OF conjunct2 [OF l] refl 2(2) [unfolded eq]]
  obtain r1 d1 where r1: "download_chunks pc H m (length providers) events (start sched resume p) d0 = Some (r1, d1)"
    using 2(3) assms(5) eq by (auto split: option.splits)
  note a = download_chunks_stored [OF conjunct1 [OF l] assms(2) st assms(3) r1]
  show ?thesis
  proof (cases r1)
    case (Inl x)
    then have "d' = d1" using 2(3) assms(5) r1 eq by simp
    then have "recoverable pc H output m sched d'" using a by (simp add: start_def)
    then show ?thesis using dn l assms(7) unfolding recoverable_def by simp
  next
    case (Inr s)
    obtain completed where c: "dl_resume s = resume_of output m completed" "resumable pc H output m completed d1"
      "\<forall>i < length (m_chunks m). completed ! i \<longleftrightarrow> chunk_done (dl_scheduler s) i"
      using a Inr by (auto simp: stored_def)
    have "resume_finish H output cid (resume_of output m completed) d1 = (Inl e, d')"
      using 2(3) assms(5) r1 Inr eq c(1) by (auto simp: act_bind_def act_return_def split: prod.splits sum.splits)
    note keeps = resume_finish_keeps [OF this assms(6)]
    have "later sched (dl_scheduler s)"
      using download_chunks_sound [OF conjunct1 [OF l] st(1) r1 [unfolded Inr]] by (simp add: start_def)
    then have "\<forall>i < length (m_chunks m). rr_completed (rd_record resume) ! i \<longrightarrow> completed ! i"
      using c(3) dn l by (simp add: later_def)
    moreover have "resumable pc H output m completed d'" using c(2) keeps by (simp add: resumable_def)
    ultimately show ?thesis by blast
  qed
qed

section \<open>Properties\<close>

text \<open>
  (C3) The download loop terminates: each turn ends the transfer or uses up a missing chunk or a
  live provider, so a run never takes more turns than there are chunks and providers together,
  whatever the providers, the network and the disk do.
\<close>

theorem receive_swarm_terminates:
  assumes "length (m_chunks (cp_manifest (hd providers))) + length providers \<le> length events"
  shows "\<exists>r. receive_swarm pc H providers cid output events d = Some r"
proof (cases rule: receive_swarm_cases [OF refl, where pc = pc and H = H and providers = providers and cid = cid and out = "output" and events = events and d = d])
  case (2 resume k d0 sched p)
  note l = resume_open_length [OF 2(1)]
  note st = start_ok [OF conjunct2 [OF l] refl 2(2)]
  have "work (dl_scheduler (start sched resume p)) \<le> length events"
    using st(2) assms by (simp add: start_def)
  then obtain r d' where "download_chunks pc H (cp_manifest (hd providers)) (length providers) events
      (start sched resume p) d0 = Some (r, d')"
    using download_chunks_terminates [OF conjunct1 [OF l] st(1)] by fastforce
  then show ?thesis using 2(3) by (cases r) simp_all
qed blast




text \<open>
  Reported progress is exact: for a valid manifest a report never fails, counts the verified
  chunks and their bytes, never exceeds the content length, and reaches it exactly when every
  chunk is verified.
\<close>

theorem verified_progress_exact:
  assumes "validate_shape m = Inr ()" "length completed = length (m_chunks m)"
  shows "\<exists>p. report_verified_progress m completed n retry rejected = Inr p
    \<and> pr_verified_chunks p = length (filter (\<lambda>finished. finished) completed)
    \<and> pr_verified_bytes p = verified_bytes m completed
    \<and> pr_verified_bytes p \<le> pr_bytes_total p
    \<and> (pr_verified_bytes p = pr_bytes_total p \<longleftrightarrow> (\<forall>i < length completed. completed ! i))"
  using report_verified_progress_eq [OF assms] verified_bytes_bounds [OF assms] by simp

section \<open>Instances\<close>

definition demo_source :: connected_provider where
  "demo_source = \<lparr>cp_peer_id = PeerId (bytes32_fill 1), cp_manifest = demo_manifest,
    cp_availability = from_indices 1 [0]\<rparr>"

definition demo_event :: "bool \<Rightarrow> event" where
  "demo_event go = \<lparr>ev_continue = go, ev_sent = (\<lambda>_. True), ev_result = Some (0, \<lambda>_ _. Some demo_chunk)\<rparr>"

lemma demo_open:
  "resume_open demo_postcard (\<lambda>_. bytes32_fill 7) [] demo_manifest (demo_disk []) =
    (Inr (resume_of [] demo_manifest [False], 0), demo_disk [])"
  using resume_open_resumable [OF demo_shape demo_resumable, of "[]"] by (simp add: demo_disk_def)

lemma demo_verify: "verify_chunk (\<lambda>_. bytes32_fill 7) demo_manifest demo_chunk = Inr ()"
  by (simp add: verify_chunk_def demo_manifest_def demo_chunk_def chunk_id_digest_def)

lemma demo_event_honest: "honest_event (\<lambda>_. bytes32_fill 7) demo_manifest 0 (demo_event True)"
  using demo_verify by (auto simp: honest_event_def demo_event_def demo_manifest_def demo_chunk_def unat_eq_0)

lemma demo_events_sized: "answers_sized (\<lambda>_. bytes32_fill 7) demo_manifest [demo_event a, demo_event b]"
  by (auto simp: answers_sized_def answer_sized_def demo_event_def demo_chunk_def chunk_len_def
      demo_manifest_def CHUNK_SIZE_def)

lemma demo_scheduler_of:
  "scheduler_new (length (m_chunks demo_manifest)) [from_indices 1 [0]]
    (rr_completed (rd_record (resume_of [] demo_manifest [False]))) = Inr demo_scheduler"
  using demo_scheduler_new by (simp add: demo_manifest_def resume_of_def)

lemma demo_honest: "honest demo_scheduler 0"
proof -
  have "availability_contains (from_indices 1 [0]) 0" by (simp add: from_indices_contains_iff)
  then show ?thesis
    by (simp add: honest_def demo_scheduler_def provider_has_def u32_try_from_def)
qed

lemma demo_source_sel: "cp_manifest demo_source = demo_manifest" "cp_availability demo_source = from_indices 1 [0]"
  by (simp_all add: demo_source_def)

lemma demo_receive:
  "\<exists>p. receive_swarm demo_postcard (\<lambda>_. bytes32_fill 7) [demo_source] cid [] events (demo_disk []) =
    (case download_chunks demo_postcard (\<lambda>_. bytes32_fill 7) demo_manifest 1 events
        (start demo_scheduler (resume_of [] demo_manifest [False]) p) (demo_disk []) of
       None \<Rightarrow> None | Some (Inl e, d) \<Rightarrow> Some (Inl e, d)
     | Some (Inr s, d) \<Rightarrow> Some (act_bind (resume_finish (\<lambda>_. bytes32_fill 7) [] cid (dl_resume s)) (\<lambda>_.
         act_return (stats_of [demo_source] (dl_scheduler s) 0, dl_reports s)) d))"
proof -
  have l: "length (m_chunks demo_manifest) = 1" by (simp add: demo_manifest_def)
  obtain p where p: "report_verified_progress demo_manifest [False] 1 0 0 = Inr p"
    using report_verified_progress_eq [OF demo_shape, of "[False]"] l by simp
  have c: "rr_completed (rd_record (resume_of [] demo_manifest [False])) = [False]" by (simp add: resume_of_def)
  have s: "scheduler_new 1 [from_indices 1 [0]] [False] = Inr demo_scheduler" by (rule demo_scheduler_new)
  show ?thesis
    using p s honest_can_finish [OF demo_honest]
    by (intro exI [of _ p]) (simp add: receive_swarm_def Let_def demo_source_sel demo_open c l start_def)
qed

text \<open>Finishing on a working disk, when every digest matches.\<close>

lemma demo_finish:
  assumes "resumable pc H output m completed d" "faults d = []" "\<forall>f. content_id_digest H f = cid"
  shows "\<exists>d'. resume_finish H output cid (resume_of output m completed) d = (Inr (), d')"
  using assms paths_distinct [of "output"]
  by (auto simp: resumable_def resume_finish_def act_bind_def fs_read_def next_fault_def resume_of_def
      replace_file_def fs_rename_def fs_remove_def)

theorem receive_swarm_terminates_witness:
  "\<exists>r. receive_swarm demo_postcard (\<lambda>_. bytes32_fill 7) [demo_source] (ContentId (bytes32_fill 7)) []
    [demo_event True, demo_event True] (demo_disk [Some (Partly 1)]) = Some r"
  by (rule receive_swarm_terminates) (simp add: demo_source_def demo_manifest_def)




theorem verified_progress_exact_witness:
  "\<exists>p. report_verified_progress demo_manifest [True] 1 0 0 = Inr p \<and> pr_verified_bytes p = pr_bytes_total p"
  using verified_progress_exact [OF demo_shape, of "[True]" 1 0 0] by (auto simp: demo_manifest_def)

end
