(* ===== verification/Rust_Str.thy ===== *)
theory Rust_Str
  imports Rust_Std
begin

text \<open>
  The parts of the Rust string and slice library that the text parsers call: splitting and
  prefixes, ASCII case, decimal numbers read and written, hexadecimal digits, the characters of
  a UTF-8 string, and binary search.  A string is the list of its bytes.
\<close>

section \<open>Splitting\<close>

text \<open>\<open>str::split\<close> on an ASCII character, \<open>split_once\<close>, \<open>strip_prefix\<close> and \<open>Iterator::position\<close>.\<close>

fun split_on :: "u8 \<Rightarrow> str \<Rightarrow> str list" where
  "split_on sep [] = [[]]"
| "split_on sep (b # bs) =
    (if b = sep then [] # split_on sep bs
     else case split_on sep bs of [] \<Rightarrow> [[b]] | item # items \<Rightarrow> (b # item) # items)"

definition split_once :: "u8 \<Rightarrow> str \<Rightarrow> (str \<times> str) option" where
  "split_once sep t =
    (if sep \<in> set t
     then Some (takeWhile (\<lambda>b. b \<noteq> sep) t, tl (dropWhile (\<lambda>b. b \<noteq> sep) t)) else None)"

definition strip_prefix :: "'a list \<Rightarrow> 'a list \<Rightarrow> 'a list option" where
  "strip_prefix pre t = (if take (length pre) t = pre then Some (drop (length pre) t) else None)"

fun position_of :: "('a \<Rightarrow> bool) \<Rightarrow> 'a list \<Rightarrow> nat option" where
  "position_of P [] = None"
| "position_of P (x # xs) = (if P x then Some 0 else map_option Suc (position_of P xs))"

lemma split_on_nonempty: "split_on sep t \<noteq> []"
  by (induction t) (auto split: list.splits)

lemma split_on_single: "sep \<notin> set r \<Longrightarrow> split_on sep r = [r]"
  by (induction r) auto

lemma split_on_append:
  "sep \<notin> set r \<Longrightarrow> split_on sep (dir @ sep # r) = split_on sep dir @ [r]"
proof (induction dir)
  case (Cons b dir)
  then show ?case using split_on_nonempty [of sep dir] by (auto split: list.splits)
qed (simp add: split_on_single)

lemma strip_prefix_Some_iff: "strip_prefix pre t = Some rest \<longleftrightarrow> t = pre @ rest"
  by (auto simp: strip_prefix_def) (metis append_take_drop_id)

lemma strip_prefix_append [simp]: "strip_prefix pre (pre @ t) = Some t"
  by (simp add: strip_prefix_def)

lemma position_of_Some_iff:
  "position_of P xs = Some i \<longleftrightarrow> i < length xs \<and> P (xs ! i) \<and> (\<forall>j < i. \<not> P (xs ! j))"
proof (induction xs arbitrary: i)
  case (Cons x xs)
  then show ?case
    by (cases i) (auto simp: All_less_Suc2 less_Suc_eq_0_disj)
qed simp

lemma position_of_append:
  "(\<And>x. x \<in> set xs \<Longrightarrow> \<not> P x) \<Longrightarrow> P y \<Longrightarrow> position_of P (xs @ y # ys) = Some (length xs)"
  by (induction xs) auto

section \<open>ASCII\<close>

definition is_ascii_digit :: "u8 \<Rightarrow> bool" where
  "is_ascii_digit b \<longleftrightarrow> 48 \<le> b \<and> b \<le> 57"

definition to_ascii_lowercase :: "u8 \<Rightarrow> u8" where
  "to_ascii_lowercase b = (if 65 \<le> b \<and> b \<le> 90 then b + 32 else b)"

definition to_ascii_uppercase :: "u8 \<Rightarrow> u8" where
  "to_ascii_uppercase b = (if 97 \<le> b \<and> b \<le> 122 then b - 32 else b)"

lemma is_ascii_digit_unat: "is_ascii_digit b \<longleftrightarrow> 48 \<le> unat b \<and> unat b \<le> 57"
  by (simp add: is_ascii_digit_def word_le_nat_alt)

lemma is_ascii_digitE:
  assumes "is_ascii_digit b"
  obtains d where "d < 10" "b = 48 + of_nat d" "unat (b - 48) = d"
proof -
  have b: "48 \<le> b" "b \<le> 57" using assms by (auto simp: is_ascii_digit_def)
  then have u: "unat (b - 48) = unat b - 48" by (simp add: unat_sub)
  have "unat (b - 48) < 10" using assms u by (auto simp: is_ascii_digit_unat)
  moreover have "b = 48 + of_nat (unat (b - 48))" by simp
  ultimately show thesis using that by blast
qed

lemma unat_of_nat_digit [simp]: "d < 10 \<Longrightarrow> unat (of_nat d :: u8) = d"
  by (simp add: unat_of_nat)

lemma digit_byte:
  assumes "d < 10"
  shows "is_ascii_digit (48 + of_nat d)" "unat (48 + of_nat d - 48 :: u8) = d"
    and "unat (48 + of_nat d :: u8) = 48 + d"
proof -
  have "unat (of_nat d :: u8) = d" using assms by (simp add: unat_of_nat)
  then show u: "unat (48 + of_nat d :: u8) = 48 + d" using assms by (simp add: unat_word_ariths)
  then show "is_ascii_digit (48 + of_nat d)" using assms by (simp add: is_ascii_digit_unat)
  show "unat (48 + of_nat d - 48 :: u8) = d" using assms by (simp add: unat_of_nat)
qed

lemma of_char_u8_inject [simp]: "(of_char c :: u8) = of_char d \<longleftrightarrow> c = d"
proof -
  have "unat (of_nat (of_char c) :: u8) = (of_char c :: nat)" for c
    using nat_of_char_less_256 [of c] by (subst unat_of_nat) simp
  then have u: "unat (of_char c :: u8) = (of_char c :: nat)" for c
    unfolding of_nat_of_char .
  show ?thesis
  proof
    assume "(of_char c :: u8) = of_char d"
    then have "(of_char c :: nat) = of_char d" unfolding u [symmetric] by (rule arg_cong)
    then show "c = d" by (rule of_char_eqI)
  qed (rule arg_cong)
qed

lemma ascii_inject [simp]: "ascii s = ascii t \<longleftrightarrow> s = t"
  by (auto simp: ascii_def inj_map_eq_map inj_def)

section \<open>Decimal numbers\<close>

text \<open>\<open>from_str\<close> of the unsigned integers accepts a leading plus sign.\<close>

definition digits_value :: "str \<Rightarrow> nat" where
  "digits_value digits = foldl (\<lambda>n b. 10 * n + unat (b - 48)) 0 digits"

definition parse_decimal :: "str \<Rightarrow> nat option" where
  "parse_decimal t =
    (let digits = (if t \<noteq> [] \<and> hd t = 43 then tl t else t) in
     if digits = [] \<or> list_ex (\<lambda>b. b < 48 \<or> 57 < b) digits then None
     else Some (digits_value digits))"

definition parse_u32 :: "str \<Rightarrow> u32 option" where
  "parse_u32 t = Option.bind (parse_decimal t) u32_try_from"

definition parse_usize :: "str \<Rightarrow> nat option" where
  "parse_usize t = Option.bind (parse_decimal t) (\<lambda>n. if n \<le> usize_max then Some n else None)"

definition i64_range :: "int \<Rightarrow> bool" where
  "i64_range v \<longleftrightarrow> - (2 ^ 63) \<le> v \<and> v < 2 ^ 63"

text \<open>\<open>i64::from_str\<close>: one sign, then digits, within the range.\<close>

definition parse_i64 :: "str \<Rightarrow> int option" where
  "parse_i64 t =
    (let negative = (t \<noteq> [] \<and> hd t = 45);
         digits = (if t \<noteq> [] \<and> (hd t = 45 \<or> hd t = 43) then tl t else t) in
     if digits = [] \<or> \<not> list_all is_ascii_digit digits then None
     else let v = (if negative then - int (digits_value digits) else int (digits_value digits)) in
       if i64_range v then Some v else None)"

text \<open>\<open>Display\<close> of the integers.\<close>

fun decimal :: "nat \<Rightarrow> str" where
  "decimal n = (if n < 10 then [48 + of_nat n] else decimal (n div 10) @ [48 + of_nat (n mod 10)])"

declare decimal.simps [simp del]

definition decimal_int :: "int \<Rightarrow> str" where
  "decimal_int v = (if v < 0 then 45 # decimal (nat (- v)) else decimal (nat v))"

text \<open>The decimal strings without a superfluous zero.\<close>

definition canonical_digits :: "str \<Rightarrow> bool" where
  "canonical_digits t \<longleftrightarrow> t \<noteq> [] \<and> list_all is_ascii_digit t \<and> (hd t = 48 \<longrightarrow> length t = 1)"

lemma digits_value_simps [simp]:
  "digits_value [] = 0" "digits_value (t @ [b]) = 10 * digits_value t + unat (b - 48)"
  by (simp_all add: digits_value_def)

lemma parse_decimal_digits:
  assumes "list_all is_ascii_digit t" "t \<noteq> []"
  shows "parse_decimal t = Some (digits_value t)"
proof -
  have "is_ascii_digit (hd t)" using assms by (cases t) auto
  then have h: "hd t \<noteq> 43" by (auto simp: is_ascii_digit_def)
  have "\<not> list_ex (\<lambda>b. b < 48 \<or> 57 < b) t"
    using assms(1) by (auto simp: list_ex_iff list_all_iff is_ascii_digit_def not_less)
  then show ?thesis using assms(2) h by (simp add: parse_decimal_def)
qed

lemma decimal_nonempty [simp]: "decimal n \<noteq> []"
  by (subst decimal.simps) simp

lemma decimal_digits: "list_all is_ascii_digit (decimal n)"
proof (induction n rule: decimal.induct)
  case (1 n)
  then show ?case by (subst decimal.simps) (auto simp: digit_byte)
qed

lemma digits_value_decimal [simp]: "digits_value (decimal n) = n"
proof (induction n rule: decimal.induct)
  case (1 n)
  show ?case
  proof (cases "n < 10")
    case True
    then show ?thesis
      using digits_value_simps(2) [of "[]" "48 + of_nat n"] by (subst decimal.simps) (simp add: digit_byte)
  next
    case False
    then show ?thesis using 1 by (subst decimal.simps) (simp add: digit_byte)
  qed
qed

lemma hd_decimal: "0 < n \<Longrightarrow> hd (decimal n) \<noteq> 48"
proof (induction n rule: decimal.induct)
  case (1 n)
  show ?case
  proof (cases "n < 10")
    case True
    then have "unat (48 + of_nat n :: u8) = 48 + n" by (simp add: digit_byte)
    then have "48 + of_nat n \<noteq> (48 :: u8)" using 1(2) by auto
    then show ?thesis using True by (subst decimal.simps) simp
  next
    case False
    then show ?thesis using 1(1) by (subst decimal.simps) (simp add: hd_append)
  qed
qed

lemma decimal_0: "decimal 0 = [48]"
  by (simp add: decimal.simps)

lemma canonical_decimal: "canonical_digits (decimal n)"
  using decimal_digits [of n] hd_decimal [of n]
  by (cases "n = 0") (auto simp: canonical_digits_def decimal_0)

lemma digits_value_pos:
  assumes "list_all is_ascii_digit t" "t \<noteq> []" "hd t \<noteq> 48"
  shows "0 < digits_value t"
  using assms
proof (induction t rule: rev_induct)
  case (snoc b t)
  show ?case
  proof (cases "t = []")
    case True
    then obtain d where "b = 48 + of_nat d" "unat (b - 48) = d" using snoc by (auto elim: is_ascii_digitE)
    moreover have "b \<noteq> 48" using snoc True by simp
    ultimately show ?thesis using True digits_value_simps(2) [of "[]" b] by (cases "d = 0") auto
  next
    case False
    then show ?thesis using snoc by (simp add: hd_append)
  qed
qed simp

lemma decimal_digits_value: "canonical_digits t \<Longrightarrow> decimal (digits_value t) = t"
proof (induction t rule: rev_induct)
  case (snoc b t)
  then have d: "list_all is_ascii_digit t" "is_ascii_digit b" by (auto simp: canonical_digits_def)
  obtain d where b: "d < 10" "b = 48 + of_nat d" "unat (b - 48) = d"
    using d(2) by (rule is_ascii_digitE)
  show ?case
  proof (cases "t = []")
    case True
    then show ?thesis
      using b digits_value_simps(2) [of "[]" b] by (simp add: decimal.simps)
  next
    case False
    then have h: "hd t \<noteq> 48" using snoc.prems by (auto simp: canonical_digits_def hd_append)
    then have "canonical_digits t" using d False by (simp add: canonical_digits_def)
    then have IH: "decimal (digits_value t) = t" by (rule snoc.IH)
    have "0 < digits_value t" by (rule digits_value_pos [OF d(1) False h])
    then show ?thesis using b IH by (subst decimal.simps) simp
  qed
qed (simp add: canonical_digits_def)

lemma parse_usize_decimal [simp]: "n \<le> usize_max \<Longrightarrow> parse_usize (decimal n) = Some n"
  by (simp add: parse_usize_def parse_decimal_digits decimal_digits)

section \<open>Characters\<close>

text \<open>\<open>str::chars\<close>: the code points of a valid UTF-8 string.\<close>

fun chars :: "str \<Rightarrow> nat list" where
  "chars [] = []"
| "chars (b # bs) =
    (if b < 0x80 then unat b # chars bs
     else if b < 0xE0 then
       (case bs of
          c1 # r \<Rightarrow> (unat b mod 32 * 64 + unat c1 mod 64) # chars r
        | _ \<Rightarrow> [])
     else if b < 0xF0 then
       (case bs of
          c1 # c2 # r \<Rightarrow> (unat b mod 16 * 4096 + unat c1 mod 64 * 64 + unat c2 mod 64) # chars r
        | _ \<Rightarrow> [])
     else
       (case bs of
          c1 # c2 # c3 # r \<Rightarrow>
            (unat b mod 8 * 262144 + unat c1 mod 64 * 4096 + unat c2 mod 64 * 64 + unat c3 mod 64)
            # chars r
        | _ \<Rightarrow> []))"

lemma utf8_cont_large: "utf8_cont b \<Longrightarrow> \<not> b < 0x80"
  by (simp add: utf8_cont_def not_less)

text \<open>The sequences of a valid string, longest last: the bytes after the first are not ASCII.\<close>

lemma utf8_sequence:
  assumes "utf8 (a # bs)"
  obtains (one) "a < 0x80" "utf8 bs"
  | (two) c1 r where "bs = c1 # r" "utf8 r" "\<not> a < 0x80" "a < 0xE0" "\<not> c1 < 0x80"
  | (three) c1 c2 r where "bs = c1 # c2 # r" "utf8 r" "\<not> a < 0xE0" "a < 0xF0" "\<not> c1 < 0x80" "\<not> c2 < 0x80"
  | (four) c1 c2 c3 r where "bs = c1 # c2 # c3 # r" "utf8 r" "\<not> a < 0xF0"
      "\<not> c1 < 0x80" "\<not> c2 < 0x80" "\<not> c3 < 0x80"
proof -
  have lim: "x \<le> 0xDF \<Longrightarrow> x < 0xE0" "x \<le> 0xEF \<Longrightarrow> x < 0xF0" "0xA0 \<le> x \<Longrightarrow> \<not> x < 0x80"
    "0x90 \<le> x \<Longrightarrow> \<not> x < 0x80" "0xC2 \<le> x \<Longrightarrow> \<not> x < 0x80" for x :: u8
    by (simp_all add: word_le_nat_alt word_less_nat_alt)
  consider "a < 0x80" | "\<not> a < 0x80" "0xC2 \<le> a" "a \<le> 0xDF" | "0xE0 \<le> a" "a \<le> 0xEF" | "0xF0 \<le> a" "a \<le> 0xF4"
    using assms by (auto split: if_splits)
  then show thesis
  proof cases
    case 1
    then show thesis using assms one by simp
  next
    case 2
    then obtain c1 r where "bs = c1 # r" "utf8 r" "utf8_cont c1"
      using assms by (auto split: list.splits)
    then show thesis using two 2 lim(1) utf8_cont_large by blast
  next
    case 3
    have n: "\<not> a < 0x80" "\<not> a \<le> 0xDF" using 3 by (simp_all add: word_le_nat_alt word_less_nat_alt)
    then obtain c1 c2 r where "bs = c1 # c2 # r" "utf8 r" "utf8_cont c2"
      "if a = 0xE0 then 0xA0 \<le> c1 \<and> c1 \<le> 0xBF else if a = 0xED then 0x80 \<le> c1 \<and> c1 \<le> 0x9F else utf8_cont c1"
      using assms 3 by (auto split: list.splits)
    moreover from this have "\<not> c1 < 0x80"
      using lim(3) utf8_cont_large by (auto simp: not_less split: if_splits)
    ultimately show thesis using three 3 lim(2) utf8_cont_large by (metis not_less)
  next
    case 4
    have n: "\<not> a < 0x80" "\<not> a \<le> 0xDF" "\<not> a \<le> 0xEF" using 4 by (simp_all add: word_le_nat_alt word_less_nat_alt)
    then obtain c1 c2 c3 r where "bs = c1 # c2 # c3 # r" "utf8 r" "utf8_cont c2" "utf8_cont c3"
      "if a = 0xF0 then 0x90 \<le> c1 \<and> c1 \<le> 0xBF else if a = 0xF4 then 0x80 \<le> c1 \<and> c1 \<le> 0x8F else utf8_cont c1"
      using assms 4 by (auto split: list.splits)
    moreover from this have "\<not> c1 < 0x80"
      using lim(4) utf8_cont_large by (auto simp: not_less split: if_splits)
    ultimately show thesis using four 4 utf8_cont_large by (metis not_less)
  qed
qed

lemma chars_ascii: "utf8 t \<Longrightarrow> b \<in> set t \<Longrightarrow> b < 0x80 \<Longrightarrow> unat b \<in> set (chars t)"
proof (induction t rule: length_induct)
  case (1 t)
  show ?case
  proof (cases t)
    case (Cons a bs)
    have lim: "\<not> a < 0xE0 \<Longrightarrow> \<not> a < 0x80" "\<not> a < 0xF0 \<Longrightarrow> \<not> a < 0x80 \<and> \<not> a < 0xE0"
      by (simp_all add: word_less_nat_alt)
    have "utf8 (a # bs)" using 1(2) Cons by simp
    then show ?thesis
    proof (cases rule: utf8_sequence)
      case one
      then show ?thesis using 1 Cons by auto
    next
      case (two c1 r)
      then have "b \<in> set r" using 1(3,4) Cons by auto
      then show ?thesis using two 1(1,4) Cons by auto
    next
      case (three c1 c2 r)
      then have "b \<in> set r" using 1(3,4) Cons lim by auto
      then show ?thesis using three 1(1,4) Cons lim by auto
    next
      case (four c1 c2 c3 r)
      then have "b \<in> set r" using 1(3,4) Cons lim by auto
      then show ?thesis using four 1(1,4) Cons lim by auto
    qed
  qed (use 1(3) in simp)
qed

section \<open>Slices\<close>

text \<open>
  \<open>slice::binary_search_by_key\<close>: the window is halved until one candidate is left.  Only the
  found index is used by the sources.
\<close>

function binary_search_from :: "('a \<Rightarrow> 'k :: linorder) \<Rightarrow> 'k \<Rightarrow> 'a list \<Rightarrow> nat \<Rightarrow> nat \<Rightarrow> nat" where
  "binary_search_from key k xs base len =
    (if len \<le> 1 then base
     else let half = len div 2; mid = base + half in
       binary_search_from key k xs (if k < key (xs ! mid) then base else mid) (len - half))"
  by pat_completeness auto
termination
  by (relation "measure (\<lambda>(key, k, xs, base, len). len)") auto

declare binary_search_from.simps [simp del]

definition binary_search_by_key :: "('a \<Rightarrow> 'k :: linorder) \<Rightarrow> 'k \<Rightarrow> 'a list \<Rightarrow> nat option" where
  "binary_search_by_key key k xs =
    (if xs = [] then None
     else let i = binary_search_from key k xs 0 (length xs) in
       if key (xs ! i) = k then Some i else None)"

lemma binary_search_from_bound:
  "0 < len \<Longrightarrow> binary_search_from key k xs base len < base + len"
proof (induction key k xs base len rule: binary_search_from.induct)
  case (1 key k xs base len)
  show ?case
  proof (cases "len \<le> 1")
    case False
    then have "0 < len - len div 2" by linarith
    then have "binary_search_from key k xs (if k < key (xs ! (base + len div 2)) then base else base + len div 2)
        (len - len div 2) < (if k < key (xs ! (base + len div 2)) then base else base + len div 2)
        + (len - len div 2)"
      using 1(1) [OF False refl refl] by blast
    also have "\<dots> \<le> base + len" by auto
    finally show ?thesis using False by (subst binary_search_from.simps) (simp add: Let_def)
  qed (use 1 in \<open>simp add: binary_search_from.simps\<close>)
qed

lemma binary_search_from_window:
  assumes "sorted_wrt (<) (map key xs)" "0 < len" "base + len \<le> length xs"
    and "j < length xs" "key (xs ! j) = k" "base \<le> j" "j < base + len"
  shows "binary_search_from key k xs base len = j"
  using assms
proof (induction key k xs base len rule: binary_search_from.induct)
  case (1 key k xs base len)
  show ?case
  proof (cases "len \<le> 1")
    case True
    then have "j = base" using 1 by linarith
    then show ?thesis using True by (simp add: binary_search_from.simps)
  next
    case False
    define half where "half = len div 2"
    define mid where "mid = base + half"
    have mid: "mid < length xs" "half < len" "0 < half"
      using 1 False by (auto simp: mid_def half_def)
    have lt: "k < key (xs ! mid) \<longleftrightarrow> j < mid"
    proof -
      have "i < i' \<Longrightarrow> i' < length xs \<Longrightarrow> key (xs ! i) < key (xs ! i')" for i i'
        using sorted_wrt_nth_less [OF 1(2), of i i'] by simp
      then have "j < mid \<Longrightarrow> k < key (xs ! mid)" "mid < j \<Longrightarrow> key (xs ! mid) < k"
        using 1 mid by auto
      then show ?thesis using 1(6) by (metis linorder_neqE_nat order.asym order_less_irrefl)
    qed
    have "binary_search_from key k xs base len
        = binary_search_from key k xs (if k < key (xs ! mid) then base else mid) (len - half)"
      using False by (subst binary_search_from.simps) (simp add: half_def mid_def Let_def)
    also have "\<dots> = j"
      using 1(1) [OF False half_def mid_def] 1(2-) mid lt
      by (auto simp: mid_def half_def)
    finally show ?thesis .
  qed
qed

theorem binary_search_by_key_sorted:
  assumes "sorted_wrt (<) (map key xs)"
  shows "binary_search_by_key key k xs = Some i \<longleftrightarrow> i < length xs \<and> key (xs ! i) = k"
proof -
  have found: "binary_search_from key k xs 0 (length xs) = j" if "j < length xs" "key (xs ! j) = k" for j
    using assms that by (intro binary_search_from_window) auto
  have small: "binary_search_from key k xs 0 (length xs) < length xs" if "xs \<noteq> []"
    using binary_search_from_bound [of "length xs" key k xs 0] that by simp
  show ?thesis
    using found small by (auto simp: binary_search_by_key_def Let_def)
qed

end
