(* ===== verification/Transfers.thy ===== *)
theory Transfers
  imports Download Rust_Str
begin

text \<open>
  The two ends of a transfer in \<open>triptorrent-cli/src/lib.rs\<close>: the direct transfer of a file over one
  session (\<open>share_file\<close>, \<open>fetch_file\<close>), the provider of a swarm (\<open>share_file_via_overlay_with_control\<close>,
  \<open>serve_swarm_session\<close>) and its receiver (\<open>fetch_file_via_overlay_with_monitor\<close>,
  \<open>connect_swarm_provider\<close>, the provider workers).  Error texts are kept without the values that the
  source interpolates; waiting, rate limiting and diagnostic output do not change the data.
\<close>

unbundle bit_operations_syntax

section \<open>Talking over a session\<close>

text \<open>An exchange on a session; an error leaves the session as it was at that moment.\<close>

type_synonym ('n, 'a) talk = "'n session \<Rightarrow> (cli_error + 'a) \<times> 'n session"

definition talk_return :: "'a \<Rightarrow> ('n, 'a) talk" where
  "talk_return x s = (Inr x, s)"

definition talk_bail :: "string \<Rightarrow> ('n, 'a) talk" where
  "talk_bail t s = (Inl (CliBail t), s)"

definition talk_result :: "cli_error + 'a \<Rightarrow> ('n, 'a) talk" where
  "talk_result r s = (r, s)"

definition talk_bind :: "('n, 'a) talk \<Rightarrow> ('a \<Rightarrow> ('n, 'b) talk) \<Rightarrow> ('n, 'b) talk" where
  "talk_bind m f s = (case m s of (Inl e, s) \<Rightarrow> (Inl e, s) | (Inr x, s) \<Rightarrow> f x s)"

definition talk_send :: "('h, 'n) noise \<Rightarrow> message \<Rightarrow> ('n, unit) talk" where
  "talk_send z m s = (case session_send z m s of Inl e \<Rightarrow> (Inl (CliNet e), s) | Inr s \<Rightarrow> (Inr (), s))"

definition talk_receive :: "('h, 'n) noise \<Rightarrow> ('n, message) talk" where
  "talk_receive z s =
    (case session_receive z s of Inl e \<Rightarrow> (Inl (CliNet e), s) | Inr (m, s) \<Rightarrow> (Inr m, s))"

text \<open>A message received is a frame consumed, which is what ends the receiving loops.\<close>

lemma receive_frame_shorter: "receive_frame t = Inr (c, t') \<Longrightarrow> length (tcp_in t') < length (tcp_in t)"
  by (auto simp: receive_frame_def read_frame_def Let_def result_iffs split: if_splits)

lemma talk_receive_shorter:
  "talk_receive z s = (Inr m, s') \<Longrightarrow> length (tcp_in (ss_transport s')) < length (tcp_in (ss_transport s))"
  by (auto simp: talk_receive_def session_receive_def result_iffs split: sum.splits dest!: receive_frame_shorter)

section \<open>Local files\<close>

definition identify :: "hash \<Rightarrow> path \<Rightarrow> content_id act" where
  "identify H p = act_bind (fs_read p) (\<lambda>bytes. act_return (content_id_digest H bytes))"

definition load_content :: "hash \<Rightarrow> path \<Rightarrow> (manifest \<times> chunk list) act" where
  "load_content H p = act_bind (fs_read p) (\<lambda>bytes. act_result (map_err CliContent (from_bytes H bytes)))"

text \<open>
  \<open>Path::with_extension\<close> of the standard library: trailing separators and \<open>/.\<close> are not part of the
  last component; without a file name the path stays as it is.
\<close>

function trim_path :: "path \<Rightarrow> path" where
  "trim_path p =
    (if 1 < length p \<and> last p = 47 then trim_path (butlast p)
     else if 2 < length p \<and> last p = 46 \<and> last (butlast p) = 47 then trim_path (butlast p)
     else p)"
  by auto

termination
  by (relation "measure length") auto

declare trim_path.simps [simp del]

definition last_component :: "path \<Rightarrow> str" where
  "last_component p = rev (takeWhile (\<lambda>b. b \<noteq> 47) (rev (trim_path p)))"

definition file_stem_length :: "str \<Rightarrow> nat" where
  "file_stem_length name =
    (let ext = takeWhile (\<lambda>b. b \<noteq> 46) (rev name) in
     if length name \<le> length ext + 1 then length name else length name - length ext - 1)"

definition with_extension :: "path \<Rightarrow> string \<Rightarrow> path" where
  "with_extension p ext =
    (let q = trim_path p; name = last_component p in
     if name = [] \<or> name = ascii ''.'' \<or> name = ascii ''..'' then p
     else take (length q - length name + file_stem_length name) q @ ascii ''.'' @ ascii ext)"

section \<open>The direct transfer\<close>

fun send_chunks :: "('h, 'n) noise \<Rightarrow> chunk list \<Rightarrow> ('n, unit) talk" where
  "send_chunks z [] = talk_return ()"
| "send_chunks z (c # cs) = talk_bind (talk_send z (ChunkMsg c)) (\<lambda>_. send_chunks z cs)"

definition not_shared :: message where
  "not_shared = ErrorMsg (ascii ''content ID is not shared on this route'')"

definition send_content :: "('h, 'n) noise \<Rightarrow> manifest \<Rightarrow> chunk list \<Rightarrow> ('n, unit) talk" where
  "send_content z m chunks =
    talk_bind (talk_receive z) (\<lambda>request. case request of
      Request requested \<Rightarrow>
        if requested = m_content_id m then
          talk_bind (talk_send z (ManifestMsg m)) (\<lambda>_.
          talk_bind (send_chunks z chunks) (\<lambda>_.
          talk_send z Complete))
        else talk_bind (talk_send z not_shared) (\<lambda>_.
          talk_bail ''receiver requested a different content ID'')
    | _ \<Rightarrow> talk_bail ''receiver did not begin with a content request'')"

text \<open>The receiving loop, with the chunks so far.\<close>

function receive_chunks ::
  "hash \<Rightarrow> ('h, 'n) noise \<Rightarrow> manifest \<Rightarrow> chunk list \<Rightarrow> 'n session \<Rightarrow> (cli_error + chunk list) \<times> 'n session" where
  "receive_chunks H z m chunks s =
    (case talk_receive z s of
       (Inl e, s) \<Rightarrow> (Inl e, s)
     | (Inr (ChunkMsg c), s') \<Rightarrow>
         (case verify_chunk H m c of
            Inl e \<Rightarrow> (Inl (CliContent e), s')
          | Inr _ \<Rightarrow> receive_chunks H z m (chunks @ [c]) s')
     | (Inr Complete, s) \<Rightarrow> (Inr chunks, s)
     | (Inr (ErrorMsg _), s) \<Rightarrow> talk_bail ''sender aborted transfer'' s
     | (Inr _, s) \<Rightarrow> talk_bail ''unexpected message during chunk transfer'' s)"
  by pat_completeness auto

termination
  by (relation "measure (\<lambda>(_, _, _, _, s). length (tcp_in (ss_transport s)))")
    (auto dest!: talk_receive_shorter [OF sym])

declare receive_chunks.simps [simp del]

definition receive_bytes :: "hash \<Rightarrow> ('h, 'n) noise \<Rightarrow> content_id \<Rightarrow> ('n, u8 list) talk" where
  "receive_bytes H z content_id =
    talk_bind (talk_send z (Request content_id)) (\<lambda>_.
    talk_bind (talk_receive z) (\<lambda>answer. case answer of
      ManifestMsg m \<Rightarrow>
        if m_content_id m \<noteq> content_id then talk_bail ''sender returned a different content ID''
        else if unat (m_chunk_size m) \<noteq> CHUNK_SIZE
        then talk_bail ''manifest uses an unsupported experimental chunk size''
        else talk_bind (receive_chunks H z m []) (\<lambda>chunks.
          talk_result (map_err CliContent (reconstruct H m chunks)))
    | ErrorMsg _ \<Rightarrow> talk_bail ''sender rejected request''
    | _ \<Rightarrow> talk_bail ''sender did not return a manifest''))"

text \<open>\<open>receive_content\<close>: the exchange, then the temporary file and the rename.\<close>

definition receive_content ::
  "hash \<Rightarrow> ('h, 'n) noise \<Rightarrow> content_id \<Rightarrow> path \<Rightarrow> 'n session \<Rightarrow> disk
    \<Rightarrow> (cli_error + unit) \<times> 'n session \<times> disk" where
  "receive_content H z content_id output s d =
    (case receive_bytes H z content_id s of
       (Inl e, s) \<Rightarrow> (Inl e, s, d)
     | (Inr bytes, s) \<Rightarrow>
         let temporary = with_extension output ''triptorrent-part'' in
         (case act_bind (fs_write temporary bytes) (\<lambda>_. fs_rename temporary output) d of
            (r, d) \<Rightarrow> (r, s, d)))"

section \<open>Connecting\<close>

text \<open>
  The network: the bytes that will arrive on a connection to an address, or the error of
  \<open>TcpStream::connect\<close>.
\<close>

type_synonym network = "socket_addr \<Rightarrow> io_error + u8 list"

definition connect_relay :: "network \<Rightarrow> socket_addr \<Rightarrow> str \<Rightarrow> role \<Rightarrow> net_error + tcp" where
  "connect_relay net address route role =
    and_then (map_err NetIo (net address)) (\<lambda>input.
    and_then (register_connection route role) (\<lambda>sent.
    Inr \<lparr>tcp_in = input, tcp_out = sent\<rparr>))"

definition share_file ::
  "hash \<Rightarrow> ('h, 'n) noise \<Rightarrow> network \<Rightarrow> socket_addr \<Rightarrow> str \<Rightarrow> bytes32 \<Rightarrow> path \<Rightarrow> content_id act" where
  "share_file H z net relay route psk p =
    act_bind (load_content H p) (\<lambda>(m, chunks).
    act_bind (act_result (map_err CliNet (connect_relay net relay route Sender))) (\<lambda>transport.
    act_bind (act_result (map_err CliNet (session_initiator z transport psk))) (\<lambda>s.
    act_bind (act_result (fst (send_content z m chunks s))) (\<lambda>_.
    act_return (m_content_id m)))))"

definition fetch_file ::
  "hash \<Rightarrow> ('h, 'n) noise \<Rightarrow> network \<Rightarrow> socket_addr \<Rightarrow> str \<Rightarrow> bytes32 \<Rightarrow> content_id \<Rightarrow> path \<Rightarrow> unit act" where
  "fetch_file H z net relay route psk content_id output =
    act_bind (act_result (map_err CliNet (connect_relay net relay route Receiver))) (\<lambda>transport.
    act_bind (act_result (map_err CliNet (session_responder z transport psk))) (\<lambda>s d.
    case receive_content H z content_id output s d of (r, _, d) \<Rightarrow> (r, d)))"

section \<open>The provider of a swarm\<close>

definition parse_availability_item :: "u32 \<Rightarrow> str \<Rightarrow> cli_error + u32 list" where
  "parse_availability_item chunk_count item =
    (case split_once 45 item of
       Some (from, to) \<Rightarrow>
         and_then (ok_or (parse_u32 from) (CliBail ''invalid availability range start'')) (\<lambda>lo.
         and_then (ok_or (parse_u32 to) (CliBail ''invalid availability range end'')) (\<lambda>hi.
         if hi < lo \<or> chunk_count \<le> hi
         then Inl (CliBail ''availability range is outside the manifest'')
         else Inr (map of_nat [unat lo..<Suc (unat hi)])))
     | None \<Rightarrow>
         and_then (ok_or (parse_u32 item) (CliBail ''invalid availability index'')) (\<lambda>index.
         if chunk_count \<le> index then Inl (CliBail ''availability index is outside the manifest'')
         else Inr [index]))"

definition parse_availability :: "str option \<Rightarrow> nat \<Rightarrow> cli_error + piece_availability" where
  "parse_availability spec chunk_count =
    and_then (ok_or (u32_try_from chunk_count) (CliBail ''too many chunks'')) (\<lambda>count.
    case spec of
      None \<Rightarrow> Inr (availability_all count)
    | Some spec \<Rightarrow>
        if map to_ascii_lowercase spec = ascii ''all'' then Inr (availability_all count)
        else and_then (collect_results (parse_availability_item count)
            (filter (\<lambda>item. item \<noteq> []) (split_on 44 spec))) (\<lambda>items.
          let indices = concat items in
          if indices = [] \<and> 0 < chunk_count
          then Inl (CliBail ''availability must contain at least one chunk'')
          else Inr (from_indices count indices)))"

text \<open>\<open>test_corrupt_chunks\<close>, with the value of its environment variable.\<close>

fun mark_corrupt :: "str list \<Rightarrow> bool list \<Rightarrow> cli_error + bool list" where
  "mark_corrupt [] corrupt = Inr corrupt"
| "mark_corrupt (item # items) corrupt =
    and_then (ok_or (parse_usize item) (CliBail ''invalid test corrupt-chunk index'')) (\<lambda>index.
    if index < length corrupt then mark_corrupt items (corrupt[index := True])
    else Inl (CliBail ''test corrupt-chunk index is outside the manifest''))"

definition test_corrupt_chunks :: "str option \<Rightarrow> nat \<Rightarrow> cli_error + bool list" where
  "test_corrupt_chunks spec chunk_count =
    (let corrupt = replicate chunk_count False in
     case spec of None \<Rightarrow> Inr corrupt
     | Some spec \<Rightarrow> mark_corrupt (filter (\<lambda>item. item \<noteq> []) (split_on 44 spec)) corrupt)"

record provider_content =
  ct_manifest :: manifest
  ct_chunks :: "chunk list"
  ct_availability :: piece_availability
  ct_corrupt :: "bool list"

definition served_chunk :: "provider_content \<Rightarrow> u32 \<Rightarrow> cli_error + chunk" where
  "served_chunk ct index =
    and_then (ok_or (if unat index < length (ct_chunks ct) then Some (ct_chunks ct ! unat index) else None)
      (CliBail ''requested chunk is outside the manifest'')) (\<lambda>c.
    Inr (if unat index < length (ct_corrupt ct) \<and> ct_corrupt ct ! unat index \<and> c_data c \<noteq> []
         then c\<lparr>c_data := (hd (c_data c) XOR 0xff) # tl (c_data c)\<rparr> else c))"

lemma session_send_input: "session_send z m s = Inr s' \<Longrightarrow> tcp_in (ss_transport s') = tcp_in (ss_transport s)"
  by (auto simp: session_send_def send_frame_def result_iffs)

text \<open>The serving loop; \<open>keep\<close> reads the \<open>keep_running\<close> flag, once in each turn.\<close>

function serve_loop ::
  "('h, 'n) noise \<Rightarrow> provider_content \<Rightarrow> (nat \<Rightarrow> bool) \<Rightarrow> nat \<Rightarrow> 'n session
    \<Rightarrow> (cli_error + unit) \<times> 'n session" where
  "serve_loop z ct keep turn s =
    (if \<not> keep turn then talk_bail ''sharing stopped'' s
     else case talk_receive z s of
       (Inl e, s) \<Rightarrow> (Inl e, s)
     | (Inr (ChunkRequest index), s') \<Rightarrow>
         (case (if availability_contains (ct_availability ct) index
                then map_sum (\<lambda>e. e) ChunkMsg (served_chunk ct index)
                else Inr (ChunkUnavailable index)) of
            Inl e \<Rightarrow> (Inl e, s')
          | Inr answer \<Rightarrow>
              (case session_send z answer s' of
                 Inl e \<Rightarrow> (Inl (CliNet e), s')
               | Inr s'' \<Rightarrow> serve_loop z ct keep (turn + 1) s''))
     | (Inr SwarmComplete, s) \<Rightarrow> (Inr (), s)
     | (Inr _, s) \<Rightarrow> talk_bail ''unexpected message during M4 provider session'' s)"
  by pat_completeness auto

termination
  by (relation "measure (\<lambda>(_, _, _, _, s). length (tcp_in (ss_transport s)))")
    (auto dest!: talk_receive_shorter [OF sym] session_send_input)

declare serve_loop.simps [simp del]

definition serve_swarm_session ::
  "('h, 'n) noise \<Rightarrow> provider_content \<Rightarrow> (nat \<Rightarrow> bool) \<Rightarrow> ('n, unit) talk" where
  "serve_swarm_session z ct keep =
    talk_bind (talk_receive z) (\<lambda>request. case request of
      SwarmRequest content_id \<Rightarrow>
        if content_id = m_content_id (ct_manifest ct) then
          talk_bind (talk_send z (SwarmManifest (ct_manifest ct) (ct_availability ct))) (\<lambda>_.
          serve_loop z ct keep 0)
        else talk_bind (talk_send z not_shared) (\<lambda>_.
          talk_bail ''receiver requested a different content ID'')
    | _ \<Rightarrow> talk_bail ''receiver did not begin with an M4 swarm request'')"

text \<open>Polling, on the list of the answers to come; \<open>None\<close> means that it is still waiting.\<close>

fun poll_until_assignment ::
  "(cli_error + route_assignment option) list \<Rightarrow> (cli_error + route_assignment) option" where
  "poll_until_assignment [] = None"
| "poll_until_assignment (Inl e # polls) = Some (Inl e)"
| "poll_until_assignment (Inr (Some a) # polls) = Some (Inr a)"
| "poll_until_assignment (Inr None # polls) = poll_until_assignment polls"

text \<open>
  One round of the sharing loop: the flag, the answers of the bootstrap service with the flag before
  each, and the network at that time.
\<close>

record share_round =
  sh_keep :: bool
  sh_polls :: "(bool \<times> (overlay_error + route_assignment option)) list"
  sh_network :: network
  sh_serving :: "nat \<Rightarrow> bool"

definition poll_results :: "share_round \<Rightarrow> (cli_error + route_assignment option) list" where
  "poll_results r =
    map (\<lambda>(keep, answer). if \<not> keep then Inl (CliBail ''sharing stopped'') else map_err CliOverlay answer)
      (sh_polls r)"

text \<open>
  The loop of \<open>share_file_via_overlay_with_control\<close>, with the relays it reports as failed;
  \<open>None\<close> while it is waiting.
\<close>

fun share_rounds ::
  "('h, 'n) noise \<Rightarrow> bytes32 \<Rightarrow> provider_content \<Rightarrow> share_round list
    \<Rightarrow> ((cli_error + content_id) \<times> str list) option" where
  "share_rounds z private_key ct [] = None"
| "share_rounds z private_key ct (r # rs) =
    (if \<not> sh_keep r then Some (Inl (CliBail ''sharing stopped''), [])
     else case poll_until_assignment (poll_results r) of
       None \<Rightarrow> None
     | Some (Inl e) \<Rightarrow> Some (Inl e, [])
     | Some (Inr a) \<Rightarrow>
         (case parse_socket_addr (rt_relay_address a) of
            None \<Rightarrow> Some (Inl (CliBail ''bootstrap returned an invalid relay address''), [])
          | Some relay \<Rightarrow>
              (case connect_relay (sh_network r) relay (rt_route a) Sender of
                 Inl _ \<Rightarrow> map_option (\<lambda>(x, failed). (x, rt_relay_id a # failed)) (share_rounds z private_key ct rs)
               | Inr transport \<Rightarrow>
                   (case session_provider z transport private_key of
                      Inl e \<Rightarrow> Some (Inl (CliNet e), [])
                    | Inr s \<Rightarrow>
                        (case fst (serve_swarm_session z ct (sh_serving r) s) of
                           Inl e \<Rightarrow> Some (Inl e, [])
                         | Inr _ \<Rightarrow> Some (Inr (m_content_id (ct_manifest ct)), []))))))"

definition share_advertisement :: "hash \<Rightarrow> bytes32 \<Rightarrow> content_id \<Rightarrow> peer_advertisement" where
  "share_advertisement H public_key content_id =
    \<lparr>ad_peer_id = peer_id_from_public_key H public_key, ad_public_key = public_key,
     ad_capabilities = [SwarmTransferV1], ad_content_ids = [content_id]\<rparr>"

text \<open>The key pair is the one \<open>generate_peer_keypair\<close> returned.\<close>

definition share_file_via_overlay ::
  "hash \<Rightarrow> ('h, 'n) noise \<Rightarrow> exchange \<Rightarrow> net_error + bytes32 \<times> bytes32 \<Rightarrow> str option \<Rightarrow> str option \<Rightarrow> path
    \<Rightarrow> share_round list \<Rightarrow> disk \<Rightarrow> ((cli_error + content_id) \<times> str list) option" where
  "share_file_via_overlay H z server keypair availability corrupt p rounds d =
    (case fst (act_bind (load_content H p) (\<lambda>(m, chunks).
         act_bind (act_result (parse_availability availability (length chunks))) (\<lambda>a.
         act_bind (act_result (test_corrupt_chunks corrupt (length chunks))) (\<lambda>c.
         act_bind (act_result (map_err CliNet keypair)) (\<lambda>(private_key, public_key).
         act_bind (act_result (map_err CliOverlay (client_register_peer H server
           (share_advertisement H public_key (m_content_id m))))) (\<lambda>_.
         act_return (private_key,
           \<lparr>ct_manifest = m, ct_chunks = chunks, ct_availability = a, ct_corrupt = c\<rparr>)))))) d) of
       Inl e \<Rightarrow> Some (Inl e, [])
     | Inr (private_key, ct) \<Rightarrow> share_rounds z private_key ct rounds)"

section \<open>The receiver of a swarm\<close>

definition FETCH_MAX_DISCOVERY_ATTEMPTS :: nat where
  "FETCH_MAX_DISCOVERY_ATTEMPTS = 600"

definition MAX_SWARM_PROVIDERS :: u16 where
  "MAX_SWARM_PROVIDERS = 8"

text \<open>\<open>div_ceil\<close> panics on a chunk size of zero, which the test before it excludes.\<close>

definition validate_swarm_manifest :: "manifest \<Rightarrow> piece_availability \<Rightarrow> content_id \<Rightarrow> cli_error + unit" where
  "validate_swarm_manifest m a content_id =
    (if m_content_id m \<noteq> content_id
     then Inl (CliBail ''provider returned a manifest for a different content ID'')
     else if unat (m_chunk_size m) \<noteq> CHUNK_SIZE
     then Inl (CliBail ''manifest uses an unsupported experimental chunk size'')
     else if div_ceil (unat (m_length m)) (unat (m_chunk_size m)) \<noteq> length (m_chunks m)
     then Inl (CliBail ''manifest length and chunk count are inconsistent'')
     else if pa_chunk_count a \<noteq> unwrap_or (u32_try_from (length (m_chunks m))) (- 1)
        \<or> \<not> availability_is_valid a
     then Inl (CliBail ''provider returned malformed piece availability'')
     else Inr ())"

text \<open>The exchange that opens a session with a provider.\<close>

definition request_manifest ::
  "('h, 'n) noise \<Rightarrow> content_id \<Rightarrow> ('n, manifest \<times> piece_availability) talk" where
  "request_manifest z content_id =
    talk_bind (talk_send z (SwarmRequest content_id)) (\<lambda>_.
    talk_bind (talk_receive z) (\<lambda>answer. case answer of
      SwarmManifest m a \<Rightarrow>
        talk_bind (talk_result (validate_swarm_manifest m a content_id)) (\<lambda>_. talk_return (m, a))
    | ErrorMsg _ \<Rightarrow> talk_bail ''provider rejected swarm request''
    | _ \<Rightarrow> talk_bail ''provider did not return an M4 manifest''))"

text \<open>The error with \<open>relay_unreachable\<close>, or the provider with its session.\<close>

definition connect_swarm_provider ::
  "('h, 'n) noise \<Rightarrow> network \<Rightarrow> route_assignment \<Rightarrow> content_id
    \<Rightarrow> (cli_error \<times> bool) + connected_provider \<times> 'n session" where
  "connect_swarm_provider z net assignment content_id =
    and_then (ok_or (parse_socket_addr (rt_relay_address assignment))
      (CliBail ''bootstrap returned an invalid relay address'', False)) (\<lambda>relay.
    and_then (map_err (\<lambda>e. (CliNet e, True)) (connect_relay net relay (rt_route assignment) Receiver)) (\<lambda>transport.
    and_then (map_err (\<lambda>e. (CliNet e, False))
      (session_receiver z transport (rt_provider_public_key assignment))) (\<lambda>s.
    case request_manifest z content_id s of
      (Inl e, _) \<Rightarrow> Inl (e, False)
    | (Inr (m, a), s) \<Rightarrow>
        Inr (\<lparr>cp_peer_id = rt_provider_id assignment, cp_manifest = m, cp_availability = a\<rparr>, s))))"

text \<open>What a provider worker does for one request, and its loop over the commands.\<close>

definition worker_fetch :: "('h, 'n) noise \<Rightarrow> u32 \<Rightarrow> ('n, chunk) talk" where
  "worker_fetch z index =
    talk_bind (talk_send z (ChunkRequest index)) (\<lambda>_.
    talk_bind (talk_receive z) (\<lambda>answer. case answer of
      ChunkMsg c \<Rightarrow> talk_return c
    | ChunkUnavailable unavailable \<Rightarrow>
        if unavailable = index then talk_bail ''provider does not have requested chunk''
        else talk_bail ''unexpected provider response''
    | _ \<Rightarrow> talk_bail ''unexpected provider response''))"

datatype worker_command = Fetch u32 | Finish

text \<open>\<open>listening\<close> tells for each result whether the channel still takes it.\<close>

fun worker_run ::
  "('h, 'n) noise \<Rightarrow> (nat \<Rightarrow> bool) \<Rightarrow> worker_command list \<Rightarrow> 'n session
    \<Rightarrow> (u32 \<times> (cli_error + chunk)) list \<times> 'n session" where
  "worker_run z listening [] s = ([], s)"
| "worker_run z listening (Finish # commands) s =
    ([], snd (talk_send z SwarmComplete s))"
| "worker_run z listening (Fetch index # commands) s =
    (case worker_fetch z index s of (response, s) \<Rightarrow>
       if \<not> listening 0 then ([], s)
       else if \<not> is_ok response then ([(index, response)], s)
       else case worker_run z (\<lambda>i. listening (i + 1)) commands s of
         (results, s) \<Rightarrow> ((index, response) # results, s))"

text \<open>Connecting to every assigned provider: the providers, the relays reported, the last error.\<close>

fun connect_all ::
  "('h, 'n) noise \<Rightarrow> network \<Rightarrow> content_id \<Rightarrow> route_assignment list
    \<Rightarrow> (connected_provider \<times> 'n session) list \<times> str list \<times> cli_error option
    \<Rightarrow> (connected_provider \<times> 'n session) list \<times> str list \<times> cli_error option" where
  "connect_all z net content_id [] acc = acc"
| "connect_all z net content_id (a # as) (providers, reported, last_error) =
    (case connect_swarm_provider z net a content_id of
       Inr p \<Rightarrow> connect_all z net content_id as (providers @ [p], reported, last_error)
     | Inl (e, unreachable) \<Rightarrow>
         connect_all z net content_id as
           (providers, if unreachable then reported @ [rt_relay_id a] else reported, Some e))"

text \<open>One discovery attempt: the monitor, the bootstrap service and the network at that time.\<close>

record attempt =
  at_continue :: bool
  at_server :: exchange
  at_network :: network

text \<open>
  The discovery loop, with the number of attempts left: an error, or the providers to use, with the
  relays reported as failed.
\<close>

fun discover_loop ::
  "hash \<Rightarrow> ('h, 'n) noise \<Rightarrow> content_id \<Rightarrow> (nat \<Rightarrow> attempt) \<Rightarrow> nat \<Rightarrow> nat \<Rightarrow> str list \<times> cli_error option
    \<Rightarrow> (cli_error + (connected_provider \<times> 'n session) list) \<times> str list" where
  "discover_loop H z content_id attempts i 0 (reported, last_error) =
    (Inl (case last_error of
       Some e \<Rightarrow> e | None \<Rightarrow> CliBail ''content was not discoverable before the local timeout''), reported)"
| "discover_loop H z content_id attempts i (Suc left) (reported, last_error) =
    (let now = attempts i in
     if \<not> at_continue now then (Inl (CliBail ''fetch stopped by local control''), reported)
     else case client_discover_providers H (at_server now) content_id MAX_SWARM_PROVIDERS of
       Inl e \<Rightarrow> (Inl (CliOverlay e), reported)
     | Inr assignments \<Rightarrow>
         (case connect_all z (at_network now) content_id assignments ([], reported, last_error) of
            (providers, reported, last_error) \<Rightarrow>
              if providers = [] then discover_loop H z content_id attempts (i + 1) left (reported, last_error)
              else (Inr providers, reported)))"

definition fetch_file_via_overlay ::
  "postcard \<Rightarrow> hash \<Rightarrow> ('h, 'n) noise \<Rightarrow> (nat \<Rightarrow> attempt) \<Rightarrow> content_id \<Rightarrow> path \<Rightarrow> event list \<Rightarrow> disk
    \<Rightarrow> ((cli_error + transfer_stats \<times> progress list) \<times> disk) option" where
  "fetch_file_via_overlay pc H z attempts content_id output events d =
    (case fst (discover_loop H z content_id attempts 0 FETCH_MAX_DISCOVERY_ATTEMPTS ([], None)) of
       Inl e \<Rightarrow> Some (Inl e, d)
     | Inr providers \<Rightarrow> receive_swarm pc H (map fst providers) content_id output events d)"

section \<open>Exchanges between the two ends\<close>

text \<open>A session with paired ends can carry messages in both directions.\<close>

definition noise_duplex :: "('h, 'n) noise \<Rightarrow> ('n \<Rightarrow> 'n \<Rightarrow> bool) \<Rightarrow> bool" where
  "noise_duplex z paired \<longleftrightarrow> noise_sound z paired \<and> (\<forall>a b. paired a b \<longrightarrow> paired b a)"

text \<open>One message: what the sender appends is what the receiver takes off its input.\<close>

lemma exchange_one:
  assumes "noise_duplex z paired" "paired a b" "sendable m"
  obtains f a' b' where "paired a' b'"
    "\<And>t. talk_send z m \<lparr>ss_transport = t, ss_noise = a\<rparr> =
      (Inr (), \<lparr>ss_transport = t\<lparr>tcp_out := tcp_out t @ f\<rparr>, ss_noise = a'\<rparr>)"
    "\<And>i out. talk_receive z \<lparr>ss_transport = \<lparr>tcp_in = f @ i, tcp_out = out\<rparr>, ss_noise = b\<rparr> =
      (Inr m, \<lparr>ss_transport = \<lparr>tcp_in = i, tcp_out = out\<rparr>, ss_noise = b'\<rparr>)"
proof -
  have "noise_sound z paired" "list_all sendable [m]" using assms by (simp_all add: noise_duplex_def)
  from session_exchange [OF this(1) assms(2) this(2)]
  obtain a' b' bss where x: "paired a' b'"
    "\<And>t. session_send_all z [m] \<lparr>ss_transport = t, ss_noise = a\<rparr> =
        Inr \<lparr>ss_transport = t\<lparr>tcp_out := tcp_out t @ concat bss\<rparr>, ss_noise = a'\<rparr>"
    "\<And>t rest. session_receive_n z (length [m])
          \<lparr>ss_transport = t\<lparr>tcp_in := concat bss @ rest\<rparr>, ss_noise = b\<rparr> =
        Inr ([m], \<lparr>ss_transport = t\<lparr>tcp_in := rest\<rparr>, ss_noise = b'\<rparr>)"
    by blast
  show thesis
  proof (rule that [OF x(1), of "concat bss"])
    show "talk_send z m \<lparr>ss_transport = t, ss_noise = a\<rparr> =
        (Inr (), \<lparr>ss_transport = t\<lparr>tcp_out := tcp_out t @ concat bss\<rparr>, ss_noise = a'\<rparr>)" for t
      using x(2) [of t] by (auto simp: talk_send_def result_iffs)
    show "talk_receive z \<lparr>ss_transport = \<lparr>tcp_in = concat bss @ i, tcp_out = out\<rparr>, ss_noise = b\<rparr> =
        (Inr m, \<lparr>ss_transport = \<lparr>tcp_in = i, tcp_out = out\<rparr>, ss_noise = b'\<rparr>)" for i out
      using x(3) [of i "\<lparr>tcp_in = [], tcp_out = out\<rparr>"]
      by (auto simp: talk_receive_def result_iffs)
  qed
qed

lemma exchange_exists:
  assumes "noise_duplex z paired" "paired a b" "sendable m"
  shows "\<exists>f a' b'. paired a' b'
    \<and> (\<forall>t. talk_send z m \<lparr>ss_transport = t, ss_noise = a\<rparr> =
      (Inr (), \<lparr>ss_transport = t\<lparr>tcp_out := tcp_out t @ f\<rparr>, ss_noise = a'\<rparr>))
    \<and> (\<forall>i out. talk_receive z \<lparr>ss_transport = \<lparr>tcp_in = f @ i, tcp_out = out\<rparr>, ss_noise = b\<rparr> =
      (Inr m, \<lparr>ss_transport = \<lparr>tcp_in = i, tcp_out = out\<rparr>, ss_noise = b'\<rparr>))"
  using exchange_one [OF assms] by metis

lemma noise_duplex_sym: "noise_duplex z paired \<Longrightarrow> paired a b \<Longrightarrow> paired b a"
  by (auto simp: noise_duplex_def)

text \<open>The chunks of a transfer and the final message.\<close>

lemma chunks_exchange:
  assumes "noise_duplex z paired" "paired a b" "list_all (\<lambda>c. sendable (ChunkMsg c) \<and> verify_chunk H m c = Inr ()) cs"
  shows "\<exists>w a' b'. paired a' b'
    \<and> (\<forall>t. talk_bind (send_chunks z cs) (\<lambda>_. talk_send z Complete) \<lparr>ss_transport = t, ss_noise = a\<rparr> =
        (Inr (), \<lparr>ss_transport = t\<lparr>tcp_out := tcp_out t @ w\<rparr>, ss_noise = a'\<rparr>))
    \<and> (\<forall>i out acc. receive_chunks H z m acc \<lparr>ss_transport = \<lparr>tcp_in = w @ i, tcp_out = out\<rparr>, ss_noise = b\<rparr> =
        (Inr (acc @ cs), \<lparr>ss_transport = \<lparr>tcp_in = i, tcp_out = out\<rparr>, ss_noise = b'\<rparr>))"
  using assms(2,3)
proof (induction cs arbitrary: a b)
  case Nil
  have "sendable Complete" by (simp add: sendable_def)
  then obtain f a' b' where x: "paired a' b'"
    "\<And>t. talk_send z Complete \<lparr>ss_transport = t, ss_noise = a\<rparr> =
      (Inr (), \<lparr>ss_transport = t\<lparr>tcp_out := tcp_out t @ f\<rparr>, ss_noise = a'\<rparr>)"
    "\<And>i out. talk_receive z \<lparr>ss_transport = \<lparr>tcp_in = f @ i, tcp_out = out\<rparr>, ss_noise = b\<rparr> =
      (Inr Complete, \<lparr>ss_transport = \<lparr>tcp_in = i, tcp_out = out\<rparr>, ss_noise = b'\<rparr>)"
    using exchange_one [OF assms(1) Nil(1)] by metis
  then show ?case
    by (intro exI [of _ f] exI [of _ a'] exI [of _ b'])
      (simp add: talk_bind_def talk_return_def receive_chunks.simps)
next
  case (Cons c cs)
  have "sendable (ChunkMsg c)" using Cons.prems(2) by simp
  then obtain f a1 b1 where x: "paired a1 b1"
    "\<And>t. talk_send z (ChunkMsg c) \<lparr>ss_transport = t, ss_noise = a\<rparr> =
      (Inr (), \<lparr>ss_transport = t\<lparr>tcp_out := tcp_out t @ f\<rparr>, ss_noise = a1\<rparr>)"
    "\<And>i out. talk_receive z \<lparr>ss_transport = \<lparr>tcp_in = f @ i, tcp_out = out\<rparr>, ss_noise = b\<rparr> =
      (Inr (ChunkMsg c), \<lparr>ss_transport = \<lparr>tcp_in = i, tcp_out = out\<rparr>, ss_noise = b1\<rparr>)"
    using exchange_one [OF assms(1) Cons.prems(1)] by metis
  obtain w a' b' where ih: "paired a' b'"
    "\<And>t. talk_bind (send_chunks z cs) (\<lambda>_. talk_send z Complete) \<lparr>ss_transport = t, ss_noise = a1\<rparr> =
        (Inr (), \<lparr>ss_transport = t\<lparr>tcp_out := tcp_out t @ w\<rparr>, ss_noise = a'\<rparr>)"
    "\<And>i out acc. receive_chunks H z m acc \<lparr>ss_transport = \<lparr>tcp_in = w @ i, tcp_out = out\<rparr>, ss_noise = b1\<rparr> =
        (Inr (acc @ cs), \<lparr>ss_transport = \<lparr>tcp_in = i, tcp_out = out\<rparr>, ss_noise = b'\<rparr>)"
    using Cons.IH [OF x(1)] Cons.prems(2) by auto
  have "talk_bind (send_chunks z (c # cs)) (\<lambda>_. talk_send z Complete) \<lparr>ss_transport = t, ss_noise = a\<rparr> =
      (Inr (), \<lparr>ss_transport = t\<lparr>tcp_out := tcp_out t @ (f @ w)\<rparr>, ss_noise = a'\<rparr>)" for t
    using ih(2) [of "t\<lparr>tcp_out := tcp_out t @ f\<rparr>"] by (simp add: talk_bind_def x(2))
  moreover have "receive_chunks H z m acc \<lparr>ss_transport = \<lparr>tcp_in = (f @ w) @ i, tcp_out = out\<rparr>, ss_noise = b\<rparr> =
      (Inr (acc @ c # cs), \<lparr>ss_transport = \<lparr>tcp_in = i, tcp_out = out\<rparr>, ss_noise = b'\<rparr>)" for i out acc
    using Cons.prems(2) ih(3) by (subst receive_chunks.simps) (simp add: x(3))
  ultimately show ?case using ih(1) by blast
qed

lemma small_file_sendable:
  assumes "length bytes \<le> MAX_TESTNET_MANIFEST_CHUNKS * CHUNK_SIZE" "from_bytes H bytes = Inr (m, cs)"
  shows "sendable (ManifestMsg m)" "list_all (\<lambda>c. sendable (ChunkMsg c) \<and> verify_chunk H m c = Inr ()) cs"
    "reconstruct H m cs = Inr bytes" "unat (m_chunk_size m) = CHUNK_SIZE"
proof -
  have b: "length bytes \<le> unat MAX_CONTENT_LENGTH" and m: "m = manifest_of H bytes" and cs: "cs = chunks_of H bytes"
    using assms(2) by (auto simp: from_bytes_eq split: if_splits)
  note v = manifest_of_valid_shape [OF b, of H]
  show "reconstruct H m cs = Inr bytes" using reconstruct_manifest_of [OF b] m cs by simp
  then have r: "length cs = length (m_chunks m)" "\<forall>i < length cs. verify_chunk H m (cs ! i) = Inr ()"
    by (auto simp: reconstruct_Inr_iff verify_chunk_Inr_iff)
  have "length cs \<le> MAX_TESTNET_MANIFEST_CHUNKS"
    using assms(1) cs by (simp add: length_chunks_of div_ceil_le_iff mult.commute)
  then show "sendable (ManifestMsg m)" using v m r(1) by (simp add: sendable_def validate_manifest_def)
  show "unat (m_chunk_size m) = CHUNK_SIZE" using v m by (simp add: validate_shape_Inr_iff)
  have "\<not> CHUNK_SIZE < length (c_data (cs ! i))" if "i < length cs" for i
    using that by (simp add: cs chunks_of_nth chunk_at_def Let_def)
  then show "list_all (\<lambda>c. sendable (ChunkMsg c) \<and> verify_chunk H m c = Inr ()) cs"
    using r(2) by (simp add: list_all_length sendable_def)
qed

text \<open>The requests of a worker and the answers of a provider that serves them.\<close>

definition serves :: "provider_content \<Rightarrow> u32 \<Rightarrow> chunk \<Rightarrow> bool" where
  "serves ct i c \<longleftrightarrow> availability_contains (ct_availability ct) i \<and> served_chunk ct i = Inr c
    \<and> sendable (ChunkMsg c)"

lemma swarm_exchange:
  assumes "noise_duplex z paired" "paired a b" "list_all2 (serves ct) is cs"
  shows "\<exists>w1 w2 a' b'. paired a' b'
    \<and> (\<forall>i out. worker_run z (\<lambda>_. True) (map Fetch is @ [Finish])
          \<lparr>ss_transport = \<lparr>tcp_in = w2 @ i, tcp_out = out\<rparr>, ss_noise = a\<rparr> =
        (zip is (map Inr cs), \<lparr>ss_transport = \<lparr>tcp_in = i, tcp_out = out @ w1\<rparr>, ss_noise = a'\<rparr>))
    \<and> (\<forall>i out turn. serve_loop z ct (\<lambda>_. True) turn
          \<lparr>ss_transport = \<lparr>tcp_in = w1 @ i, tcp_out = out\<rparr>, ss_noise = b\<rparr> =
        (Inr (), \<lparr>ss_transport = \<lparr>tcp_in = i, tcp_out = out @ w2\<rparr>, ss_noise = b'\<rparr>))"
  using assms(3,2)
proof (induction "is" cs arbitrary: a b rule: list_all2_induct)
  case Nil
  have "sendable SwarmComplete" by (simp add: sendable_def)
  then obtain f a' b' where x: "paired a' b'"
    "\<And>t. talk_send z SwarmComplete \<lparr>ss_transport = t, ss_noise = a\<rparr> =
      (Inr (), \<lparr>ss_transport = t\<lparr>tcp_out := tcp_out t @ f\<rparr>, ss_noise = a'\<rparr>)"
    "\<And>i out. talk_receive z \<lparr>ss_transport = \<lparr>tcp_in = f @ i, tcp_out = out\<rparr>, ss_noise = b\<rparr> =
      (Inr SwarmComplete, \<lparr>ss_transport = \<lparr>tcp_in = i, tcp_out = out\<rparr>, ss_noise = b'\<rparr>)"
    using exchange_one [OF assms(1) Nil.prems] by metis
  then show ?case
    by (intro exI [of _ f] exI [of _ "[]"] exI [of _ a'] exI [of _ b']) (simp add: serve_loop.simps)
next
  case (Cons j js c cs)
  have "sendable (ChunkRequest j)" by (simp add: sendable_def)
  then obtain f a1 b1 where x: "paired a1 b1"
    "\<And>t. talk_send z (ChunkRequest j) \<lparr>ss_transport = t, ss_noise = a\<rparr> =
      (Inr (), \<lparr>ss_transport = t\<lparr>tcp_out := tcp_out t @ f\<rparr>, ss_noise = a1\<rparr>)"
    "\<And>i out. talk_receive z \<lparr>ss_transport = \<lparr>tcp_in = f @ i, tcp_out = out\<rparr>, ss_noise = b\<rparr> =
      (Inr (ChunkRequest j), \<lparr>ss_transport = \<lparr>tcp_in = i, tcp_out = out\<rparr>, ss_noise = b1\<rparr>)"
    using exchange_one [OF assms(1) Cons.prems] by metis
  have sc: "sendable (ChunkMsg c)" "availability_contains (ct_availability ct) j" "served_chunk ct j = Inr c"
    using Cons.hyps(1) by (simp_all add: serves_def)
  obtain g b2 a2 where y: "paired b2 a2"
    "\<And>t. talk_send z (ChunkMsg c) \<lparr>ss_transport = t, ss_noise = b1\<rparr> =
      (Inr (), \<lparr>ss_transport = t\<lparr>tcp_out := tcp_out t @ g\<rparr>, ss_noise = b2\<rparr>)"
    "\<And>i out. talk_receive z \<lparr>ss_transport = \<lparr>tcp_in = g @ i, tcp_out = out\<rparr>, ss_noise = a1\<rparr> =
      (Inr (ChunkMsg c), \<lparr>ss_transport = \<lparr>tcp_in = i, tcp_out = out\<rparr>, ss_noise = a2\<rparr>)"
    using exchange_one [OF assms(1) noise_duplex_sym [OF assms(1) x(1)] sc(1)] by metis
  have send: "session_send z (ChunkMsg c) \<lparr>ss_transport = t, ss_noise = b1\<rparr> =
      Inr \<lparr>ss_transport = t\<lparr>tcp_out := tcp_out t @ g\<rparr>, ss_noise = b2\<rparr>" for t
    using y(2) [of t] by (simp add: talk_send_def split: sum.splits)
  obtain w1 w2 a' b' where ih: "paired a' b'"
    "\<And>i out. worker_run z (\<lambda>_. True) (map Fetch js @ [Finish])
          \<lparr>ss_transport = \<lparr>tcp_in = w2 @ i, tcp_out = out\<rparr>, ss_noise = a2\<rparr> =
        (zip js (map Inr cs), \<lparr>ss_transport = \<lparr>tcp_in = i, tcp_out = out @ w1\<rparr>, ss_noise = a'\<rparr>)"
    "\<And>i out turn. serve_loop z ct (\<lambda>_. True) turn
          \<lparr>ss_transport = \<lparr>tcp_in = w1 @ i, tcp_out = out\<rparr>, ss_noise = b2\<rparr> =
        (Inr (), \<lparr>ss_transport = \<lparr>tcp_in = i, tcp_out = out @ w2\<rparr>, ss_noise = b'\<rparr>)"
    using Cons.IH [OF noise_duplex_sym [OF assms(1) y(1)]] by metis
  have "worker_run z (\<lambda>_. True) (map Fetch (j # js) @ [Finish])
      \<lparr>ss_transport = \<lparr>tcp_in = (g @ w2) @ i, tcp_out = out\<rparr>, ss_noise = a\<rparr> =
    (zip (j # js) (map Inr (c # cs)), \<lparr>ss_transport = \<lparr>tcp_in = i, tcp_out = out @ (f @ w1)\<rparr>, ss_noise = a'\<rparr>)" for i out
    using ih(2) [of i "out @ f"]
    by (simp add: worker_fetch_def talk_bind_def x(2) y(3) talk_return_def is_ok_iff)
  moreover have "serve_loop z ct (\<lambda>_. True) turn
      \<lparr>ss_transport = \<lparr>tcp_in = (f @ w1) @ i, tcp_out = out\<rparr>, ss_noise = b\<rparr> =
    (Inr (), \<lparr>ss_transport = \<lparr>tcp_in = i, tcp_out = out @ (g @ w2)\<rparr>, ss_noise = b'\<rparr>)" for i out turn
    using ih(3) [of "Suc turn" i "out @ g"]
    by (subst serve_loop.simps) (simp add: x(3) sc send)
  ultimately show ?case using ih(1) by blast
qed

section \<open>What the receiver accepts\<close>

lemma receive_bytes_verified:
  assumes "receive_bytes H z cid s = (Inr bytes, s')"
  shows "content_id_digest H bytes = cid"
  using assms
  by (auto simp: receive_bytes_def talk_bind_def talk_bail_def talk_result_def result_iffs reconstruct_Inr_iff
      split: prod.splits sum.splits message.splits if_splits)

lemma talk_receive_valid: "talk_receive z s = (Inr m, s') \<Longrightarrow> validate_message m = Inr ()"
  by (auto simp: talk_receive_def session_receive_def result_iffs decode_Inr_iff split: sum.splits)

text \<open>What a connected provider promises, after the checks of the codec and of the receiver.\<close>

definition usable_provider :: "content_id \<Rightarrow> connected_provider \<Rightarrow> bool" where
  "usable_provider cid p \<longleftrightarrow> m_content_id (cp_manifest p) = cid \<and> validate_shape (cp_manifest p) = Inr ()
    \<and> length (m_chunks (cp_manifest p)) \<le> MAX_TESTNET_MANIFEST_CHUNKS
    \<and> availability_is_valid (cp_availability p)
    \<and> u32_try_from (length (m_chunks (cp_manifest p))) = Some (pa_chunk_count (cp_availability p))"

lemma connect_swarm_provider_usable:
  assumes "connect_swarm_provider z net a cid = Inr (p, s)"
  shows "usable_provider cid p"
proof -
  obtain s0 where c: "(case request_manifest z cid s0 of
      (Inl e, _) \<Rightarrow> Inl (e, False)
    | (Inr (m, av), s) \<Rightarrow>
        Inr (\<lparr>cp_peer_id = rt_provider_id a, cp_manifest = m, cp_availability = av\<rparr>, s)) = Inr (p, s)"
    using assms by (auto simp: connect_swarm_provider_def result_iffs simp del: split_paired_Ex)
  have r: "request_manifest z cid s0 = (Inr (cp_manifest p, cp_availability p), s)"
    using c by (cases "request_manifest z cid s0"; cases "fst (request_manifest z cid s0)") auto
  obtain s1 s2 where m: "talk_receive z s1 = (Inr (SwarmManifest (cp_manifest p) (cp_availability p)), s2)"
    "validate_swarm_manifest (cp_manifest p) (cp_availability p) cid = Inr ()"
    using r
    by (auto simp: request_manifest_def talk_bind_def talk_bail_def talk_result_def talk_return_def
        split: prod.splits sum.splits message.splits)
  have "length (m_chunks (cp_manifest p)) \<le> u32_max"
    if "length (m_chunks (cp_manifest p)) \<le> MAX_TESTNET_MANIFEST_CHUNKS"
    using that by (simp add: MAX_TESTNET_MANIFEST_CHUNKS_def u32_max_def)
  then show ?thesis
    using talk_receive_valid [OF m(1)] m(2)
    by (auto simp: usable_provider_def validate_manifest_def validate_swarm_manifest_def result_iffs
        u32_try_from_def not_less split: if_splits)
qed

lemma connect_all_usable:
  "list_all (\<lambda>(p, _). usable_provider cid p) (fst acc) \<Longrightarrow>
    list_all (\<lambda>(p, _). usable_provider cid p) (fst (connect_all z net cid as acc))"
  by (induction z net cid as acc rule: connect_all.induct)
    (auto split: sum.splits simp: connect_swarm_provider_usable)

lemma discover_loop_usable:
  assumes "discover_loop H z cid attempts i k acc = (Inr providers, reported)"
  shows "providers \<noteq> [] \<and> list_all (\<lambda>(p, _). usable_provider cid p) providers"
  using assms
proof (induction H z cid attempts i k acc rule: discover_loop.induct)
  case (2 H z cid attempts i k rep err)
  let ?now = "attempts i"
  obtain as where as: "client_discover_providers H (at_server ?now) cid MAX_SWARM_PROVIDERS = Inr as"
    and go: "at_continue ?now"
    using 2(2) by (auto simp: Let_def split: if_splits sum.splits)
  obtain ps rep' err' where c: "connect_all z (at_network ?now) cid as ([], rep, err) = (ps, rep', err')"
    by (cases "connect_all z (at_network ?now) cid as ([], rep, err)") auto
  show ?case
  proof (cases "ps = []")
    case True
    then show ?thesis using 2(1) [OF refl _ as c [symmetric] refl] 2(2) as go c by (simp add: Let_def)
  next
    case False
    then show ?thesis
      using 2(2) as go c connect_all_usable [of cid "([], rep, err)" z "at_network ?now" as] by (simp add: Let_def)
  qed
qed simp

section \<open>Specifications of availability\<close>

lemma collect_results_bounded:
  assumes "collect_results f xs = Inr ys" "\<And>x y. f x = Inr y \<Longrightarrow> list_all P y"
  shows "list_all P (concat ys)"
proof -
  have "\<exists>x. f x = Inr y" if "y \<in> set ys" for y
    using assms(1) that by (auto simp: collect_results_Inr_iff list_all2_conv_all_nth in_set_conv_nth)
  then show ?thesis using assms(2) by (fastforce simp: list_all_iff)
qed

lemma parse_availability_item_bound:
  "parse_availability_item count item = Inr is \<Longrightarrow> list_all (\<lambda>i. i < count) is"
proof (cases "split_once 45 item")
  case (Some r)
  assume "parse_availability_item count item = Inr is"
  then obtain x y lo hi where "parse_u32 x = Some lo" "parse_u32 y = Some hi" and h: "hi < count"
    "is = map of_nat [unat lo..<Suc (unat hi)]"
    using Some
    by (cases r; cases "parse_u32 (fst r)"; cases "parse_u32 (snd r)")
      (simp_all add: parse_availability_item_def not_le del: upt_Suc split: if_splits)
  have "(of_nat i :: u32) < count" if "i \<le> unat hi" for i
  proof -
    have "i \<le> u32_max" using that unat_lt_u32 [of hi] by linarith
    then show ?thesis using that h(1) by (simp add: word_less_nat_alt unat_of_nat_u32)
  qed
  then show ?thesis using h(2) by (auto simp: list_all_iff simp del: upt_Suc)
qed (auto simp: parse_availability_item_def result_iffs not_le split: if_splits)

section \<open>Properties\<close>




text \<open>
  (C24) Whatever the bootstrap service and the providers answer, the download starts from at least
  one provider, and each has a valid manifest for the requested content, of bounded size, with a
  well-formed bitmap of the same number of chunks; so for providers with the same manifest the
  scheduler can be built.
\<close>

theorem discovered_providers_usable:
  assumes "discover_loop H z cid attempts i k acc = (Inr providers, reported)"
  shows "providers \<noteq> []
    \<and> (\<forall>p \<in> fst ` set providers. m_content_id (cp_manifest p) = cid \<and> validate_shape (cp_manifest p) = Inr ()
        \<and> length (m_chunks (cp_manifest p)) \<le> MAX_TESTNET_MANIFEST_CHUNKS)
    \<and> (\<forall>m completed. (\<forall>p \<in> fst ` set providers. cp_manifest p = m) \<and> length completed = length (m_chunks m) \<longrightarrow>
        is_ok (scheduler_new (length (m_chunks m)) (map (cp_availability \<circ> fst) providers) completed))"
proof (intro conjI)
  note u = discover_loop_usable [OF assms]
  show "providers \<noteq> []" using u by simp
  show "\<forall>p \<in> fst ` set providers. m_content_id (cp_manifest p) = cid \<and> validate_shape (cp_manifest p) = Inr ()
      \<and> length (m_chunks (cp_manifest p)) \<le> MAX_TESTNET_MANIFEST_CHUNKS"
    using u by (auto simp: list_all_iff usable_provider_def)
  show "\<forall>m completed. (\<forall>p \<in> fst ` set providers. cp_manifest p = m) \<and> length completed = length (m_chunks m) \<longrightarrow>
      is_ok (scheduler_new (length (m_chunks m)) (map (cp_availability \<circ> fst) providers) completed)"
  proof (intro allI impI, elim conjE)
    fix m and completed :: "bool list"
    assume m: "\<forall>p \<in> fst ` set providers. cp_manifest p = m" and l: "length completed = length (m_chunks m)"
    obtain n where n: "u32_try_from (length (m_chunks m)) = Some n"
      using u m by (cases providers) (auto simp: usable_provider_def)
    have "\<not> list_ex (\<lambda>a. pa_chunk_count a \<noteq> n \<or> \<not> availability_is_valid a) (map (cp_availability \<circ> fst) providers)"
      using u m n by (auto simp: list_all_iff list_ex_iff usable_provider_def) fastforce+
    then show "is_ok (scheduler_new (length (m_chunks m)) (map (cp_availability \<circ> fst) providers) completed)"
      using l n by (simp add: scheduler_new_def is_ok_iff)
  qed
qed

text \<open>
  An accepted availability specification gives a well-formed bitmap of the right size that
  advertises at least one chunk of a non-empty file; without a specification, or with \<open>all\<close>, it
  advertises every chunk.
\<close>

theorem parse_availability_sound:
  assumes "parse_availability spec n = Inr a"
  shows "availability_is_valid a \<and> unat (pa_chunk_count a) = n \<and> (0 < n \<longrightarrow> (\<exists>i. availability_contains a i))
    \<and> (spec = None \<or> (\<exists>t. spec = Some t \<and> map to_ascii_lowercase t = ascii ''all'') \<longrightarrow>
        (\<forall>i. availability_contains a i \<longleftrightarrow> unat i < n))"
proof -
  obtain c where c: "u32_try_from n = Some c" using assms by (auto simp: parse_availability_def result_iffs)
  then have n: "unat c = n" by (simp add: u32_try_from_Some_iff)
  have all: "availability_is_valid (availability_all c)" "pa_chunk_count (availability_all c) = c"
    "availability_contains (availability_all c) i \<longleftrightarrow> unat i < n" for i
    using availability_all_bits [of c] n by (simp_all add: availability_is_valid_iff availability_contains_iff)
  have some: "\<exists>i. availability_contains (availability_all c) i" if "0 < n" using that by (auto simp: all(3) intro: exI [of _ 0])
  consider "a = availability_all c"
    | t items where "spec = Some t" "map to_ascii_lowercase t \<noteq> ascii ''all''"
      "collect_results (parse_availability_item c) (filter (\<lambda>item. item \<noteq> []) (split_on 44 t)) = Inr items"
      "\<not> (concat items = [] \<and> 0 < n)" "a = from_indices c (concat items)"
    using assms c by (auto simp: parse_availability_def result_iffs Let_def split: option.splits if_splits)
  then show ?thesis
  proof cases
    case 1
    then show ?thesis using all some n by simp
  next
    case (2 t items)
    have b: "list_all (\<lambda>i. i < c) (concat items)"
      by (rule collect_results_bounded [OF 2(3) parse_availability_item_bound])
    have "\<exists>i. availability_contains a i" if "0 < n"
    proof -
      have "concat items \<noteq> []" using 2(4) that by blast
      then obtain i where "i \<in> set (concat items)" by (meson last_in_set)
      then show ?thesis using b by (auto simp: 2(5) from_indices_contains_iff list_all_iff)
    qed
    moreover have "pa_chunk_count a = c" by (simp add: 2(5) from_indices_def)
    ultimately show ?thesis using 2(1,2,5) n by (simp add: from_indices_valid)
  qed
qed

section \<open>Instances\<close>

lemma plain_duplex: "noise_duplex plain_noise (\<lambda>_ _. True)"
  by (simp add: noise_duplex_def noise_sound_def plain_noise_def)

lemma demo_from_bytes: "\<exists>m chunks. from_bytes (\<lambda>_. bytes32_fill 7) [1, 2] = Inr (m, chunks) \<and> length chunks = 1"
  by (simp add: from_bytes_eq MAX_CONTENT_LENGTH_def length_chunks_of div_ceil_def CHUNK_SIZE_def)


lemma receive_bytes_closed:
  assumes "tcp_in (ss_transport s) = []" shows "\<not> is_ok (fst (receive_bytes H z cid s))"
proof -
  have closed: "\<exists>e. talk_receive z s' = (Inl e, s')" if "tcp_in (ss_transport s') = []" for s'
    using that by (simp add: talk_receive_def session_receive_def receive_frame_def read_frame_def)
  show ?thesis
  proof (cases "session_send z (Request cid) s")
    case (Inl e)
    then show ?thesis by (simp add: receive_bytes_def talk_bind_def talk_send_def is_ok_iff)
  next
    case (Inr s')
    then show ?thesis
      using closed [of s'] session_send_input [OF Inr] assms
      by (auto simp: receive_bytes_def talk_bind_def talk_send_def is_ok_iff)
  qed
qed



theorem parse_availability_sound_witness:
  "\<exists>a. parse_availability (Some (ascii ''0,2-3'')) 5 = Inr a \<and> availability_is_valid a
    \<and> (\<exists>i. availability_contains a i)"
proof -
  have "\<exists>a. parse_availability (Some (ascii ''0,2-3'')) 5 = Inr a"
    by (simp add: parse_availability_def ascii_def u32_try_from_def u32_max_def to_ascii_lowercase_def
        parse_availability_item_def split_once_def parse_u32_def parse_decimal_def digits_value_def Let_def upt_rec)
  then obtain a where a: "parse_availability (Some (ascii ''0,2-3'')) 5 = Inr a" by blast
  show ?thesis using parse_availability_sound [OF a] a by simp
qed

text \<open>A bootstrap service with one route, and a provider behind it.\<close>

definition demo_route :: route_assignment where
  "demo_route = \<lparr>rt_provider_id = PeerId (bytes32_fill 7), rt_provider_public_key = bytes32_fill 1,
    rt_relay_id = ascii ''r'', rt_relay_address = ascii ''127.0.0.1:4000'', rt_route = ascii ''r1''\<rparr>"

lemma demo_routes_served:
  "\<exists>server. client_discover_providers demo_hash server (ContentId (bytes32_fill 7)) MAX_SWARM_PROVIDERS = Inr [demo_route]"
proof -
  have u: "utf8 (ascii ''127.0.0.1:4000'')" "utf8 (ascii ''r'')" "utf8 (ascii ''r1'')"
    by (rule utf8_ascii; auto simp: ascii_def)+
  have "response_valid (Routes [demo_route])"
    using u
    by (simp add: response_valid_def validate_assignment_def demo_route_def socket_addr_ok_def parse_socket_addr_v4_example
        valid_identifier_def is_ascii_alphanumeric_def assignment_strings_utf8_def MAX_DISCOVERY_ROUTES_def)
      (simp add: ascii_def)
  then obtain r rs where r: "decode_overlay_response r = Inr (Routes [demo_route])" "write_frame MAX_CONTROL_FRAME r = Inr rs"
    using response_encodes by metis
  have "request_valid demo_hash (DiscoverProviders (ContentId (bytes32_fill 7)) MAX_SWARM_PROVIDERS)"
    by (simp add: request_valid_def MAX_SWARM_PROVIDERS_def MAX_DISCOVERY_ROUTES_def)
  then obtain e bs where e: "encode_overlay_request demo_hash (DiscoverProviders (ContentId (bytes32_fill 7)) MAX_SWARM_PROVIDERS) = Inr e"
    "write_frame MAX_CONTROL_FRAME e = Inr bs"
    using request_encodes by metis
  have "read_frame MAX_CONTROL_FRAME rs = Inr (Some r, [])" using control.read_written [OF r(2), of "[]"] by simp
  then have "client_discover_providers demo_hash (\<lambda>_. Inr rs) (ContentId (bytes32_fill 7)) MAX_SWARM_PROVIDERS = Inr [demo_route]"
    using e r(1) by (simp add: client_discover_providers_def client_request_def)
  then show ?thesis by blast
qed

lemma demo_connects:
  "\<exists>net s. connect_swarm_provider plain_noise net demo_route (ContentId (bytes32_fill 7)) =
    Inr (\<lparr>cp_peer_id = PeerId (bytes32_fill 7), cp_manifest = demo_manifest, cp_availability = from_indices 1 [0]\<rparr>, s)"
proof -
  have v: "validate_swarm_manifest demo_manifest (from_indices 1 [0]) (ContentId (bytes32_fill 7)) = Inr ()"
    by (simp add: validate_swarm_manifest_def demo_manifest_def CHUNK_SIZE_def div_ceil_def u32_try_from_def
        from_indices_valid u32_max_def) (simp add: from_indices_def)
  have m: "sendable (SwarmManifest demo_manifest (from_indices 1 [0]))"
    using demo_shape v
    by (simp add: sendable_def validate_manifest_def validate_swarm_manifest_def split: if_splits)
      (simp add: demo_manifest_def MAX_TESTNET_MANIFEST_CHUNKS_def)
  obtain f b' where f: "\<forall>i out. talk_receive plain_noise \<lparr>ss_transport = \<lparr>tcp_in = f @ i, tcp_out = out\<rparr>, ss_noise = ()\<rparr> =
      (Inr (SwarmManifest demo_manifest (from_indices 1 [0])), \<lparr>ss_transport = \<lparr>tcp_in = i, tcp_out = out\<rparr>, ss_noise = b'\<rparr>)"
    using exchange_exists [OF plain_duplex TrueI m, of "()" "()"] by (elim exE conjE)
  have q: "sendable (SwarmRequest (ContentId (bytes32_fill 7)))" by (simp add: sendable_def)
  obtain g a' where g: "\<forall>t. talk_send plain_noise (SwarmRequest (ContentId (bytes32_fill 7))) \<lparr>ss_transport = t, ss_noise = ()\<rparr> =
      (Inr (), \<lparr>ss_transport = t\<lparr>tcp_out := tcp_out t @ g\<rparr>, ss_noise = a'\<rparr>)"
    using exchange_exists [OF plain_duplex TrueI q, of "()" "()"] by (elim exE conjE)
  obtain hs where h: "write_frame MAX_FRAME_LENGTH [1] = Inr hs"
    using write_session_frame [of "[1]"] by (auto simp: MAX_NOISE_MESSAGE_def)
  let ?r = "registration_bytes (ascii ''r1'') Receiver"
  have reg: "registration_frame (ascii ''r1'') Receiver = Inr ?r"
    by (simp add: registration_frame_eq ascii_def route_byte_def is_ascii_alphanumeric_def)
  have "length ?r \<le> MAX_NOISE_MESSAGE"
    by (simp add: registration_bytes_def REGISTRATION_MAGIC_def NETWORK_ID_length ascii_def MAX_NOISE_MESSAGE_def)
  then obtain sent where "write_frame MAX_FRAME_LENGTH ?r = Inr sent" using write_session_frame by blast
  then have c: "register_connection (ascii ''r1'') Receiver = Inr sent" by (simp add: register_connection_def reg)
  have s: "session_receiver plain_noise \<lparr>tcp_in = hs @ f, tcp_out = sent\<rparr> k =
      Inr \<lparr>ss_transport = \<lparr>tcp_in = f, tcp_out = sent @ hs\<rparr>, ss_noise = ()\<rparr>" for k
    by (simp add: session_receiver_def noise_build_def parse_noise_pattern_def plain_noise_def handshake_responder_def
        receive_frame_def frames.read_written [OF h] send_frame_def h)
  have "connect_swarm_provider plain_noise (\<lambda>_. Inr (hs @ f)) demo_route (ContentId (bytes32_fill 7)) =
    Inr (\<lparr>cp_peer_id = PeerId (bytes32_fill 7), cp_manifest = demo_manifest, cp_availability = from_indices 1 [0]\<rparr>,
      \<lparr>ss_transport = \<lparr>tcp_in = [], tcp_out = (sent @ hs) @ g\<rparr>, ss_noise = b'\<rparr>)"
    using f [rule_format, of "[]" "(sent @ hs) @ g"] v
    by (simp add: connect_swarm_provider_def demo_route_def parse_socket_addr_v4_example connect_relay_def c s
        request_manifest_def talk_bind_def g talk_result_def talk_return_def)
  then show ?thesis by blast
qed

theorem discovered_providers_usable_witness:
  "\<exists>attempts providers reported.
    discover_loop demo_hash plain_noise (ContentId (bytes32_fill 7)) attempts 0 FETCH_MAX_DISCOVERY_ATTEMPTS ([], None) =
      (Inr providers, reported) \<and> providers \<noteq> []"
proof -
  obtain server where s: "client_discover_providers demo_hash server (ContentId (bytes32_fill 7)) MAX_SWARM_PROVIDERS = Inr [demo_route]"
    using demo_routes_served by blast
  obtain net p where c: "connect_swarm_provider plain_noise net demo_route (ContentId (bytes32_fill 7)) = Inr p"
    using demo_connects by blast
  let ?attempts = "\<lambda>_. \<lparr>at_continue = True, at_server = server, at_network = net\<rparr>"
  have k: "FETCH_MAX_DISCOVERY_ATTEMPTS = Suc 599" by (simp add: FETCH_MAX_DISCOVERY_ATTEMPTS_def)
  have d: "discover_loop demo_hash plain_noise (ContentId (bytes32_fill 7)) ?attempts 0 FETCH_MAX_DISCOVERY_ATTEMPTS ([], None) =
      (Inr [p], [])"
    unfolding k discover_loop.simps by (simp add: s c)
  show ?thesis using discovered_providers_usable [OF d] d by blast
qed

end
