(* ===== verification/Bencode.thy ===== *)
theory Bencode
  imports Rust_Str
begin

text \<open>
  The strict bencoding parser of the interoperability crate (\<open>parse_bencode\<close> and \<open>Parser\<close> of
  \<open>triptorrent-interop/src/lib.rs\<close>), with its offsets and limits, and the proof that it accepts
  exactly the canonical encodings within the limits.
\<close>

section \<open>Values and errors\<close>

definition MAX_BENCODE_DEPTH :: nat where
  "MAX_BENCODE_DEPTH = 64"

definition MAX_BENCODE_INPUT :: nat where
  "MAX_BENCODE_INPUT = 4 * 1024 * 1024"

definition MAX_BENCODE_NODES :: nat where
  "MAX_BENCODE_NODES = 100000"

text \<open>\<open>i64\<close> values are integers; \<open>well_formed\<close> below records the range.\<close>

datatype bencode_value =
    Bytes "u8 list"
  | Integer int
  | BList "bencode_node list"
  | Dictionary "(u8 list \<times> bencode_node) list"
and bencode_node = BencodeNode (bn_value: bencode_value) (bn_start: nat) (bn_end: nat)

datatype bencode_error =
    BencodeTruncated
  | BencodeInvalid nat
  | UnsortedDictionary nat
  | BencodeTrailingBytes nat
  | TooDeep
  | BencodeTooLarge
  | TooManyNodes

text \<open>The mutable part of \<open>Parser\<close>; the input is an argument of the methods.\<close>

record bparser =
  bp_position :: nat
  bp_nodes :: nat

section \<open>The parser\<close>

text \<open>
  \<open>self.input[self.position..]\<close> would panic beyond the end of the input; both callers have just
  read a byte at the position or before it.
\<close>

definition find_terminator :: "u8 list \<Rightarrow> bparser \<Rightarrow> u8 \<Rightarrow> bencode_error + nat" where
  "find_terminator input p token =
    ok_or (map_option (\<lambda>relative. bp_position p + relative)
      (position_of (\<lambda>byte. byte = token) (drop (bp_position p) input))) BencodeTruncated"

definition input_slice :: "'a list \<Rightarrow> nat \<Rightarrow> nat \<Rightarrow> 'a list" where
  "input_slice input from to = take (to - from) (drop from input)"

definition parse_integer :: "u8 list \<Rightarrow> bparser \<Rightarrow> bencode_error + bencode_value \<times> bparser" where
  "parse_integer input p0 =
    (let p = p0\<lparr>bp_position := bp_position p0 + 1\<rparr>; start = bp_position p in
     and_then (find_terminator input p 101) (\<lambda>to.
     let encoded = input_slice input start to in
     if encoded = []
        \<or> encoded = [45, 48]
        \<or> (encoded ! 0 = 48 \<and> 1 < length encoded)
        \<or> (take 2 encoded = [45, 48] \<and> 2 < length encoded)
        \<or> (encoded ! 0 = 45 \<and> length encoded = 1)
        \<or> \<not> list_all (\<lambda>(index, byte). is_ascii_digit byte \<or> (index = 0 \<and> byte = 45))
              (enumerate_list encoded)
     then Inl (BencodeInvalid start)
     else
       and_then (ensure (utf8 encoded) (BencodeInvalid start)) (\<lambda>_.
       and_then (ok_or (parse_i64 encoded) (BencodeInvalid start)) (\<lambda>value.
       Inr (Integer value, p\<lparr>bp_position := to + 1\<rparr>)))))"

definition parse_bytes :: "u8 list \<Rightarrow> bparser \<Rightarrow> bencode_error + u8 list \<times> bparser" where
  "parse_bytes input p =
    (let length_start = bp_position p in
     and_then (find_terminator input p 58) (\<lambda>colon.
     let encoded = input_slice input length_start colon in
     if encoded = []
        \<or> (encoded ! 0 = 48 \<and> 1 < length encoded)
        \<or> \<not> list_all is_ascii_digit encoded
     then Inl (BencodeInvalid length_start)
     else
       and_then (ensure (utf8 encoded) (BencodeInvalid length_start)) (\<lambda>_.
       and_then (ok_or (parse_usize encoded) (BencodeInvalid length_start)) (\<lambda>len.
       let value_start = colon + 1 in
       and_then (ok_or (case checked_add_usize value_start len of
             None \<Rightarrow> None
           | Some to \<Rightarrow> if to \<le> length input then Some to else None) BencodeTruncated) (\<lambda>value_end.
       Inr (input_slice input value_start value_end, p\<lparr>bp_position := value_end\<rparr>))))))"

definition saturating_add_usize :: "nat \<Rightarrow> nat \<Rightarrow> nat" where
  "saturating_add_usize a b = min (a + b) usize_max"

definition byte_at :: "u8 list \<Rightarrow> bparser \<Rightarrow> u8 option" where
  "byte_at input p = (if bp_position p < length input then Some (input ! bp_position p) else None)"

text \<open>What the termination proof below needs of the two scanners: they move forward.\<close>

lemma find_terminator_Inr_iff:
  "find_terminator input p token = Inr to \<longleftrightarrow>
    bp_position p \<le> to \<and> to < length input \<and> input ! to = token
    \<and> (\<forall>j. bp_position p \<le> j \<and> j < to \<longrightarrow> input ! j \<noteq> token)" (is "?l \<longleftrightarrow> ?r")
proof -
  have "?l \<longleftrightarrow> (\<exists>r. position_of (\<lambda>b. b = token) (drop (bp_position p) input) = Some r
      \<and> to = bp_position p + r)"
    by (auto simp: find_terminator_def ok_or_Inr_iff)
  also have "\<dots> \<longleftrightarrow> ?r"
  proof
    assume ?r
    then show "\<exists>r. position_of (\<lambda>b. b = token) (drop (bp_position p) input) = Some r
      \<and> to = bp_position p + r"
      by (intro exI [of _ "to - bp_position p"]) (auto simp: position_of_Some_iff)
  next
    assume "\<exists>r. position_of (\<lambda>b. b = token) (drop (bp_position p) input) = Some r
      \<and> to = bp_position p + r"
    then obtain r where r: "r < length input - bp_position p"
        "drop (bp_position p) input ! r = token"
        "\<And>j. j < r \<Longrightarrow> drop (bp_position p) input ! j \<noteq> token" "to = bp_position p + r"
      unfolding position_of_Some_iff length_drop by blast
    then have "input ! j \<noteq> token" if "bp_position p \<le> j" "j < to" for j
      using r(3) [of "j - bp_position p"] that by simp
    then show ?r using r by auto
  qed
  finally show ?thesis .
qed

lemma parse_integer_forward:
  "parse_integer input p = Inr (v, q) \<Longrightarrow>
    bp_position p < bp_position q \<and> bp_position q \<le> length input \<and> bp_nodes q = bp_nodes p"
  by (auto simp: parse_integer_def Let_def result_iffs find_terminator_Inr_iff split: if_splits)

lemma parse_bytes_forward:
  "parse_bytes input p = Inr (v, q) \<Longrightarrow>
    bp_position p < bp_position q \<and> bp_position q \<le> length input \<and> bp_nodes q = bp_nodes p"
  by (auto simp: parse_bytes_def Let_def result_iffs find_terminator_Inr_iff checked_add_usize_def
      split: if_splits option.splits)

function (sequential)
  parse_node :: "u8 list \<Rightarrow> nat \<Rightarrow> bparser \<Rightarrow> bencode_error + bencode_node \<times> bparser"
and parse_list :: "u8 list \<Rightarrow> nat \<Rightarrow> bparser \<Rightarrow> bencode_error + bencode_value \<times> bparser"
and list_loop :: "u8 list \<Rightarrow> nat \<Rightarrow> bparser \<Rightarrow> bencode_error + bencode_node list \<times> bparser"
and parse_dictionary :: "u8 list \<Rightarrow> nat \<Rightarrow> bparser \<Rightarrow> bencode_error + bencode_value \<times> bparser"
and dictionary_loop ::
  "u8 list \<Rightarrow> nat \<Rightarrow> u8 list option \<Rightarrow> bparser \<Rightarrow> bencode_error + (u8 list \<times> bencode_node) list \<times> bparser"
where
  "parse_node input depth p0 =
    (if MAX_BENCODE_DEPTH < depth then Inl TooDeep
     else
       let p = p0\<lparr>bp_nodes := saturating_add_usize (bp_nodes p0) 1\<rparr> in
       if MAX_BENCODE_NODES < bp_nodes p then Inl TooManyNodes
       else
         (case byte_at input p of
            None \<Rightarrow> Inl BencodeTruncated
          | Some token \<Rightarrow>
              and_then
                (if token = 105 then parse_integer input p
                 else if token = 108 then parse_list input depth p
                 else if token = 100 then parse_dictionary input depth p
                 else if is_ascii_digit token
                 then and_then (parse_bytes input p) (\<lambda>(bytes, q). Inr (Bytes bytes, q))
                 else Inl (BencodeInvalid (bp_position p)))
                (\<lambda>(value, q). Inr (BencodeNode value (bp_position p) (bp_position q), q))))"
| "parse_list input depth p =
    and_then (list_loop input depth (p\<lparr>bp_position := bp_position p + 1\<rparr>)) (\<lambda>(values, q).
    Inr (BList values, q\<lparr>bp_position := bp_position q + 1\<rparr>))"
| "list_loop input depth p =
    (if byte_at input p = Some 101 then Inr ([], p)
     else
       and_then (parse_node input (depth + 1) p) (\<lambda>(value, q).
       and_then (list_loop input depth q) (\<lambda>(values, r).
       Inr (value # values, r))))"
| "parse_dictionary input depth p =
    and_then (dictionary_loop input depth None (p\<lparr>bp_position := bp_position p + 1\<rparr>)) (\<lambda>(entries, q).
    Inr (Dictionary entries, q\<lparr>bp_position := bp_position q + 1\<rparr>))"
| "dictionary_loop input depth previous p =
    (if byte_at input p = Some 101 then Inr ([], p)
     else if \<not> (case byte_at input p of None \<Rightarrow> False | Some b \<Rightarrow> is_ascii_digit b)
     then Inl (BencodeInvalid (bp_position p))
     else
       and_then (parse_bytes input p) (\<lambda>(key, q).
       if (case previous of None \<Rightarrow> False | Some candidate \<Rightarrow> key \<le> candidate)
       then Inl (UnsortedDictionary (bp_position p))
       else
         and_then (parse_node input (depth + 1) q) (\<lambda>(value, r).
         and_then (dictionary_loop input depth (Some key) r) (\<lambda>(entries, s).
         Inr ((key, value) # entries, s)))))"
  by pat_completeness auto
termination
proof -
  have forward: "bp_position p < bp_position q \<and> bp_position p < length input"
    if "parse_node_parse_list_list_loop_parse_dictionary_dictionary_loop_dom (Inl (Inl (input, depth, p)))"
      "parse_node input depth p = Inr (v, q)" for input depth p v q
  proof -
    have "parse_node_parse_list_list_loop_parse_dictionary_dictionary_loop_dom (Inl (Inl (input, depth, p))) \<Longrightarrow>
        (\<forall>v q. parse_node input depth p = Inr (v, q) \<longrightarrow>
          bp_position p < bp_position q \<and> bp_position p < length input)"
      and "parse_node_parse_list_list_loop_parse_dictionary_dictionary_loop_dom (Inl (Inr (input, depth, p))) \<Longrightarrow>
        (\<forall>w q. parse_list input depth p = Inr (w, q) \<longrightarrow> bp_position p < bp_position q)"
      and "parse_node_parse_list_list_loop_parse_dictionary_dictionary_loop_dom (Inr (Inl (input, depth, p))) \<Longrightarrow>
        (\<forall>w q. list_loop input depth p = Inr (w, q) \<longrightarrow> bp_position p \<le> bp_position q)"
      and "parse_node_parse_list_list_loop_parse_dictionary_dictionary_loop_dom (Inr (Inr (Inl (input, depth, p)))) \<Longrightarrow>
        (\<forall>w q. parse_dictionary input depth p = Inr (w, q) \<longrightarrow> bp_position p < bp_position q)"
      and "parse_node_parse_list_list_loop_parse_dictionary_dictionary_loop_dom (Inr (Inr (Inr (input, depth, previous, p)))) \<Longrightarrow>
        (\<forall>w q. dictionary_loop input depth previous p = Inr (w, q) \<longrightarrow> bp_position p \<le> bp_position q)"
      for previous
    proof (induction input depth p and input depth p and input depth p and input depth p
        and input depth previous p rule: parse_node_parse_list_list_loop_parse_dictionary_dictionary_loop.pinduct)
      case (1 input depth p)
      then show ?case
        by (auto simp: parse_node.psimps result_iffs byte_at_def Let_def
            dest: parse_integer_forward parse_bytes_forward split: if_splits)
    next
      case (2 input depth p)
      then show ?case by (fastforce simp: parse_list.psimps result_iffs)
    next
      case (3 input depth p)
      then show ?case by (fastforce simp: list_loop.psimps result_iffs split: if_splits)
    next
      case (4 input depth p)
      then show ?case by (fastforce simp: parse_dictionary.psimps result_iffs)
    next
      case (5 input depth previous p)
      then show ?case
        by (fastforce simp: dictionary_loop.psimps result_iffs
            dest: parse_bytes_forward split: if_splits)
    qed
    then show ?thesis using that by blast
  qed
  show ?thesis
    apply (relation "measures [
      \<lambda>x. case x of
         Inl (Inl (input, depth, p)) \<Rightarrow> length input - bp_position p
       | Inl (Inr (input, depth, p)) \<Rightarrow> length input - (bp_position p + 1)
       | Inr (Inl (input, depth, p)) \<Rightarrow> length input - bp_position p
       | Inr (Inr (Inl (input, depth, p))) \<Rightarrow> length input - (bp_position p + 1)
       | Inr (Inr (Inr (input, depth, previous, p))) \<Rightarrow> length input - bp_position p,
      \<lambda>x. case x of
         Inl (Inl _) \<Rightarrow> 1
       | Inl (Inr _) \<Rightarrow> 3
       | Inr (Inl _) \<Rightarrow> 2
       | Inr (Inr (Inl _)) \<Rightarrow> 3
       | Inr (Inr (Inr _)) \<Rightarrow> 2]")
    apply (simp_all add: byte_at_def split: if_splits)
    subgoal by (auto dest!: forward)
    subgoal by (auto dest!: forward)
    subgoal by (auto dest!: parse_bytes_forward)
    subgoal by (auto dest!: forward parse_bytes_forward)
    done
qed

declare parse_node.simps [simp del] parse_list.simps [simp del] list_loop.simps [simp del]
  parse_dictionary.simps [simp del] dictionary_loop.simps [simp del]

definition parse_bencode :: "u8 list \<Rightarrow> bencode_error + bencode_node" where
  "parse_bencode input =
    (if MAX_BENCODE_INPUT < length input then Inl BencodeTooLarge
     else
       and_then (parse_node input 0 \<lparr>bp_position = 0, bp_nodes = 0\<rparr>) (\<lambda>(value, p).
       if bp_position p \<noteq> length input then Inl (BencodeTrailingBytes (bp_position p))
       else Inr value))"

section \<open>The canonical encoding\<close>

text \<open>
  BEP 3: a byte string is its length in decimal, a colon and the bytes; an integer is its decimal
  form between \<open>i\<close> and \<open>e\<close>; lists and dictionaries are the encodings of their members.
\<close>

definition encode_bytes :: "u8 list \<Rightarrow> u8 list" where
  "encode_bytes bs = decimal (length bs) @ 58 # bs"

fun encode_value :: "bencode_value \<Rightarrow> u8 list"
and encode_node :: "bencode_node \<Rightarrow> u8 list"
where
  "encode_value (Bytes bs) = encode_bytes bs"
| "encode_value (Integer v) = 105 # decimal_int v @ [101]"
| "encode_value (BList ns) = 108 # concat (map encode_node ns) @ [101]"
| "encode_value (Dictionary es) = 100 # concat (map (\<lambda>(k, n). encode_bytes k @ encode_node n) es) @ [101]"
| "encode_node (BencodeNode v from to) = encode_value v"

text \<open>Integers are in the range of \<open>i64\<close> and keys strictly increase.\<close>

fun well_formed_value :: "bencode_value \<Rightarrow> bool"
and well_formed :: "bencode_node \<Rightarrow> bool"
where
  "well_formed_value (Bytes bs) \<longleftrightarrow> True"
| "well_formed_value (Integer v) \<longleftrightarrow> i64_range v"
| "well_formed_value (BList ns) \<longleftrightarrow> list_all well_formed ns"
| "well_formed_value (Dictionary es) \<longleftrightarrow>
    sorted_wrt (<) (map fst es) \<and> list_all (\<lambda>(k, n). well_formed n) es"
| "well_formed (BencodeNode v from to) \<longleftrightarrow> well_formed_value v"

text \<open>The number of values and the nesting below a value.\<close>

fun value_nodes :: "bencode_value \<Rightarrow> nat"
and node_count :: "bencode_node \<Rightarrow> nat"
where
  "value_nodes (Bytes bs) = 0"
| "value_nodes (Integer v) = 0"
| "value_nodes (BList ns) = sum_list (map node_count ns)"
| "value_nodes (Dictionary es) = sum_list (map (\<lambda>(k, n). node_count n) es)"
| "node_count (BencodeNode v from to) = 1 + value_nodes v"

fun shallow_value :: "nat \<Rightarrow> bencode_value \<Rightarrow> bool"
and shallow :: "nat \<Rightarrow> bencode_node \<Rightarrow> bool"
where
  "shallow_value d (Bytes bs) \<longleftrightarrow> True"
| "shallow_value d (Integer v) \<longleftrightarrow> True"
| "shallow_value d (BList ns) \<longleftrightarrow> list_all (shallow (d + 1)) ns"
| "shallow_value d (Dictionary es) \<longleftrightarrow> list_all (\<lambda>(k, n). shallow (d + 1) n) es"
| "shallow d (BencodeNode v from to) \<longleftrightarrow> d \<le> MAX_BENCODE_DEPTH \<and> shallow_value d v"

text \<open>The offsets of a node are those of its encoding when that starts at \<open>p\<close>.\<close>

fun located_value :: "nat \<Rightarrow> bencode_value \<Rightarrow> bool"
and located :: "nat \<Rightarrow> bencode_node \<Rightarrow> bool"
and located_list :: "nat \<Rightarrow> bencode_node list \<Rightarrow> bool"
and located_entries :: "nat \<Rightarrow> (u8 list \<times> bencode_node) list \<Rightarrow> bool"
where
  "located_value p (Bytes bs) \<longleftrightarrow> True"
| "located_value p (Integer v) \<longleftrightarrow> True"
| "located_value p (BList ns) \<longleftrightarrow> located_list (p + 1) ns"
| "located_value p (Dictionary es) \<longleftrightarrow> located_entries (p + 1) es"
| "located p (BencodeNode v from to) \<longleftrightarrow>
    from = p \<and> to = p + length (encode_value v) \<and> located_value p v"
| "located_list p [] \<longleftrightarrow> True"
| "located_list p (n # ns) \<longleftrightarrow> located p n \<and> located_list (p + length (encode_node n)) ns"
| "located_entries p [] \<longleftrightarrow> True"
| "located_entries p ((k, n) # es) \<longleftrightarrow>
    located (p + length (encode_bytes k)) n
    \<and> located_entries (p + length (encode_bytes k) + length (encode_node n)) es"

section \<open>What the scanners accept\<close>

lemma input_slice_append:
  assumes "from \<le> mid" "mid \<le> to" "to \<le> length input"
  shows "input_slice input from mid @ input_slice input mid to = input_slice input from to"
proof -
  have "take (to - from) (drop from input)
      = take (mid - from) (drop from input) @ take (to - mid) (drop (mid - from) (drop from input))"
    using assms take_add [of "mid - from" "to - mid" "drop from input"] by simp
  then show ?thesis using assms by (simp add: input_slice_def)
qed

lemma input_slice_step:
  "from < to \<Longrightarrow> to \<le> length input \<Longrightarrow>
   input_slice input from to = input ! from # input_slice input (Suc from) to"
  by (simp add: input_slice_def Cons_nth_drop_Suc [symmetric] Suc_diff_Suc [symmetric])

lemma length_input_slice [simp]: "to \<le> length input \<Longrightarrow> length (input_slice input from to) = to - from"
  by (simp add: input_slice_def)

lemma input_slice_full [simp]: "input_slice input 0 (length input) = input"
  by (simp add: input_slice_def)

lemma input_slice_mid [simp]:
  "length pre = from \<Longrightarrow> to = from + length mid \<Longrightarrow> input_slice (pre @ mid @ suf) from to = mid"
  by (auto simp: input_slice_def)

lemma input_slice_empty [simp]: "input_slice input from from = []"
  by (simp add: input_slice_def)

lemma digits_utf8: "list_all is_ascii_digit t \<Longrightarrow> utf8 t"
  by (rule utf8_ascii) (auto simp: list_all_iff is_ascii_digit_unat word_less_nat_alt)

lemma canonical_digits_check:
  "(t = [] \<or> (t ! 0 = 48 \<and> 1 < length t) \<or> \<not> list_all is_ascii_digit t) \<longleftrightarrow> \<not> canonical_digits t"
  by (cases t) (auto simp: canonical_digits_def)

lemma parse_bytes_sound:
  assumes "parse_bytes input p = Inr (bs, q)"
  shows "input_slice input (bp_position p) (bp_position q) = encode_bytes bs"
    and "bp_position q = bp_position p + length (encode_bytes bs)"
    and "bp_position q \<le> length input" and "bp_nodes q = bp_nodes p"
proof -
  let ?p = "bp_position p"
  obtain colon len where c: "?p \<le> colon" "colon < length input" "input ! colon = 58"
    and e: "canonical_digits (input_slice input ?p colon)"
    and len: "parse_usize (input_slice input ?p colon) = Some len" "colon + 1 + len \<le> length input"
    and q: "q = p\<lparr>bp_position := colon + 1 + len\<rparr>"
    and bs: "bs = input_slice input (colon + 1) (colon + 1 + len)"
    using assms unfolding parse_bytes_def Let_def canonical_digits_check
    by (auto simp: result_iffs find_terminator_Inr_iff checked_add_usize_def
        split: if_splits option.splits)
  have d: "list_all is_ascii_digit (input_slice input ?p colon)" "input_slice input ?p colon \<noteq> []"
    using e by (auto simp: canonical_digits_def)
  have lb: "length bs = len" using len bs by simp
  have "digits_value (input_slice input ?p colon) = len"
    using len(1) parse_decimal_digits [OF d] by (auto simp: parse_usize_def split: if_splits)
  then have dec: "input_slice input ?p colon = decimal (length bs)"
    using decimal_digits_value [OF e] lb by simp
  have "input_slice input ?p (colon + 1 + len)
      = input_slice input ?p colon @ input_slice input colon (colon + 1 + len)"
    using c len by (intro input_slice_append [symmetric]) auto
  also have "\<dots> = encode_bytes bs"
    using c len(2) bs by (simp add: dec encode_bytes_def input_slice_step)
  finally show "input_slice input ?p (bp_position q) = encode_bytes bs" using q by simp
  then have "length (encode_bytes bs) = colon + 1 + len - ?p"
    using len(2) q by (metis bparser.select_convs(1) bparser.update_convs(1) bparser.surjective
        length_input_slice)
  then show "bp_position q = ?p + length (encode_bytes bs)" using c q by simp
  show "bp_position q \<le> length input" "bp_nodes q = bp_nodes p" using q len by auto
qed

lemma parse_bytes_complete:
  assumes "length (pre @ encode_bytes bs @ suf) \<le> usize_max" "bp_position p = length pre"
  shows "parse_bytes (pre @ encode_bytes bs @ suf) p
    = Inr (bs, p\<lparr>bp_position := length pre + length (encode_bytes bs)\<rparr>)"
proof -
  let ?n = "decimal (length bs)" and ?input = "pre @ encode_bytes bs @ suf"
  have in1: "?input = pre @ ?n @ 58 # bs @ suf" and in2: "?input = (pre @ ?n @ [58]) @ bs @ suf"
    by (simp_all add: encode_bytes_def)
  have "x \<noteq> 58" if "x \<in> set ?n" for x
    using decimal_digits [of "length bs"] that by (auto simp: list_all_iff is_ascii_digit_def)
  then have "position_of (\<lambda>b. b = 58) (?n @ 58 # bs @ suf) = Some (length ?n)"
    by (rule position_of_append) simp_all
  then have f: "find_terminator ?input p 58 = Inr (length pre + length ?n)"
    using assms(2) by (simp add: find_terminator_def in1)
  have n: "input_slice ?input (length pre) (length pre + length ?n) = ?n"
    by (simp add: in1 input_slice_def)
  have b: "input_slice ?input (length pre + length ?n + 1) (length pre + length ?n + 1 + length bs) = bs"
    unfolding in2 by (rule input_slice_mid) simp_all
  have len: "length pre + length ?n + 1 + length bs \<le> length ?input"
    by (simp add: encode_bytes_def)
  then have add: "checked_add_usize (length pre + length ?n + 1) (length bs)
      = Some (length pre + length ?n + 1 + length bs)" "length bs \<le> usize_max"
    using assms(1) by (simp_all add: checked_add_usize_def del: length_append)
  have enc: "length (encode_bytes bs) = length ?n + 1 + length bs" by (simp add: encode_bytes_def)
  show ?thesis
    unfolding parse_bytes_def Let_def canonical_digits_check f and_then.simps assms(2) n
    using len b add
    by (simp add: canonical_decimal decimal_digits digits_utf8 enc add.assoc del: length_append)
qed

text \<open>The decimal forms of an integer that the conditions of \<open>parse_integer\<close> leave.\<close>

definition canonical_int :: "str \<Rightarrow> bool" where
  "canonical_int t \<longleftrightarrow>
    canonical_digits t \<or> (t \<noteq> [] \<and> hd t = 45 \<and> canonical_digits (tl t) \<and> hd (tl t) \<noteq> 48)"

lemma list_all_enumerate:
  "list_all (\<lambda>(i, b). is_ascii_digit b \<or> (i = 0 \<and> b = 45)) (enumerate_list t) \<longleftrightarrow>
    t = [] \<or> ((is_ascii_digit (hd t) \<or> hd t = 45) \<and> list_all is_ascii_digit (tl t))"
proof (cases t)
  case (Cons b bs)
  have "list_all (\<lambda>(i, b). is_ascii_digit b \<or> (i = 0 \<and> b = 45)) (enumerate_list t) \<longleftrightarrow>
      (\<forall>i < Suc (length bs). is_ascii_digit (t ! i) \<or> (i = 0 \<and> t ! i = 45))"
    by (simp add: list_all_length Cons)
  also have "\<dots> \<longleftrightarrow> (is_ascii_digit b \<or> b = 45) \<and> (\<forall>i < length bs. is_ascii_digit (bs ! i))"
    unfolding All_less_Suc2 by (simp add: Cons)
  finally show ?thesis by (simp add: Cons list_all_length)
qed simp

lemma canonical_int_check:
  "(t = [] \<or> t = [45, 48] \<or> (t ! 0 = 48 \<and> 1 < length t) \<or> (take 2 t = [45, 48] \<and> 2 < length t)
    \<or> (t ! 0 = 45 \<and> length t = 1)
    \<or> \<not> list_all (\<lambda>(i, b). is_ascii_digit b \<or> (i = 0 \<and> b = 45)) (enumerate_list t))
   \<longleftrightarrow> \<not> canonical_int t"
proof -
  have m: "\<not> is_ascii_digit 45" "(45 :: u8) \<noteq> 48" by (simp_all add: is_ascii_digit_def)
  show ?thesis
  proof (cases t)
    case (Cons a t')
    then show ?thesis
      unfolding list_all_enumerate
      by (cases t') (auto simp: canonical_int_def canonical_digits_def m)
  qed (simp add: canonical_int_def canonical_digits_def)
qed

lemma parse_i64_canonical:
  assumes "canonical_int t"
  shows "parse_i64 t = Some v \<longleftrightarrow> i64_range v \<and> t = decimal_int v"
proof -
  have m: "\<not> is_ascii_digit 45" "\<not> is_ascii_digit 43" "(45 :: u8) \<noteq> 48"
    by (simp_all add: is_ascii_digit_def)
  have hd_dec: "is_ascii_digit (hd (decimal n))" for n
    using decimal_digits [of n] by (cases "decimal n") (auto dest: arg_cong [of _ "[]" length])
  consider (pos) "canonical_digits t" | (neg) ds where "t = 45 # ds" "canonical_digits ds" "hd ds \<noteq> 48"
    using assms by (cases t) (auto simp: canonical_int_def)
  then show ?thesis
  proof cases
    case pos
    then have "is_ascii_digit (hd t)" "t \<noteq> []" "list_all is_ascii_digit t"
      by (auto simp: canonical_digits_def list_all_iff)
    then have p: "parse_i64 t = (if i64_range (int (digits_value t)) then Some (int (digits_value t)) else None)"
      using m by (auto simp: parse_i64_def Let_def)
    have "t = decimal_int v \<longleftrightarrow> v = int (digits_value t)"
      using decimal_digits_value [OF pos] \<open>is_ascii_digit (hd t)\<close> m
      by (auto simp: decimal_int_def split: if_splits)
    then show ?thesis using p by auto
  next
    case neg
    then have d: "ds \<noteq> []" "list_all is_ascii_digit ds" by (auto simp: canonical_digits_def)
    then have p: "parse_i64 t = (if i64_range (- int (digits_value ds)) then Some (- int (digits_value ds)) else None)"
      using neg(1) m by (auto simp: parse_i64_def Let_def)
    have minus: "45 # ds \<noteq> decimal n" for n using hd_dec [of n] m(1) by (metis list.sel(1))
    have "0 < digits_value ds" using digits_value_pos d neg(3) by blast
    then have "t = decimal_int v \<longleftrightarrow> v = - int (digits_value ds)"
      using decimal_digits_value [OF neg(2)] neg(1) minus
      by (auto simp: decimal_int_def split: if_splits)
    then show ?thesis using p by auto
  qed
qed

lemma canonical_int_decimal: "canonical_int (decimal_int v)"
  using canonical_decimal hd_decimal by (simp add: canonical_int_def decimal_int_def)

lemma decimal_int_no_e: "b \<in> set (decimal_int v) \<Longrightarrow> b \<noteq> 101"
  using decimal_digits [of "nat v"] decimal_digits [of "nat (- v)"]
  by (auto simp: decimal_int_def list_all_iff is_ascii_digit_def split: if_splits)

lemma parse_integer_sound:
  assumes "parse_integer input p = Inr (v, q)" "input ! bp_position p = 105"
  shows "input_slice input (bp_position p) (bp_position q) = encode_value v"
    and "bp_position q = bp_position p + length (encode_value v)"
    and "bp_position q \<le> length input" and "bp_nodes q = bp_nodes p" and "well_formed_value v"
    and "value_nodes v = 0" and "located_value l v" and "shallow_value d v"
proof -
  let ?s = "bp_position p + 1"
  obtain to i where to: "?s \<le> to" "to < length input" "input ! to = 101"
    and e: "canonical_int (input_slice input ?s to)" "parse_i64 (input_slice input ?s to) = Some i"
    and v: "v = Integer i" and q: "q = p\<lparr>bp_position := to + 1\<rparr>"
    using assms(1) unfolding parse_integer_def Let_def canonical_int_check
    by (auto simp: result_iffs find_terminator_Inr_iff split: if_splits)
  have i: "i64_range i" "input_slice input ?s to = decimal_int i"
    using parse_i64_canonical [OF e(1)] e(2) by auto
  have "input_slice input (bp_position p) (to + 1)
      = 105 # input_slice input ?s to @ input_slice input to (to + 1)"
    using to assms(2) input_slice_step [of "bp_position p" "to + 1" input]
      input_slice_append [of ?s to "to + 1" input] by simp
  also have "\<dots> = encode_value v"
    using to i by (simp add: v input_slice_step [of to])
  finally show s: "input_slice input (bp_position p) (bp_position q) = encode_value v" using q by simp
  show "bp_position q \<le> length input" "bp_nodes q = bp_nodes p" "well_formed_value v"
    "value_nodes v = 0" "located_value l v" "shallow_value d v" using q to v i by auto
  have "length (decimal_int i) = to - ?s" using i(2) to by (metis length_input_slice less_imp_le)
  then show "bp_position q = bp_position p + length (encode_value v)" using q to v by simp
qed

lemma parse_integer_complete:
  assumes "i64_range v" "bp_position p = length pre"
  shows "parse_integer (pre @ encode_value (Integer v) @ suf) p
    = Inr (Integer v, p\<lparr>bp_position := length pre + length (encode_value (Integer v))\<rparr>)"
proof -
  let ?n = "decimal_int v" and ?input = "pre @ encode_value (Integer v) @ suf"
    and ?p = "p\<lparr>bp_position := bp_position p + 1\<rparr>"
  have in1: "?input = (pre @ [105]) @ ?n @ 101 # suf" by simp
  have "drop (bp_position ?p) ?input = ?n @ 101 # suf"
    unfolding in1 using assms(2) by (simp del: append_assoc)
  moreover have "position_of (\<lambda>b. b = 101) (?n @ 101 # suf) = Some (length ?n)"
    by (rule position_of_append) (simp_all add: decimal_int_no_e)
  ultimately have f: "find_terminator ?input ?p 101 = Inr (length pre + 1 + length ?n)"
    using assms(2) by (simp add: find_terminator_def del: encode_value.simps)
  have n: "input_slice ?input (length pre + 1) (length pre + 1 + length ?n) = ?n"
    unfolding in1 by (rule input_slice_mid) simp_all
  have i: "parse_i64 ?n = Some v"
    using parse_i64_canonical [OF canonical_int_decimal] assms(1) by blast
  have u: "utf8 ?n"
    using decimal_digits [of "nat v"] decimal_digits [of "nat (- v)"]
    by (intro utf8_ascii)
       (auto simp: decimal_int_def list_all_iff is_ascii_digit_unat word_less_nat_alt split: if_splits)
  have p: "bp_position ?p = length pre + 1" using assms(2) by simp
  show ?thesis
    unfolding parse_integer_def Let_def canonical_int_check f and_then.simps p n
    by (simp add: canonical_int_decimal u i)
qed

section \<open>Exactness\<close>

text \<open>What one successful call has read: the canonical form of its result, with exact offsets.\<close>

definition reads :: "u8 list \<Rightarrow> bparser \<Rightarrow> bparser \<Rightarrow> u8 list \<Rightarrow> bool" where
  "reads input p q bytes \<longleftrightarrow>
    bp_position q \<le> length input \<and> bp_position q = bp_position p + length bytes
    \<and> input_slice input (bp_position p) (bp_position q) = bytes"

lemma reads_append:
  assumes "reads input p q a" "reads input q r b"
  shows "reads input p r (a @ b)"
  using assms input_slice_append [of "bp_position p" "bp_position q" "bp_position r" input]
  by (auto simp: reads_def)

lemma reads_byte:
  "bp_position p < length input \<Longrightarrow> bp_position q = bp_position p + 1 \<Longrightarrow>
   reads input p q [input ! bp_position p]"
  by (simp add: reads_def input_slice_step)

definition node_read :: "u8 list \<Rightarrow> nat \<Rightarrow> bparser \<Rightarrow> bencode_node \<Rightarrow> bparser \<Rightarrow> bool" where
  "node_read input d p n q \<longleftrightarrow>
    reads input p q (encode_node n) \<and> located (bp_position p) n \<and> well_formed n \<and> shallow d n
    \<and> bp_nodes q = bp_nodes p + node_count n \<and> bp_nodes q \<le> MAX_BENCODE_NODES"

definition value_read :: "u8 list \<Rightarrow> nat \<Rightarrow> bparser \<Rightarrow> bencode_value \<Rightarrow> bparser \<Rightarrow> bool" where
  "value_read input d p v q \<longleftrightarrow>
    reads input p q (encode_value v) \<and> located_value (bp_position p) v \<and> well_formed_value v
    \<and> shallow_value d v \<and> bp_nodes q = bp_nodes p + value_nodes v
    \<and> bp_nodes q \<le> max (bp_nodes p) MAX_BENCODE_NODES"

definition list_read :: "u8 list \<Rightarrow> nat \<Rightarrow> bparser \<Rightarrow> bencode_node list \<Rightarrow> bparser \<Rightarrow> bool" where
  "list_read input d p ns q \<longleftrightarrow>
    reads input p q (concat (map encode_node ns)) \<and> located_list (bp_position p) ns
    \<and> list_all well_formed ns \<and> list_all (shallow (d + 1)) ns
    \<and> bp_nodes q = bp_nodes p + sum_list (map node_count ns)
    \<and> bp_nodes q \<le> max (bp_nodes p) MAX_BENCODE_NODES \<and> byte_at input q = Some 101"

definition entries_read ::
  "u8 list \<Rightarrow> nat \<Rightarrow> u8 list option \<Rightarrow> bparser \<Rightarrow> (u8 list \<times> bencode_node) list \<Rightarrow> bparser \<Rightarrow> bool" where
  "entries_read input d previous p es q \<longleftrightarrow>
    reads input p q (concat (map (\<lambda>(k, n). encode_bytes k @ encode_node n) es))
    \<and> located_entries (bp_position p) es
    \<and> sorted_wrt (<) ((case previous of None \<Rightarrow> [] | Some k \<Rightarrow> [k]) @ map fst es)
    \<and> list_all (\<lambda>(k, n). well_formed n) es \<and> list_all (\<lambda>(k, n). shallow (d + 1) n) es
    \<and> bp_nodes q = bp_nodes p + sum_list (map (\<lambda>(k, n). node_count n) es)
    \<and> bp_nodes q \<le> max (bp_nodes p) MAX_BENCODE_NODES \<and> byte_at input q = Some 101"

lemma reads_tail:
  assumes "byte_at input q = Some b" "bp_position r = bp_position q + 1"
  shows "reads input q r [b]"
  using assms reads_byte [of q input r] by (auto simp: byte_at_def split: if_splits)

lemma value_read_list:
  assumes "list_read input d (p\<lparr>bp_position := bp_position p + 1\<rparr>) ns q" "byte_at input p = Some 108"
  shows "value_read input d p (BList ns) (q\<lparr>bp_position := bp_position q + 1\<rparr>)"
proof -
  let ?p = "p\<lparr>bp_position := bp_position p + 1\<rparr>"
  have "reads input p ?p [108]" using assms(2) by (rule reads_tail) simp
  moreover have "reads input ?p q (concat (map encode_node ns))" using assms(1) by (simp add: list_read_def)
  moreover have "reads input q (q\<lparr>bp_position := bp_position q + 1\<rparr>) [101]"
    using assms(1) by (intro reads_tail) (simp_all add: list_read_def)
  ultimately have "reads input p (q\<lparr>bp_position := bp_position q + 1\<rparr>)
      ([108] @ concat (map encode_node ns) @ [101])"
    by (blast intro: reads_append)
  then show ?thesis using assms(1) by (simp add: list_read_def value_read_def)
qed

lemma value_read_dictionary:
  assumes "entries_read input d None (p\<lparr>bp_position := bp_position p + 1\<rparr>) es q"
    and "byte_at input p = Some 100"
  shows "value_read input d p (Dictionary es) (q\<lparr>bp_position := bp_position q + 1\<rparr>)"
proof -
  let ?p = "p\<lparr>bp_position := bp_position p + 1\<rparr>"
    and ?es = "concat (map (\<lambda>(k, n). encode_bytes k @ encode_node n) es)"
  have "reads input p ?p [100]" using assms(2) by (rule reads_tail) simp
  moreover have "reads input ?p q ?es" using assms(1) by (simp add: entries_read_def)
  moreover have "reads input q (q\<lparr>bp_position := bp_position q + 1\<rparr>) [101]"
    using assms(1) by (intro reads_tail) (simp_all add: entries_read_def)
  ultimately have "reads input p (q\<lparr>bp_position := bp_position q + 1\<rparr>) ([100] @ ?es @ [101])"
    by (blast intro: reads_append)
  then show ?thesis using assms(1) by (simp add: entries_read_def value_read_def)
qed

lemma value_read_integer:
  assumes "parse_integer input p = Inr (v, q)" "byte_at input p = Some 105"
  shows "value_read input d p v q"
proof -
  have "input ! bp_position p = 105" using assms(2) by (simp add: byte_at_def split: if_splits)
  note parse_integer_sound [OF assms(1) this]
  then show ?thesis by (simp add: value_read_def reads_def)
qed

lemma value_read_bytes:
  assumes "parse_bytes input p = Inr (bs, q)"
  shows "value_read input d p (Bytes bs) q"
  using parse_bytes_sound [OF assms] by (simp add: value_read_def reads_def)

lemma node_read_value:
  assumes "value_read input d (p\<lparr>bp_nodes := saturating_add_usize (bp_nodes p) 1\<rparr>) v q"
    and "d \<le> MAX_BENCODE_DEPTH" "saturating_add_usize (bp_nodes p) 1 \<le> MAX_BENCODE_NODES"
  shows "node_read input d p (BencodeNode v (bp_position p) (bp_position q)) q"
proof -
  have "saturating_add_usize (bp_nodes p) 1 = bp_nodes p + 1"
    using assms(3) by (simp add: saturating_add_usize_def MAX_BENCODE_NODES_def usize_max_def)
  then show ?thesis using assms by (auto simp: node_read_def value_read_def reads_def)
qed

lemma list_read_Cons:
  assumes "node_read input (d + 1) p n q" "list_read input d q ns r"
  shows "list_read input d p (n # ns) r"
proof -
  have "reads input p r (encode_node n @ concat (map encode_node ns))"
    using assms by (auto simp: list_read_def node_read_def intro: reads_append)
  moreover have "bp_position q = bp_position p + length (encode_node n)"
    using assms by (simp add: node_read_def reads_def)
  ultimately show ?thesis using assms by (auto simp: list_read_def node_read_def)
qed

lemma entries_read_Cons:
  assumes "parse_bytes input p = Inr (k, q)" "node_read input (d + 1) q n r"
    and "entries_read input d (Some k) r es s"
    and "case previous of None \<Rightarrow> True | Some c \<Rightarrow> c < k"
  shows "entries_read input d previous p ((k, n) # es) s"
proof -
  note pb = parse_bytes_sound [OF assms(1)]
  have "reads input p q (encode_bytes k)" using pb by (simp add: reads_def)
  then have "reads input p s
      (encode_bytes k @ encode_node n @ concat (map (\<lambda>(k, n). encode_bytes k @ encode_node n) es))"
    using assms by (auto simp: entries_read_def node_read_def intro: reads_append)
  moreover have "bp_position q = bp_position p + length (encode_bytes k)"
    "bp_position r = bp_position q + length (encode_node n)"
    using assms pb by (auto simp: node_read_def reads_def)
  ultimately show ?thesis
    using assms pb(4)
    by (auto simp: entries_read_def node_read_def split: option.splits dest: less_trans)
qed

lemma parse_sound:
  shows "parse_node input d p = Inr (n, q) \<Longrightarrow> node_read input d p n q"
    and "parse_list input d p = Inr (v, q) \<Longrightarrow> byte_at input p = Some 108 \<Longrightarrow> value_read input d p v q"
    and "list_loop input d p = Inr (ns, q) \<Longrightarrow> list_read input d p ns q"
    and "parse_dictionary input d p = Inr (v, q) \<Longrightarrow> byte_at input p = Some 100 \<Longrightarrow> value_read input d p v q"
    and "dictionary_loop input d previous p = Inr (es, q) \<Longrightarrow> entries_read input d previous p es q"
proof (induction input d p and input d p and input d p and input d p and input d previous p
    arbitrary: n q and v q and ns q and v q and es q
    rule: parse_node_parse_list_list_loop_parse_dictionary_dictionary_loop.induct)
  case (1 input d p)
  let ?p = "p\<lparr>bp_nodes := saturating_add_usize (bp_nodes p) 1\<rparr>"
  have guards: "\<not> MAX_BENCODE_DEPTH < d" "\<not> MAX_BENCODE_NODES < bp_nodes ?p"
    using 1(3) by (auto simp: parse_node.simps Let_def split: if_splits)
  obtain token where t: "byte_at input ?p = Some token"
    using 1(3) guards by (cases "byte_at input ?p") (auto simp: parse_node.simps Let_def)
  have "\<exists>v. value_read input d ?p v q \<and> n = BencodeNode v (bp_position p) (bp_position q)"
    using 1 guards t
    by (auto simp: parse_node.simps [of input d p] Let_def result_iffs split: if_splits
        intro: value_read_integer value_read_bytes)
  then obtain v where "value_read input d ?p v q" "n = BencodeNode v (bp_position p) (bp_position q)"
    by blast
  then show ?case using node_read_value guards by simp
next
  case (2 input d p)
  then show ?case by (auto simp: parse_list.simps result_iffs intro: value_read_list [simplified])
next
  case (3 input d p)
  show ?case
  proof (cases "byte_at input p = Some 101")
    case True
    then show ?thesis using 3(3)
      by (auto simp: list_loop.simps list_read_def reads_def input_slice_def byte_at_def split: if_splits)
  next
    case False
    then show ?thesis using 3
      by (auto simp: list_loop.simps [of input d p] result_iffs intro: list_read_Cons)
  qed
next
  case (4 input d p)
  then show ?case by (auto simp: parse_dictionary.simps result_iffs intro: value_read_dictionary [simplified])
next
  case (5 input d previous p)
  show ?case
  proof (cases "byte_at input p = Some 101")
    case True
    then show ?thesis using 5(3)
      by (auto simp: dictionary_loop.simps entries_read_def reads_def input_slice_def byte_at_def
          split: if_splits option.splits)
  next
    case False
    let ?unsorted = "\<lambda>k. case previous of None \<Rightarrow> False | Some candidate \<Rightarrow> k \<le> candidate"
    from False 5(3) obtain k q1 n1 r es1
      where dig: "case byte_at input p of None \<Rightarrow> False | Some b \<Rightarrow> is_ascii_digit b"
        and k: "parse_bytes input p = Inr (k, q1)" "\<not> ?unsorted k"
        and n: "parse_node input (d + 1) q1 = Inr (n1, r)"
        and l: "dictionary_loop input d (Some k) r = Inr (es1, q)" and es: "es = (k, n1) # es1"
      by (auto simp: dictionary_loop.simps [of input d previous p] result_iffs split: if_splits)
    have "node_read input (d + 1) q1 n1 r" using 5(1) False dig k n by blast
    moreover have "entries_read input d (Some k) r es1 q" using 5(2) False dig k n l by blast
    ultimately show ?thesis
      unfolding es using k by (intro entries_read_Cons) (auto split: option.splits)
  qed
qed

text \<open>Conversely every located, well-formed, bounded value is read back from its encoding.\<close>

definition parses_back :: "bencode_node \<Rightarrow> bool" where
  "parses_back n \<longleftrightarrow> (\<forall>pre suf d p.
    located (length pre) n \<and> well_formed n \<and> shallow d n \<and> bp_position p = length pre
    \<and> bp_nodes p + node_count n \<le> MAX_BENCODE_NODES
    \<and> length (pre @ encode_node n @ suf) \<le> usize_max \<longrightarrow>
    parse_node (pre @ encode_node n @ suf) d p
      = Inr (n, p\<lparr>bp_position := length pre + length (encode_node n),
                  bp_nodes := bp_nodes p + node_count n\<rparr>))"

lemma parses_backD:
  assumes "parses_back n" "located (length pre) n" "well_formed n" "shallow d n"
    and "bp_position p = length pre" "bp_nodes p + node_count n \<le> MAX_BENCODE_NODES"
    and "length (pre @ encode_node n @ suf) \<le> usize_max"
  shows "parse_node (pre @ encode_node n @ suf) d p
    = Inr (n, p\<lparr>bp_position := length pre + length (encode_node n), bp_nodes := bp_nodes p + node_count n\<rparr>)"
  using assms unfolding parses_back_def by blast

lemma byte_at_append:
  "bp_position p = length pre \<Longrightarrow> xs \<noteq> [] \<Longrightarrow> byte_at (pre @ xs @ suf) p = Some (hd xs)"
  by (cases xs) (auto simp: byte_at_def nth_append)

lemma encode_bytes_nonempty [simp]: "encode_bytes bs \<noteq> []"
  by (simp add: encode_bytes_def)

lemma hd_encode_bytes: "is_ascii_digit (hd (encode_bytes bs))"
  using decimal_digits [of "length bs"] decimal_nonempty [of "length bs"]
  by (cases "decimal (length bs)") (auto simp: encode_bytes_def)

lemma encode_node_nonempty [simp]: "encode_node n \<noteq> []"
  by (cases n) (cases "bn_value n"; simp)

lemma hd_encode_node: "hd (encode_node n) \<noteq> 101"
proof -
  have "hd (encode_bytes bs) \<noteq> 101" for bs
    using hd_encode_bytes [of bs] by (auto simp: is_ascii_digit_def)
  then show ?thesis by (cases n) (cases "bn_value n"; simp)
qed

lemma list_loop_complete:
  assumes "\<And>n. n \<in> set ns \<Longrightarrow> parses_back n"
    and "located_list (length pre) ns" "list_all well_formed ns" "list_all (shallow (d + 1)) ns"
    and "bp_position p = length pre"
    and "bp_nodes p + sum_list (map node_count ns) \<le> MAX_BENCODE_NODES"
    and "length (pre @ concat (map encode_node ns) @ 101 # suf) \<le> usize_max"
  shows "list_loop (pre @ concat (map encode_node ns) @ 101 # suf) d p
    = Inr (ns, p\<lparr>bp_position := length pre + length (concat (map encode_node ns)),
                 bp_nodes := bp_nodes p + sum_list (map node_count ns)\<rparr>)"
  using assms
proof (induction ns arbitrary: pre p)
  case Nil
  then show ?case by (simp add: list_loop.simps byte_at_def nth_append)
next
  case (Cons n ns)
  let ?e = "encode_node n" and ?rest = "concat (map encode_node ns) @ 101 # suf"
    and ?q = "p\<lparr>bp_position := length pre + length (encode_node n), bp_nodes := bp_nodes p + node_count n\<rparr>"
  have b: "byte_at (pre @ ?e @ ?rest) p \<noteq> Some 101"
    using Cons.prems(5) hd_encode_node [of n] by (simp add: byte_at_append)
  have n: "parse_node (pre @ ?e @ ?rest) (d + 1) p = Inr (n, ?q)"
    by (rule parses_backD) (use Cons.prems in auto)
  have "list_loop ((pre @ ?e) @ ?rest) d ?q
      = Inr (ns, ?q\<lparr>bp_position := length (pre @ ?e) + length (concat (map encode_node ns)),
                    bp_nodes := bp_nodes ?q + sum_list (map node_count ns)\<rparr>)"
    using Cons.prems by (intro Cons.IH) auto
  then show ?case
    using b n by (simp add: list_loop.simps [of "pre @ ?e @ ?rest" d p] add.assoc)
qed

lemma dictionary_loop_complete:
  assumes "\<And>k n. (k, n) \<in> set es \<Longrightarrow> parses_back n"
    and "located_entries (length pre) es"
    and "sorted_wrt (<) ((case previous of None \<Rightarrow> [] | Some k \<Rightarrow> [k]) @ map fst es)"
    and "list_all (\<lambda>(k, n). well_formed n) es" "list_all (\<lambda>(k, n). shallow (d + 1) n) es"
    and "bp_position p = length pre"
    and "bp_nodes p + sum_list (map (\<lambda>(k, n). node_count n) es) \<le> MAX_BENCODE_NODES"
    and "length (pre @ concat (map (\<lambda>(k, n). encode_bytes k @ encode_node n) es) @ 101 # suf) \<le> usize_max"
  shows "dictionary_loop (pre @ concat (map (\<lambda>(k, n). encode_bytes k @ encode_node n) es) @ 101 # suf) d previous p
    = Inr (es, p\<lparr>bp_position := length pre + length (concat (map (\<lambda>(k, n). encode_bytes k @ encode_node n) es)),
                 bp_nodes := bp_nodes p + sum_list (map (\<lambda>(k, n). node_count n) es)\<rparr>)"
  using assms
proof (induction es arbitrary: pre p previous)
  case Nil
  then show ?case by (simp add: dictionary_loop.simps byte_at_def nth_append)
next
  case (Cons e es)
  obtain k n where e: "e = (k, n)" by (cases e)
  let ?es = "concat (map (\<lambda>(k, n). encode_bytes k @ encode_node n) es)"
  let ?rest = "?es @ 101 # suf"
  let ?input = "pre @ encode_bytes k @ encode_node n @ ?rest"
  let ?q = "p\<lparr>bp_position := length pre + length (encode_bytes k)\<rparr>"
  let ?r = "?q\<lparr>bp_position := length (pre @ encode_bytes k) + length (encode_node n),
               bp_nodes := bp_nodes ?q + node_count n\<rparr>"
  have b: "byte_at ?input p = Some (hd (encode_bytes k))" "is_ascii_digit (hd (encode_bytes k))"
    using Cons.prems(6) hd_encode_bytes [of k] by (simp_all add: byte_at_append)
  have b': "hd (encode_bytes k) \<noteq> 101" using b(2) by (auto simp: is_ascii_digit_def)
  have k: "parse_bytes ?input p = Inr (k, ?q)"
    using Cons.prems(6,8) e by (intro parse_bytes_complete) auto
  have s: "\<not> (case previous of None \<Rightarrow> False | Some c \<Rightarrow> k \<le> c)"
    using Cons.prems(3) by (auto simp: e split: option.splits)
  have n: "parse_node ((pre @ encode_bytes k) @ encode_node n @ ?rest) (d + 1) ?q = Inr (n, ?r)"
    by (rule parses_backD) (use Cons.prems in \<open>auto simp: e\<close>)
  have "dictionary_loop ((pre @ encode_bytes k @ encode_node n) @ ?rest) d (Some k) ?r
      = Inr (es, ?r\<lparr>bp_position := length (pre @ encode_bytes k @ encode_node n) + length ?es,
                    bp_nodes := bp_nodes ?r + sum_list (map (\<lambda>(k, n). node_count n) es)\<rparr>)"
    using Cons.prems by (intro Cons.IH) (auto simp: e add.assoc split: option.splits)
  then show ?case
    using b b' k s n by (simp add: e dictionary_loop.simps [of ?input d previous p] add.assoc)
qed

lemma parse_node_token:
  assumes "bp_position p = length pre" "d \<le> MAX_BENCODE_DEPTH" "bp_nodes p + 1 \<le> MAX_BENCODE_NODES"
    and "p' = p\<lparr>bp_nodes := bp_nodes p + 1\<rparr>" "xs \<noteq> []"
  shows "parse_node (pre @ xs @ suf) d p =
    and_then
      (if hd xs = 105 then parse_integer (pre @ xs @ suf) p'
       else if hd xs = 108 then parse_list (pre @ xs @ suf) d p'
       else if hd xs = 100 then parse_dictionary (pre @ xs @ suf) d p'
       else if is_ascii_digit (hd xs)
       then and_then (parse_bytes (pre @ xs @ suf) p') (\<lambda>(bytes, q). Inr (Bytes bytes, q))
       else Inl (BencodeInvalid (length pre)))
      (\<lambda>(value, q). Inr (BencodeNode value (length pre) (bp_position q), q))"
proof -
  have "saturating_add_usize (bp_nodes p) 1 = bp_nodes p + 1"
    using assms(3) by (simp add: saturating_add_usize_def MAX_BENCODE_NODES_def usize_max_def)
  moreover have "byte_at (pre @ xs @ suf) p' = Some (hd xs)"
    using assms by (intro byte_at_append) simp_all
  ultimately show ?thesis
    using assms by (simp add: parse_node.simps [of _ d p] Let_def)
qed

lemma parses_back_all: "parses_back n"
proof (induction n rule: measure_induct_rule [of size])
  case (less n)
  obtain v s e where n: "n = BencodeNode v s e" by (cases n)
  show ?case
    unfolding parses_back_def
  proof (intro allI impI; elim conjE)
    fix pre suf d and p :: bparser
    assume loc: "located (length pre) n" and wf: "well_formed n" and sh: "shallow d n"
      and pos: "bp_position p = length pre" and cnt: "bp_nodes p + node_count n \<le> MAX_BENCODE_NODES"
      and len: "length (pre @ encode_node n @ suf) \<le> usize_max"
    define p' where "p' = p\<lparr>bp_nodes := bp_nodes p + 1\<rparr>"
    have d: "d \<le> MAX_BENCODE_DEPTH" "bp_nodes p + 1 \<le> MAX_BENCODE_NODES" "bp_position p' = length pre"
      using sh cnt pos by (auto simp: n p'_def)
    note step = parse_node_token [OF pos d(1,2) p'_def encode_node_nonempty]
    show "parse_node (pre @ encode_node n @ suf) d p
      = Inr (n, p\<lparr>bp_position := length pre + length (encode_node n), bp_nodes := bp_nodes p + node_count n\<rparr>)"
    proof (cases v)
      case (Bytes bs)
      have "hd (encode_node n) \<noteq> 105" "hd (encode_node n) \<noteq> 108" "hd (encode_node n) \<noteq> 100"
        using hd_encode_bytes [of bs] by (auto simp: n Bytes is_ascii_digit_def)
      moreover have "parse_bytes (pre @ encode_bytes bs @ suf) p'
          = Inr (bs, p'\<lparr>bp_position := length pre + length (encode_bytes bs)\<rparr>)"
        using len d by (intro parse_bytes_complete) (auto simp: n Bytes)
      ultimately show ?thesis
        unfolding step using loc hd_encode_bytes [of bs] by (simp add: n Bytes p'_def)
    next
      case (Integer i)
      have "parse_integer (pre @ encode_value (Integer i) @ suf) p'
          = Inr (Integer i, p'\<lparr>bp_position := length pre + length (encode_value (Integer i))\<rparr>)"
        using wf d by (intro parse_integer_complete) (auto simp: n Integer)
      then show ?thesis unfolding step using loc by (simp add: n Integer p'_def)
    next
      case (BList ns)
      have "parses_back m" if "m \<in> set ns" for m
        using that by (intro less) (auto simp: n BList dest: size_list_estimation' [of _ _ _ size])
      then have "list_loop ((pre @ [108]) @ concat (map encode_node ns) @ 101 # suf) d
            (p'\<lparr>bp_position := bp_position p' + 1\<rparr>)
          = Inr (ns, p'\<lparr>bp_position := length (pre @ [108]) + length (concat (map encode_node ns)),
                       bp_nodes := bp_nodes p' + sum_list (map node_count ns)\<rparr>)"
        using loc wf sh d cnt len
        by (subst list_loop_complete) (auto simp: n BList p'_def)
      then show ?thesis unfolding step using loc by (simp add: n BList p'_def parse_list.simps)
    next
      case (Dictionary es)
      let ?es = "concat (map (\<lambda>(k, n). encode_bytes k @ encode_node n) es)"
      have "parses_back m" if "(k, m) \<in> set es" for k m
      proof (rule less)
        have "size m \<le> size_list (size_prod (\<lambda>x. 0) size) es"
          using that by (rule size_list_estimation') simp
        then show "size m < size n" by (simp add: n Dictionary)
      qed
      then have "dictionary_loop ((pre @ [100]) @ ?es @ 101 # suf) d None
            (p'\<lparr>bp_position := bp_position p' + 1\<rparr>)
          = Inr (es, p'\<lparr>bp_position := length (pre @ [100]) + length ?es,
                       bp_nodes := bp_nodes p' + sum_list (map (\<lambda>(k, n). node_count n) es)\<rparr>)"
        using loc wf sh d cnt len
        by (subst dictionary_loop_complete) (auto simp: n Dictionary p'_def)
      then show ?thesis unfolding step using loc by (simp add: n Dictionary p'_def parse_dictionary.simps)
    qed
  qed
qed

lemma node_read_start:
  "node_read input 0 \<lparr>bp_position = 0, bp_nodes = 0\<rparr> n q \<and> bp_position q = length input \<longleftrightarrow>
    input = encode_node n \<and> located 0 n \<and> well_formed n \<and> shallow 0 n
    \<and> node_count n \<le> MAX_BENCODE_NODES
    \<and> q = \<lparr>bp_position = length input, bp_nodes = node_count n\<rparr>"
  by (cases q) (auto simp: node_read_def reads_def)

lemma parse_bencode_exact:
  "parse_bencode input = Inr n \<longleftrightarrow>
    length input \<le> MAX_BENCODE_INPUT \<and> input = encode_node n \<and> located 0 n \<and> well_formed n
    \<and> shallow 0 n \<and> node_count n \<le> MAX_BENCODE_NODES" (is "?l \<longleftrightarrow> ?r")
proof
  assume ?l
  then obtain q where len: "length input \<le> MAX_BENCODE_INPUT"
    and "parse_node input 0 \<lparr>bp_position = 0, bp_nodes = 0\<rparr> = Inr (n, q)" "bp_position q = length input"
    by (auto simp: parse_bencode_def result_iffs split: if_splits)
  then show ?r using parse_sound(1) node_read_start by blast
next
  assume r: ?r
  have "parse_node ([] @ encode_node n @ []) 0 \<lparr>bp_position = 0, bp_nodes = 0\<rparr>
      = Inr (n, \<lparr>bp_position = length (encode_node n), bp_nodes = node_count n\<rparr>)"
    using r by (subst parses_backD [OF parses_back_all])
      (auto simp: MAX_BENCODE_INPUT_def usize_max_def)
  then show ?l using r by (auto simp: parse_bencode_def)
qed

section \<open>Offsets\<close>

text \<open>A value with its offsets forgotten, and with the offsets of an encoding at \<open>p\<close>.\<close>

fun erase_value :: "bencode_value \<Rightarrow> bencode_value"
and erase :: "bencode_node \<Rightarrow> bencode_node"
where
  "erase_value (Bytes bs) = Bytes bs"
| "erase_value (Integer v) = Integer v"
| "erase_value (BList ns) = BList (map erase ns)"
| "erase_value (Dictionary es) = Dictionary (map (\<lambda>(k, n). (k, erase n)) es)"
| "erase (BencodeNode v from to) = BencodeNode (erase_value v) 0 0"

fun relocate_value :: "nat \<Rightarrow> bencode_value \<Rightarrow> bencode_value"
and relocate :: "nat \<Rightarrow> bencode_node \<Rightarrow> bencode_node"
and relocate_list :: "nat \<Rightarrow> bencode_node list \<Rightarrow> bencode_node list"
and relocate_entries :: "nat \<Rightarrow> (u8 list \<times> bencode_node) list \<Rightarrow> (u8 list \<times> bencode_node) list"
where
  "relocate_value p (Bytes bs) = Bytes bs"
| "relocate_value p (Integer v) = Integer v"
| "relocate_value p (BList ns) = BList (relocate_list (p + 1) ns)"
| "relocate_value p (Dictionary es) = Dictionary (relocate_entries (p + 1) es)"
| "relocate p (BencodeNode v from to) =
    BencodeNode (relocate_value p v) p (p + length (encode_value v))"
| "relocate_list p [] = []"
| "relocate_list p (n # ns) = relocate p n # relocate_list (p + length (encode_node n)) ns"
| "relocate_entries p [] = []"
| "relocate_entries p ((k, n) # es) =
    (k, relocate (p + length (encode_bytes k)) n)
    # relocate_entries (p + length (encode_bytes k) + length (encode_node n)) es"

lemmas relocate_induct = relocate_value_relocate_relocate_list_relocate_entries.induct

lemma erase_relocate [simp]:
  "erase_value (relocate_value p v) = erase_value v"
  "erase (relocate p n) = erase n"
  "map erase (relocate_list p ns) = map erase ns"
  "map (\<lambda>(k, n). (k, erase n)) (relocate_entries p es) = map (\<lambda>(k, n). (k, erase n)) es"
  by (induction p v and p n and p ns and p es rule: relocate_induct) auto

lemma encode_relocate [simp]:
  "encode_value (relocate_value p v) = encode_value v"
  "encode_node (relocate p n) = encode_node n"
  "map encode_node (relocate_list p ns) = map encode_node ns"
  "map (\<lambda>(k, n). encode_bytes k @ encode_node n) (relocate_entries p es)
    = map (\<lambda>(k, n). encode_bytes k @ encode_node n) es"
  by (induction p v and p n and p ns and p es rule: relocate_induct) auto

lemma located_relocate [simp]:
  "located_value p (relocate_value p v)"
  "located p (relocate p n)"
  "located_list p (relocate_list p ns)"
  "located_entries p (relocate_entries p es)"
  by (induction p v and p n and p ns and p es rule: relocate_induct) auto

lemma keys_relocate [simp]: "map fst (relocate_entries p es) = map fst es"
  by (induction es arbitrary: p) auto

lemma well_formed_relocate [simp]:
  "well_formed_value (relocate_value p v) \<longleftrightarrow> well_formed_value v"
  "well_formed (relocate p n) \<longleftrightarrow> well_formed n"
  "list_all well_formed (relocate_list p ns) \<longleftrightarrow> list_all well_formed ns"
  "list_all (\<lambda>(k, n). well_formed n) (relocate_entries p es) \<longleftrightarrow> list_all (\<lambda>(k, n). well_formed n) es"
  by (induction p v and p n and p ns and p es rule: relocate_induct) auto

lemma shallow_relocate [simp]:
  "shallow_value d (relocate_value p v) \<longleftrightarrow> shallow_value d v"
  "shallow d (relocate p n) \<longleftrightarrow> shallow d n"
  "list_all (shallow d) (relocate_list p ns) \<longleftrightarrow> list_all (shallow d) ns"
  "list_all (\<lambda>(k, n). shallow d n) (relocate_entries p es) \<longleftrightarrow> list_all (\<lambda>(k, n). shallow d n) es"
  by (induction p v and p n and p ns and p es arbitrary: d and d and d and d rule: relocate_induct) auto

lemma node_count_relocate [simp]:
  "value_nodes (relocate_value p v) = value_nodes v"
  "node_count (relocate p n) = node_count n"
  "map node_count (relocate_list p ns) = map node_count ns"
  "map (\<lambda>(k, n). node_count n) (relocate_entries p es) = map (\<lambda>(k, n). node_count n) es"
  by (induction p v and p n and p ns and p es rule: relocate_induct) auto

lemma parse_bencode_encode:
  assumes "length (encode_node n) \<le> MAX_BENCODE_INPUT" "well_formed n" "shallow 0 n"
    and "node_count n \<le> MAX_BENCODE_NODES"
  shows "parse_bencode (encode_node n) = Inr (relocate 0 n)"
  using assms by (simp add: parse_bencode_exact)

text \<open>The encoding determines a well-formed value within the limits up to its offsets.\<close>

lemma encode_node_inject:
  assumes "encode_node n = encode_node m" "length (encode_node n) \<le> MAX_BENCODE_INPUT"
    and "well_formed n" "shallow 0 n" "node_count n \<le> MAX_BENCODE_NODES"
    and "well_formed m" "shallow 0 m" "node_count m \<le> MAX_BENCODE_NODES"
  shows "erase n = erase m"
proof -
  have "relocate 0 n = relocate 0 m"
    using assms parse_bencode_encode [of n] parse_bencode_encode [of m] by simp
  then have "erase (relocate 0 n) = erase (relocate 0 m)" by (rule arg_cong)
  then show ?thesis by simp
qed

lemma shallow_mono:
  "shallow_value d v \<Longrightarrow> d' \<le> d \<Longrightarrow> shallow_value d' v"
  "shallow d n \<Longrightarrow> d' \<le> d \<Longrightarrow> shallow d' n"
proof (induction d v and d n arbitrary: d' and d' rule: shallow_value_shallow.induct)
  case (3 d ns)
  then show ?case by (auto simp: list_all_iff)
next
  case (4 d es)
  then show ?case by (auto simp: list_all_iff)
qed auto

section \<open>The property\<close>

text \<open>
  (C32) The strict parser accepts a byte string exactly when it is the canonical encoding of the
  value it returns: at most four MiB, at most 100000 values, nested at most 64 deep, integers in
  the range of \<open>i64\<close>, keys strictly increasing, and with the offsets of every node where its
  encoding stands in the input.  Anything else, trailing bytes included, is an error.
\<close>

theorem parse_bencode_iff:
  "parse_bencode input = Inr n \<longleftrightarrow>
    length input \<le> MAX_BENCODE_INPUT \<and> input = encode_node n \<and> located 0 n \<and> well_formed n
    \<and> shallow 0 n \<and> node_count n \<le> MAX_BENCODE_NODES"
  by (rule parse_bencode_exact)

end
