(* ===== verification/Metainfo.thy ===== *)
theory Metainfo
  imports Bencode Content
begin

text \<open>
  Torrent metadata and the Merkle root of BEP 52 (\<open>torrent_identity\<close>, its field readers and
  \<open>v2_file_root\<close> of \<open>triptorrent-interop/src/lib.rs\<close>).  SHA-1, SHA-256 and the \<open>hex\<close> crate are
  the parameters \<open>sha1\<close>, \<open>sha256\<close> and \<open>hex_encode\<close>.
\<close>

section \<open>Fields of a dictionary\<close>

type_synonym entries = "(u8 list \<times> bencode_node) list"

definition dictionary :: "bencode_node \<Rightarrow> entries option" where
  "dictionary node = (case bn_value node of Dictionary entries \<Rightarrow> Some entries | _ \<Rightarrow> None)"

definition find_entry :: "entries \<Rightarrow> u8 list \<Rightarrow> bencode_node option" where
  "find_entry entries key =
    map_option (\<lambda>index. snd (entries ! index)) (binary_search_by_key fst key entries)"

definition bytes_field :: "entries \<Rightarrow> u8 list \<Rightarrow> u8 list option" where
  "bytes_field entries key =
    Option.bind (find_entry entries key) (\<lambda>node.
    case bn_value node of Bytes bytes \<Rightarrow> Some bytes | _ \<Rightarrow> None)"

definition integer_field :: "entries \<Rightarrow> u8 list \<Rightarrow> int option" where
  "integer_field entries key =
    Option.bind (find_entry entries key) (\<lambda>node.
    case bn_value node of Integer value \<Rightarrow> Some value | _ \<Rightarrow> None)"

text \<open>\<open>u64::try_from\<close> of an \<open>i64\<close>, and \<open>u64::checked_add\<close>; \<open>u64\<close> values are naturals here.\<close>

definition u64_of_i64 :: "int \<Rightarrow> nat option" where
  "u64_of_i64 v = (if 0 \<le> v then Some (nat v) else None)"

definition checked_add_u64 :: "nat \<Rightarrow> nat \<Rightarrow> nat option" where
  "checked_add_u64 a b = (if a + b \<le> u64_max then Some (a + b) else None)"

text \<open>\<open>Iterator::try_fold\<close> over an option.\<close>

fun try_fold :: "('s \<Rightarrow> 'a \<Rightarrow> 's option) \<Rightarrow> 's \<Rightarrow> 'a list \<Rightarrow> 's option" where
  "try_fold f s [] = Some s"
| "try_fold f s (x # xs) = Option.bind (f s x) (\<lambda>s. try_fold f s xs)"

section \<open>Payload lengths\<close>

definition nonempty_bytes :: "bencode_node \<Rightarrow> bool" where
  "nonempty_bytes part = (case bn_value part of Bytes value \<Rightarrow> value \<noteq> [] | _ \<Rightarrow> False)"

text \<open>One file of a multi-file torrent: the closure of the fold without its addition.\<close>

definition v1_file_length :: "bencode_node \<Rightarrow> nat option" where
  "v1_file_length f =
    Option.bind (dictionary f) (\<lambda>fields.
    Option.bind (Option.bind (integer_field fields (ascii ''length'')) u64_of_i64) (\<lambda>len.
    Option.bind (find_entry fields (ascii ''path'')) (\<lambda>path.
    case bn_value path of
      BList parts \<Rightarrow>
        if parts = [] \<or> list_ex (\<lambda>part. \<not> nonempty_bytes part) parts then None else Some len
    | _ \<Rightarrow> None)))"

definition v1_payload_length :: "entries \<Rightarrow> nat option" where
  "v1_payload_length entries =
    (case (find_entry entries (ascii ''length''), find_entry entries (ascii ''files'')) of
       (Some len, None) \<Rightarrow>
         (case bn_value len of Integer value \<Rightarrow> u64_of_i64 value | _ \<Rightarrow> None)
     | (None, Some files) \<Rightarrow>
         (case bn_value files of
            BList files \<Rightarrow>
              if files \<noteq> []
              then try_fold (\<lambda>total f. Option.bind (v1_file_length f) (checked_add_u64 total)) 0 files
              else None
          | _ \<Rightarrow> None)
     | _ \<Rightarrow> None)"

text \<open>The recursion of the file tree, with the closure of its fold as a second function.\<close>

definition v2_leaf_length :: "entries \<Rightarrow> nat option" where
  "v2_leaf_length leaf =
    Option.bind (Option.bind (integer_field leaf (ascii ''length'')) u64_of_i64) (\<lambda>len.
    if 0 < len \<and> (case bytes_field leaf (ascii ''pieces root'') of
                     None \<Rightarrow> True | Some root \<Rightarrow> length root \<noteq> 32)
    then None else Some len)"

lemma dictionary_smaller:
  assumes "dictionary n = Some es"
  shows "size_list (size_prod (\<lambda>x. 0) size) es < size n"
  using assms by (cases n) (auto simp: dictionary_def split: bencode_value.splits)

function v2_tree_length :: "entries \<Rightarrow> nat option"
and v2_tree_fold :: "nat \<Rightarrow> entries \<Rightarrow> nat option"
where
  "v2_tree_length entries =
    (if entries = [] then None
     else if length entries = 1 \<and> fst (entries ! 0) = []
     then Option.bind (dictionary (snd (entries ! 0))) v2_leaf_length
     else v2_tree_fold 0 entries)"
| "v2_tree_fold acc [] = Some acc"
| "v2_tree_fold acc ((name, node) # rest) =
    (if name = [] then None
     else
       (case dictionary node of
          None \<Rightarrow> None
        | Some child \<Rightarrow>
            (case v2_tree_length child of
               None \<Rightarrow> None
             | Some len \<Rightarrow>
                 (case checked_add_u64 acc len of
                    None \<Rightarrow> None
                  | Some acc \<Rightarrow> v2_tree_fold acc rest))))"
  by pat_completeness auto
termination
  by (relation "measures [
      \<lambda>x. case x of Inl es \<Rightarrow> size_list (size_prod (\<lambda>x. 0) size) es
        | Inr (acc, es) \<Rightarrow> size_list (size_prod (\<lambda>x. 0) size) es,
      \<lambda>x. case x of Inl _ \<Rightarrow> 1 | Inr _ \<Rightarrow> 0]")
     (auto dest!: dictionary_smaller)

declare v2_tree_length.simps [simp del]

section \<open>Identity\<close>

datatype torrent_kind = V1 | V2 | Hybrid

record torrent_ids =
  ti_kind :: torrent_kind
  ti_btih :: "str option"
  ti_btmh_sha256 :: "str option"

datatype metainfo_error =
    MetainfoBencode bencode_error
  | MissingInfo
  | Unsupported
  | InvalidField string

definition saturating_mul_usize :: "nat \<Rightarrow> nat \<Rightarrow> nat" where
  "saturating_mul_usize a b = min (a * b) usize_max"

text \<open>
  The checks of \<open>torrent_identity\<close> on the entries of the \<open>info\<close> dictionary: the kind and the two
  flags that select the digests.
\<close>

definition classify_info :: "entries \<Rightarrow> metainfo_error + torrent_kind \<times> bool \<times> bool" where
  "classify_info info_entries =
    and_then (ok_or (case integer_field info_entries (ascii ''piece length'') of
          None \<Rightarrow> None | Some len \<Rightarrow> if 0 < len then Some len else None)
        (InvalidField ''piece length'')) (\<lambda>piece_length.
    let v1_pieces = bytes_field info_entries (ascii ''pieces'');
        v1_length = v1_payload_length info_entries;
        expected_v1_pieces = Option.bind v1_length (\<lambda>len.
          Option.bind (u64_of_i64 piece_length) (\<lambda>piece_length.
          let count = div_ceil len piece_length in
          if count \<le> usize_max then Some count else None));
        is_v1 = (case (v1_pieces, expected_v1_pieces) of
            (Some pieces, Some count) \<Rightarrow> length pieces = saturating_mul_usize count 20
          | _ \<Rightarrow> False);
        meta_version = integer_field info_entries (ascii ''meta version'');
        v2_length = Option.bind (Option.bind (find_entry info_entries (ascii ''file tree'')) dictionary)
          v2_tree_length;
        is_v2 = (meta_version = Some 2 \<and> v2_length \<noteq> None) in
    if meta_version \<noteq> None \<and> meta_version \<noteq> Some 2 then Inl (InvalidField ''meta version'')
    else if v1_pieces \<noteq> None \<and> \<not> is_v1 then Inl (InvalidField ''v1 pieces or file layout'')
    else if meta_version \<noteq> None \<and> \<not> is_v2 then Inl (InvalidField ''v2 file tree'')
    else if is_v1 \<and> is_v2 \<and> v1_length \<noteq> v2_length then Inl (InvalidField ''hybrid payload length'')
    else
      (case (is_v1, is_v2) of
         (True, False) \<Rightarrow> Inr (V1, is_v1, is_v2)
       | (False, True) \<Rightarrow> Inr (V2, is_v1, is_v2)
       | (True, True) \<Rightarrow> Inr (Hybrid, is_v1, is_v2)
       | (False, False) \<Rightarrow> Inl Unsupported))"

definition torrent_identity ::
  "(u8 list \<Rightarrow> u8 list) \<Rightarrow> (u8 list \<Rightarrow> u8 list) \<Rightarrow> (u8 list \<Rightarrow> str) \<Rightarrow> u8 list \<Rightarrow>
   metainfo_error + torrent_ids" where
  "torrent_identity sha1 sha256 hex_encode metainfo =
    and_then (map_err MetainfoBencode (parse_bencode metainfo)) (\<lambda>root.
    and_then (ok_or (dictionary root) MissingInfo) (\<lambda>root_entries.
    and_then (ok_or (find_entry root_entries (ascii ''info'')) MissingInfo) (\<lambda>info.
    and_then (ok_or (dictionary info) MissingInfo) (\<lambda>info_entries.
    and_then (classify_info info_entries) (\<lambda>(kind, is_v1, is_v2).
    let raw_info = input_slice metainfo (bn_start info) (bn_end info) in
    Inr \<lparr>ti_kind = kind,
         ti_btih = (if is_v1 then Some (hex_encode (sha1 raw_info)) else None),
         ti_btmh_sha256 = (if is_v2 then Some (hex_encode (sha256 raw_info)) else None)\<rparr>)))))"

section \<open>The Merkle root of a file\<close>

definition V2_BLOCK_SIZE :: nat where
  "V2_BLOCK_SIZE = 16 * 1024"

datatype merkle_error = EmptyFile

text \<open>\<open>usize::next_power_of_two\<close>, by doubling.\<close>

function next_power_from :: "nat \<Rightarrow> nat \<Rightarrow> nat" where
  "next_power_from k n = (if n \<le> 2 ^ k then 2 ^ k else next_power_from (k + 1) n)"
  by pat_completeness auto
termination
proof (relation "measure (\<lambda>(k, n). n - 2 ^ k)")
  fix k n :: nat
  assume "\<not> n \<le> 2 ^ k"
  moreover have "(2 :: nat) ^ k < 2 ^ (k + 1)" by simp
  ultimately show "((k + 1, n), (k, n)) \<in> measure (\<lambda>(k, n). n - 2 ^ k)"
    by (simp only: in_measure prod.case)
qed simp

declare next_power_from.simps [simp del]

definition next_power_of_two :: "nat \<Rightarrow> nat" where
  "next_power_of_two n = next_power_from 0 n"

text \<open>\<open>Vec::resize\<close>.\<close>

definition vec_resize :: "'a list \<Rightarrow> nat \<Rightarrow> 'a \<Rightarrow> 'a list" where
  "vec_resize xs n x = take n xs @ replicate (n - length xs) x"

text \<open>The pairs of \<open>as_chunks::<2>().0\<close>; an odd element at the end is left out.\<close>

fun hash_pairs :: "hash \<Rightarrow> bytes32 list \<Rightarrow> bytes32 list" where
  "hash_pairs sha256 (a # b # rest) = sha256 (bytes_of a @ bytes_of b) # hash_pairs sha256 rest"
| "hash_pairs sha256 _ = []"

lemma length_hash_pairs [simp]: "length (hash_pairs sha256 layer) = length layer div 2"
  by (induction sha256 layer rule: hash_pairs.induct) auto

function merkle_loop :: "hash \<Rightarrow> bytes32 list \<Rightarrow> bytes32 list" where
  "merkle_loop sha256 layer =
    (if 1 < length layer then merkle_loop sha256 (hash_pairs sha256 layer) else layer)"
  by pat_completeness auto
termination
  by (relation "measure (\<lambda>(sha256, layer). length layer)") auto

declare merkle_loop.simps [simp del]

definition v2_leaves :: "hash \<Rightarrow> u8 list \<Rightarrow> bytes32 list" where
  "v2_leaves sha256 payload = map sha256 (slice_chunks V2_BLOCK_SIZE payload)"

definition v2_file_root :: "hash \<Rightarrow> u8 list \<Rightarrow> merkle_error + bytes32" where
  "v2_file_root sha256 payload =
    (if payload = [] then Inl EmptyFile
     else
       let layer = v2_leaves sha256 payload;
           target = next_power_of_two (length layer);
           layer = vec_resize layer target (bytes32_fill 0) in
       Inr (merkle_loop sha256 layer ! 0))"

definition triptorrent_payload_id :: "hash \<Rightarrow> (u8 list \<Rightarrow> str) \<Rightarrow> u8 list \<Rightarrow> str" where
  "triptorrent_payload_id H hex_encode payload = content_id_display hex_encode (content_id_digest H payload)"

section \<open>Lookup\<close>

lemma find_entry_sorted:
  assumes "sorted_wrt (<) (map fst es)"
  shows "find_entry es k = map_of es k"
proof (cases "binary_search_by_key fst k es")
  case None
  then have "fst (es ! i) \<noteq> k" if "i < length es" for i
    using binary_search_by_key_sorted [OF assms, of k i] that by auto
  then have "k \<notin> fst ` set es" by (metis imageE in_set_conv_nth)
  then have "map_of es k = None" by (simp add: map_of_eq_None_iff)
  then show ?thesis using None by (simp add: find_entry_def)
next
  case (Some i)
  then have i: "i < length es" "fst (es ! i) = k"
    using binary_search_by_key_sorted [OF assms, of k i] by auto
  have "distinct (map fst es)" using assms strict_sorted_iff by blast
  moreover have "(k, snd (es ! i)) \<in> set es" using i by (metis nth_mem prod.collapse)
  ultimately have "map_of es k = Some (snd (es ! i))" by simp
  then show ?thesis using Some by (simp add: find_entry_def)
qed

section \<open>Offsets do not matter\<close>

abbreviation erase_entries :: "entries \<Rightarrow> entries" where
  "erase_entries es \<equiv> map (\<lambda>(k, n). (k, erase n)) es"

lemma binary_search_from_cong:
  assumes "base + len \<le> length xs" "length ys = length xs" "\<And>i. i < length xs \<Longrightarrow> f (ys ! i) = g (xs ! i)"
  shows "binary_search_from f k ys base len = binary_search_from g k xs base len"
  using assms
proof (induction f k ys base len rule: binary_search_from.induct)
  case (1 f k ys base len)
  show ?case
  proof (cases "len \<le> 1")
    case True
    then show ?thesis by (simp add: binary_search_from.simps)
  next
    case False
    let ?mid = "base + len div 2"
    have "?mid < length xs" using 1(2) False by linarith
    then have "f (ys ! ?mid) = g (xs ! ?mid)" by (rule 1(4))
    moreover have "(if k < f (ys ! ?mid) then base else ?mid) + (len - len div 2) \<le> length xs"
      using 1(2) by auto
    ultimately show ?thesis
      using 1(1) [OF False refl refl _ 1(3,4)] False
      by (simp add: binary_search_from.simps [of f k ys base len]
          binary_search_from.simps [of g k xs base len] Let_def)
  qed
qed

lemma find_entry_erase [simp]: "find_entry (erase_entries es) k = map_option erase (find_entry es k)"
proof (cases "es = []")
  case False
  let ?i = "binary_search_from fst k es 0 (length es)"
  have "binary_search_from fst k (erase_entries es) 0 (length es) = ?i"
    by (rule binary_search_from_cong) (simp_all add: case_prod_beta)
  moreover have "?i < length es" using binary_search_from_bound [of "length es" fst k es 0] False by simp
  ultimately show ?thesis
    using False by (simp add: find_entry_def binary_search_by_key_def Let_def case_prod_beta)
qed (simp add: find_entry_def binary_search_by_key_def)

lemma bn_value_erase [simp]: "bn_value (erase n) = erase_value (bn_value n)"
  by (cases n) simp

lemma dictionary_erase [simp]: "dictionary (erase n) = map_option erase_entries (dictionary n)"
  by (cases n; cases "bn_value n") (simp_all add: dictionary_def)

lemma fields_erase [simp]:
  "bytes_field (erase_entries es) k = bytes_field es k"
  "integer_field (erase_entries es) k = integer_field es k"
  by (cases "find_entry es k"; cases "bn_value (the (find_entry es k))";
      simp add: bytes_field_def integer_field_def)+

lemma nonempty_bytes_erase [simp]: "nonempty_bytes (erase n) = nonempty_bytes n"
  by (cases "bn_value n") (simp_all add: nonempty_bytes_def)

lemma v1_file_length_erase [simp]: "v1_file_length (erase f) = v1_file_length f"
proof (cases "dictionary f")
  case (Some fields)
  show ?thesis
  proof (cases "find_entry fields (ascii ''path'')")
    case (Some path)
    with \<open>dictionary f = Some fields\<close> show ?thesis
      by (cases "bn_value path") (simp_all add: v1_file_length_def list_ex_iff)
  qed (simp add: v1_file_length_def Some)
qed (simp add: v1_file_length_def)

lemma try_fold_map: "try_fold f s (map g xs) = try_fold (\<lambda>s x. f s (g x)) s xs"
  by (induction xs arbitrary: s) simp_all

lemma v1_payload_length_erase [simp]: "v1_payload_length (erase_entries es) = v1_payload_length es"
  by (auto simp: v1_payload_length_def try_fold_map split: option.splits bencode_value.splits)

lemma v2_leaf_length_erase [simp]: "v2_leaf_length (erase_entries es) = v2_leaf_length es"
  by (simp add: v2_leaf_length_def)

lemma v2_tree_length_erase [simp]:
  "v2_tree_length (erase_entries es) = v2_tree_length es"
  "v2_tree_fold acc (erase_entries es) = v2_tree_fold acc es"
proof (induction es and acc es rule: v2_tree_length_v2_tree_fold.induct)
  case (1 es)
  show ?case
  proof (cases es)
    case (Cons e r)
    have "v2_tree_length (erase_entries es) =
        (if length es = 1 \<and> fst e = [] then Option.bind (dictionary (erase (snd e))) v2_leaf_length
         else v2_tree_fold 0 (erase_entries es))"
      by (subst v2_tree_length.simps) (simp add: Cons case_prod_beta del: v2_tree_fold.simps dictionary_erase)
    also have "\<dots> = (if length es = 1 \<and> fst e = [] then Option.bind (dictionary (snd e)) v2_leaf_length
         else v2_tree_fold 0 es)"
      using 1 by (auto simp: Cons Option.bind_map_option comp_def simp del: v2_tree_fold.simps)
    also have "\<dots> = v2_tree_length es"
      by (subst v2_tree_length.simps) (simp add: Cons del: v2_tree_fold.simps)
    finally show ?thesis .
  qed (simp add: v2_tree_length.simps)
next
  case (3 acc name node rest)
  then show ?case by (auto split: option.splits)
qed simp

lemma classify_info_erase [simp]: "classify_info (erase_entries es) = classify_info es"
  by (simp add: classify_info_def Option.bind_map_option comp_def option.case_eq_if)

section \<open>The identity of a torrent\<close>

lemma located_span:
  "located p n \<Longrightarrow> bn_start n = p" "located p n \<Longrightarrow> bn_end n = p + length (encode_node n)"
  by (cases n; simp)+

lemma located_entries_slice:
  assumes "located_entries (length pre) es" "(k, n) \<in> set es"
    and "input = pre @ concat (map (\<lambda>(k, n). encode_bytes k @ encode_node n) es) @ suf"
  shows "input_slice input (bn_start n) (bn_end n) = encode_node n"
  using assms
proof (induction es arbitrary: pre)
  case (Cons e es)
  obtain k' m where e: "e = (k', m)" by (cases e)
  let ?rest = "concat (map (\<lambda>(k, n). encode_bytes k @ encode_node n) es)"
  show ?case
  proof (cases "(k, n) = (k', m)")
    case True
    then have km: "k' = k" "m = n" by auto
    have l: "located (length pre + length (encode_bytes k)) n" using Cons.prems(1) by (simp add: e km)
    have "input = (pre @ encode_bytes k) @ encode_node n @ ?rest @ suf"
      using Cons.prems(3) by (simp add: e km)
    then show ?thesis
      using located_span [OF l]
        input_slice_mid [of "pre @ encode_bytes k" "bn_start n" "bn_end n" "encode_node n" "?rest @ suf"]
      by simp
  next
    case False
    show ?thesis
    proof (rule Cons.IH)
      show "located_entries (length (pre @ encode_bytes k' @ encode_node m)) es"
        using Cons.prems(1) by (simp add: e add.assoc)
      show "(k, n) \<in> set es" using Cons.prems(2) False e by auto
      show "input = (pre @ encode_bytes k' @ encode_node m) @ ?rest @ suf"
        using Cons.prems(3) by (simp add: e)
    qed
  qed
qed simp

text \<open>The raw \<open>info\<close> bytes of a metainfo file.\<close>

definition info_node :: "u8 list \<Rightarrow> bencode_node option" where
  "info_node metainfo =
    (case parse_bencode metainfo of
       Inl _ \<Rightarrow> None
     | Inr root \<Rightarrow> Option.bind (dictionary root) (\<lambda>es. find_entry es (ascii ''info'')))"

lemma dictionary_Some_iff: "dictionary n = Some es \<longleftrightarrow> bn_value n = Dictionary es"
  by (auto simp: dictionary_def split: bencode_value.splits)

lemma dictionary_parsed:
  assumes "parse_bencode metainfo = Inr root" "dictionary root = Some es"
  shows "metainfo = encode_value (Dictionary es)" "located_entries 1 es" "sorted_wrt (<) (map fst es)"
    and "(k, n) \<in> set es \<Longrightarrow> well_formed n \<and> shallow 1 n"
    and "(k, n) \<in> set es \<Longrightarrow> node_count n \<le> MAX_BENCODE_NODES"
    and "(k, n) \<in> set es \<Longrightarrow> length (encode_node n) \<le> MAX_BENCODE_INPUT"
proof -
  have p: "length metainfo \<le> MAX_BENCODE_INPUT" "metainfo = encode_node root" "located 0 root"
    "well_formed root" "shallow 0 root" "node_count root \<le> MAX_BENCODE_NODES"
    using assms(1) by (auto simp: parse_bencode_exact)
  obtain s e where root: "root = BencodeNode (Dictionary es) s e"
    using assms(2) by (cases root) (auto simp: dictionary_Some_iff)
  show "metainfo = encode_value (Dictionary es)" "located_entries 1 es" "sorted_wrt (<) (map fst es)"
    using p by (simp_all add: root)
  assume kn: "(k, n) \<in> set es"
  then show "well_formed n \<and> shallow 1 n" using p by (auto simp: root list_all_iff)
  have "node_count n \<le> sum_list (map (\<lambda>(k, n). node_count n) es)"
    using kn by (intro member_le_sum_list) force+
  then show "node_count n \<le> MAX_BENCODE_NODES" using p by (simp add: root)
  have "length (encode_bytes k @ encode_node n)
      \<le> sum_list (map length (map (\<lambda>(k, n). encode_bytes k @ encode_node n) es))"
    using kn by (intro member_le_sum_list) force+
  then show "length (encode_node n) \<le> MAX_BENCODE_INPUT"
    using p by (simp add: root length_concat)
qed

lemma info_node_parsed:
  assumes "info_node metainfo = Some info"
  obtains es where "metainfo = encode_value (Dictionary es)" "map_of es (ascii ''info'') = Some info"
    and "input_slice metainfo (bn_start info) (bn_end info) = encode_node info"
    and "well_formed info" "shallow 0 info" "node_count info \<le> MAX_BENCODE_NODES"
    and "length (encode_node info) \<le> MAX_BENCODE_INPUT"
proof -
  obtain root es where r: "parse_bencode metainfo = Inr root" "dictionary root = Some es"
    "find_entry es (ascii ''info'') = Some info"
    using assms by (auto simp: info_node_def bind_eq_Some_conv split: sum.splits)
  note d = dictionary_parsed [OF r(1,2)]
  have m: "map_of es (ascii ''info'') = Some info" using r(3) find_entry_sorted [OF d(3)] by simp
  then have i: "(ascii ''info'', info) \<in> set es" by (rule map_of_SomeD)
  have "input_slice metainfo (bn_start info) (bn_end info) = encode_node info"
    by (rule located_entries_slice [where pre = "[100]" and suf = "[101]", OF _ i])
       (use d(1,2) in simp_all)
  then show thesis using that d(1) m d(4) [OF i] d(5) [OF i] d(6) [OF i] shallow_mono(2) by auto
qed

lemma torrent_identity_info:
  "torrent_identity sha1 sha256 hex_encode metainfo =
    (case info_node metainfo of
       None \<Rightarrow> (case parse_bencode metainfo of Inl e \<Rightarrow> Inl (MetainfoBencode e) | Inr _ \<Rightarrow> Inl MissingInfo)
     | Some info \<Rightarrow>
         and_then (ok_or (dictionary info) MissingInfo) (\<lambda>es.
         and_then (classify_info es) (\<lambda>(kind, is_v1, is_v2).
         Inr \<lparr>ti_kind = kind,
              ti_btih = (if is_v1 then Some (hex_encode (sha1 (encode_node info))) else None),
              ti_btmh_sha256 = (if is_v2 then Some (hex_encode (sha256 (encode_node info))) else None)\<rparr>)))"
proof (cases "info_node metainfo")
  case None
  then show ?thesis
    by (cases "parse_bencode metainfo"; cases "dictionary (projr (parse_bencode metainfo))")
       (auto simp: torrent_identity_def info_node_def)
next
  case (Some info)
  have "input_slice metainfo (bn_start info) (bn_end info) = encode_node info"
    using Some by (rule info_node_parsed)
  moreover obtain root es where "parse_bencode metainfo = Inr root" "dictionary root = Some es"
    "find_entry es (ascii ''info'') = Some info"
    using Some by (auto simp: info_node_def bind_eq_Some_conv split: sum.splits)
  ultimately show ?thesis by (simp add: torrent_identity_def Some Let_def cong: if_cong)
qed

section \<open>Payload totals\<close>

text \<open>
  The lengths of the files below a BEP 52 tree, without the running total of the code: a leaf is the
  single empty name, every other level has only nonempty names.
\<close>

inductive file_tree :: "entries \<Rightarrow> nat list \<Rightarrow> bool"
and file_forest :: "entries \<Rightarrow> nat list \<Rightarrow> bool"
where
  leaf: "dictionary node = Some dict \<Longrightarrow> v2_leaf_length dict = Some len \<Longrightarrow> file_tree [([], node)] [len]"
| branch: "es \<noteq> [] \<Longrightarrow> file_forest es lens \<Longrightarrow> file_tree es lens"
| empty: "file_forest [] []"
| child: "name \<noteq> [] \<Longrightarrow> dictionary node = Some dict \<Longrightarrow> file_tree dict lens \<Longrightarrow>
    file_forest es lens' \<Longrightarrow> file_forest ((name, node) # es) (lens @ lens')"

inductive_cases file_forest_ConsE: "file_forest ((name, node) # es) lens"

lemma v2_tree_length_sound:
  "v2_tree_length es = Some n \<Longrightarrow> \<exists>lens. file_tree es lens \<and> sum_list lens = n"
  "v2_tree_fold acc es = Some n \<Longrightarrow>
    \<exists>lens. file_forest es lens \<and> acc + sum_list lens = n \<and> (es \<noteq> [] \<longrightarrow> n \<le> u64_max)"
proof (induction es and acc es arbitrary: n and n rule: v2_tree_length_v2_tree_fold.induct)
  case (1 es)
  show ?case
  proof (cases "es = [] \<or> length es = 1 \<and> fst (es ! 0) = []")
    case True
    then obtain node where es: "es = [([], node)]"
      using 1(2) by (cases es) (auto simp: v2_tree_length.simps)
    then obtain dict where "dictionary node = Some dict" "v2_leaf_length dict = Some n"
      using 1(2) by (auto simp: v2_tree_length.simps bind_eq_Some_conv)
    then show ?thesis using es by (auto intro!: exI [of _ "[n]"] file_tree_file_forest.leaf)
  next
    case False
    then have "v2_tree_fold 0 es = Some n" using 1(2) by (auto simp: v2_tree_length.simps split: if_splits)
    then show ?thesis using 1(1) False by (auto intro: file_tree_file_forest.branch)
  qed
next
  case (3 acc name node rest)
  then obtain dict len acc' where f: "name \<noteq> []" "dictionary node = Some dict"
    "v2_tree_length dict = Some len" "checked_add_u64 acc len = Some acc'" "v2_tree_fold acc' rest = Some n"
    by (auto split: if_splits option.splits)
  have acc: "acc' = acc + len" "acc' \<le> u64_max" using f(4) by (auto simp: checked_add_u64_def split: if_splits)
  obtain lens where "file_tree dict lens" "sum_list lens = len" using 3(1) f by blast
  moreover obtain lens' where "file_forest rest lens'" "acc' + sum_list lens' = n"
      "rest \<noteq> [] \<longrightarrow> n \<le> u64_max" using 3(2) f by blast
  ultimately have "file_forest ((name, node) # rest) (lens @ lens')" "acc + sum_list (lens @ lens') = n"
    using f acc by (auto intro: file_tree_file_forest.child)
  moreover have "n \<le> u64_max" using acc f(5) \<open>rest \<noteq> [] \<longrightarrow> n \<le> u64_max\<close> by (cases rest) auto
  ultimately show ?case by blast
qed (auto intro: file_tree_file_forest.empty)

lemma file_tree_cases:
  assumes "file_tree es lens"
  obtains (leaf) node dict len where "es = [([], node)]" "lens = [len]" "dictionary node = Some dict"
      "v2_leaf_length dict = Some len"
  | (branch) "es \<noteq> []" "file_forest es lens" "\<not> (length es = 1 \<and> fst (es ! 0) = [])"
proof -
  consider node dict len where "es = [([], node)]" "lens = [len]" "dictionary node = Some dict"
      "v2_leaf_length dict = Some len"
    | "es \<noteq> []" "file_forest es lens" using assms by (cases rule: file_tree.cases) auto
  then show thesis
  proof cases
    case 2
    then have "\<not> (length es = 1 \<and> fst (es ! 0) = [])" by (cases es) (auto elim: file_forest_ConsE)
    then show thesis using 2 branch by blast
  qed (rule leaf)
qed

lemma v2_tree_length_complete:
  "file_tree es lens \<Longrightarrow> sum_list lens \<le> u64_max \<Longrightarrow> v2_tree_length es = Some (sum_list lens)"
  "file_forest es lens \<Longrightarrow> acc + sum_list lens \<le> u64_max \<Longrightarrow> v2_tree_fold acc es = Some (acc + sum_list lens)"
proof (induction es and acc es arbitrary: lens and lens rule: v2_tree_length_v2_tree_fold.induct)
  case (1 es)
  from 1(2) show ?case
  proof (cases rule: file_tree_cases)
    case leaf
    then show ?thesis by (simp add: v2_tree_length.simps)
  next
    case branch
    then show ?thesis using 1(1) [of lens] 1(3) by (auto simp: v2_tree_length.simps)
  qed
next
  case (2 acc)
  then show ?case by (auto elim: file_forest.cases)
next
  case (3 acc name node rest)
  from 3(3) obtain dict ls ls' where f: "name \<noteq> []" "dictionary node = Some dict"
    "file_tree dict ls" "file_forest rest ls'" "lens = ls @ ls'" by (elim file_forest_ConsE) blast
  have "v2_tree_length dict = Some (sum_list ls)" using 3(1) f 3(4) by auto
  moreover have "checked_add_u64 acc (sum_list ls) = Some (acc + sum_list ls)"
    using 3(4) f(5) by (simp add: checked_add_u64_def)
  moreover have "v2_tree_fold (acc + sum_list ls) rest = Some (acc + sum_list ls + sum_list ls')"
    using 3(2) f calculation 3(4) by (auto simp: add.assoc)
  ultimately show ?case using f by (simp add: add.assoc)
qed

lemma find_entry_member:
  assumes "find_entry es k = Some n"
  shows "(k, n) \<in> set es"
proof -
  obtain i where i: "binary_search_by_key fst k es = Some i" "n = snd (es ! i)"
    using assms by (auto simp: find_entry_def)
  have "es \<noteq> []" "i = binary_search_from fst k es 0 (length es)" "fst (es ! i) = k"
    using i(1) by (auto simp: binary_search_by_key_def Let_def split: if_splits)
  moreover have "i < length es"
    using calculation binary_search_from_bound [of "length es" fst k es 0] by simp
  ultimately show ?thesis using i(2) by (metis nth_mem prod.collapse)
qed

lemma integer_field_Some_iff:
  "integer_field es k = Some v \<longleftrightarrow> (\<exists>n. find_entry es k = Some n \<and> bn_value n = Integer v)"
  by (cases "find_entry es k"; cases "bn_value (the (find_entry es k))") (auto simp: integer_field_def)

lemma checked_add_u64_Some_iff: "checked_add_u64 a b = Some c \<longleftrightarrow> c = a + b \<and> c \<le> u64_max"
  by (auto simp: checked_add_u64_def)

lemma bytes_field_Some_iff:
  "bytes_field es k = Some bs \<longleftrightarrow> (\<exists>n. find_entry es k = Some n \<and> bn_value n = Bytes bs)"
  by (cases "find_entry es k"; cases "bn_value (the (find_entry es k))") (auto simp: bytes_field_def)

lemma bytes_field_length:
  assumes "bytes_field es k = Some bs" "dictionary n = Some es"
  shows "length bs < length (encode_node n)"
proof -
  obtain m where m: "(k, m) \<in> set es" "bn_value m = Bytes bs"
    using assms(1) find_entry_member by (auto simp: bytes_field_Some_iff)
  have "length (encode_bytes k @ encode_node m)
      \<le> sum_list (map length (map (\<lambda>(k, n). encode_bytes k @ encode_node n) es))"
    using m(1) by (intro member_le_sum_list) force+
  moreover have "length bs \<le> length (encode_node m)"
    using m(2) by (cases m) (simp add: encode_bytes_def)
  moreover obtain s e where "n = BencodeNode (Dictionary es) s e"
    using assms(2) by (cases n) (auto simp: dictionary_Some_iff)
  ultimately show ?thesis by (simp add: length_concat)
qed

lemma integer_field_range:
  assumes "integer_field es k = Some v" "list_all (\<lambda>(k, n). well_formed n) es"
  shows "i64_range v"
proof -
  obtain n where n: "find_entry es k = Some n" "bn_value n = Integer v"
    using assms(1) by (auto simp: integer_field_Some_iff)
  then have "well_formed n" using find_entry_member [OF n(1)] assms(2) by (auto simp: list_all_iff)
  then show ?thesis using n(2) by (cases n) auto
qed

lemma well_formed_dictionary:
  "well_formed n \<Longrightarrow> dictionary n = Some es \<Longrightarrow>
   list_all (\<lambda>(k, n). well_formed n) es \<and> sorted_wrt (<) (map fst es)"
  by (cases n) (auto simp: dictionary_Some_iff)

lemma v2_tree_length_bound:
  assumes "v2_tree_length es = Some n" "list_all (\<lambda>(k, n). well_formed n) es"
  shows "n \<le> u64_max"
proof (cases "length es = 1 \<and> fst (es ! 0) = []")
  case True
  then obtain node where es: "es = [([], node)]" by (cases es) auto
  then obtain dict where d: "dictionary node = Some dict" "v2_leaf_length dict = Some n"
    using assms(1) by (auto simp: v2_tree_length.simps bind_eq_Some_conv)
  then obtain v where "integer_field dict (ascii ''length'') = Some v" "0 \<le> v" "n = nat v"
    by (auto simp: v2_leaf_length_def bind_eq_Some_conv u64_of_i64_def split: if_splits)
  moreover have "list_all (\<lambda>(k, n). well_formed n) dict"
    using d(1) assms(2) es well_formed_dictionary by auto
  ultimately have "i64_range v" using integer_field_range by blast
  then show ?thesis using \<open>n = nat v\<close> \<open>0 \<le> v\<close> by (auto simp: i64_range_def u64_max_def nat_le_iff)
next
  case False
  then have "v2_tree_fold 0 es = Some n" "es \<noteq> []"
    using assms(1) by (auto simp: v2_tree_length.simps split: if_splits)
  then show ?thesis using v2_tree_length_sound(2) by blast
qed

text \<open>The files of a BEP 3 torrent: one length, or a nonempty list of files with nonempty paths.\<close>

definition v1_files :: "entries \<Rightarrow> nat list \<Rightarrow> bool" where
  "v1_files dict lens \<longleftrightarrow>
    (\<exists>n v. find_entry dict (ascii ''length'') = Some n \<and> find_entry dict (ascii ''files'') = None
        \<and> bn_value n = Integer v \<and> 0 \<le> v \<and> lens = [nat v])
    \<or> (\<exists>n fs. find_entry dict (ascii ''length'') = None \<and> find_entry dict (ascii ''files'') = Some n
        \<and> bn_value n = BList fs \<and> fs \<noteq> [] \<and> list_all2 (\<lambda>f len. v1_file_length f = Some len) fs lens)"

lemma try_fold_sum:
  "try_fold (\<lambda>acc x. Option.bind (g x) (checked_add_u64 acc)) acc xs = Some n \<Longrightarrow>
    \<exists>ls. list_all2 (\<lambda>x l. g x = Some l) xs ls \<and> n = acc + sum_list ls"
proof (induction xs arbitrary: acc)
  case (Cons x xs)
  then obtain l where l: "g x = Some l"
    "try_fold (\<lambda>acc x. Option.bind (g x) (checked_add_u64 acc)) (acc + l) xs = Some n"
    by (auto simp: bind_eq_Some_conv checked_add_u64_Some_iff)
  then obtain ls where "list_all2 (\<lambda>x l. g x = Some l) xs ls" "n = acc + l + sum_list ls"
    using Cons.IH by blast
  then show ?case using l(1) by (intro exI [of _ "l # ls"]) simp
qed simp

lemma v1_payload_length_files:
  "v1_payload_length dict = Some n \<Longrightarrow> \<exists>lens. v1_files dict lens \<and> sum_list lens = n"
  by (auto simp: v1_payload_length_def v1_files_def u64_of_i64_def
      split: option.splits bencode_value.splits if_splits dest!: try_fold_sum)

text \<open>What the accepted kinds promise of the \<open>info\<close> dictionary.\<close>

definition valid_layout :: "torrent_kind \<Rightarrow> entries \<Rightarrow> bool" where
  "valid_layout kind dict \<longleftrightarrow>
    (\<exists>piece_length v1_total v2_total.
      integer_field dict (ascii ''piece length'') = Some (int piece_length) \<and> 0 < piece_length
      \<and> (kind \<noteq> V2 \<longrightarrow> (\<exists>pieces lens. bytes_field dict (ascii ''pieces'') = Some pieces
            \<and> v1_files dict lens \<and> sum_list lens = v1_total
            \<and> length pieces = 20 * div_ceil v1_total piece_length))
      \<and> (kind \<noteq> V1 \<longrightarrow> integer_field dict (ascii ''meta version'') = Some 2
          \<and> (\<exists>tree lens. Option.bind (find_entry dict (ascii ''file tree'')) dictionary = Some tree
              \<and> file_tree tree lens \<and> sum_list lens = v2_total))
      \<and> (kind = Hybrid \<longrightarrow> v1_total = v2_total))"

lemma classify_info_flags:
  assumes "classify_info dict = Inr (kind, is_v1, is_v2)"
  shows "is_v1 \<longleftrightarrow> kind \<noteq> V2" "is_v2 \<longleftrightarrow> kind \<noteq> V1"
  using assms by (auto simp: classify_info_def Let_def result_iffs split: if_splits bool.splits)

lemma classify_info_layout:
  assumes "classify_info dict = Inr (kind, is_v1, is_v2)"
    and "\<And>pieces. bytes_field dict (ascii ''pieces'') = Some pieces \<Longrightarrow> length pieces < usize_max"
  shows "valid_layout kind dict"
proof -
  define v1 where "v1 = v1_payload_length dict"
  define v2 where "v2 = Option.bind (Option.bind (find_entry dict (ascii ''file tree'')) dictionary)
      v2_tree_length"
  obtain pl where pl: "integer_field dict (ascii ''piece length'') = Some pl" "0 < pl"
    using assms(1) by (auto simp: classify_info_def result_iffs split: option.splits if_splits)
  define exp where "exp = Option.bind v1 (\<lambda>len. Option.bind (u64_of_i64 pl) (\<lambda>pl.
      let count = div_ceil len pl in if count \<le> usize_max then Some count else None))"
  define is1 where "is1 = (case (bytes_field dict (ascii ''pieces''), exp) of
      (Some pieces, Some count) \<Rightarrow> length pieces = saturating_mul_usize count 20 | _ \<Rightarrow> False)"
  define is2 where "is2 = (integer_field dict (ascii ''meta version'') = Some 2 \<and> v2 \<noteq> None)"
  have c: "\<not> (is1 \<and> is2 \<and> v1 \<noteq> v2)"
    "kind = (if is1 then if is2 then Hybrid else V1 else V2)" "is1 \<or> is2"
    using assms(1) pl
    unfolding classify_info_def Let_def v1_def [symmetric] v2_def [symmetric]
    by (auto simp: exp_def [unfolded Let_def, symmetric] is1_def is2_def split: if_splits bool.splits)
  have one: "\<exists>pieces n. bytes_field dict (ascii ''pieces'') = Some pieces \<and> v1 = Some n
      \<and> length pieces = 20 * div_ceil n (nat pl)" if v: is1
  proof -
    obtain pieces n where n: "bytes_field dict (ascii ''pieces'') = Some pieces" "v1 = Some n"
      "length pieces = saturating_mul_usize (div_ceil n (nat pl)) 20"
      using v pl(2)
      by (auto simp: is1_def exp_def Let_def u64_of_i64_def bind_eq_Some_conv split: option.splits if_splits)
    then show ?thesis using assms(2) [OF n(1)] by (auto simp: saturating_mul_usize_def min_def split: if_splits)
  qed
  have two: "\<exists>tree lens n. Option.bind (find_entry dict (ascii ''file tree'')) dictionary = Some tree
      \<and> file_tree tree lens \<and> sum_list lens = n \<and> v2 = Some n" if is2
    using that v2_tree_length_sound(1) by (auto simp: is2_def v2_def bind_eq_Some_conv) blast
  show ?thesis
    unfolding valid_layout_def
  proof (rule exI [of _ "nat pl"], rule exI [of _ "the v1"], rule exI [of _ "the v2"], intro conjI impI)
    show "integer_field dict (ascii ''piece length'') = Some (int (nat pl))" "0 < nat pl"
      using pl by auto
    show "\<exists>pieces lens. bytes_field dict (ascii ''pieces'') = Some pieces \<and> v1_files dict lens
        \<and> sum_list lens = the v1 \<and> length pieces = 20 * div_ceil (the v1) (nat pl)" if "kind \<noteq> V2"
      using that c(2) one v1_payload_length_files [of dict] by (fastforce simp: v1_def split: if_splits)
    show "integer_field dict (ascii ''meta version'') = Some 2" if "kind \<noteq> V1"
      using that c(2,3) by (auto simp: is2_def split: if_splits)
    show "\<exists>tree lens. Option.bind (find_entry dict (ascii ''file tree'')) dictionary = Some tree
        \<and> file_tree tree lens \<and> sum_list lens = the v2" if "kind \<noteq> V1"
      using that c(2,3) two by (fastforce split: if_splits)
    show "the v1 = the v2" if "kind = Hybrid" using that c(1,2) by (auto split: if_splits)
  qed
qed

section \<open>A sample torrent\<close>

text \<open>A single-file torrent of three bytes in pieces of two, alone and with a comment.\<close>

definition sample_info :: bencode_node where
  "sample_info = BencodeNode (Dictionary
    [(ascii ''length'', BencodeNode (Integer 3) 0 0),
     (ascii ''piece length'', BencodeNode (Integer 2) 0 0),
     (ascii ''pieces'', BencodeNode (Bytes (replicate 40 7)) 0 0)]) 0 0"

definition sample_torrent :: bencode_node where
  "sample_torrent = BencodeNode (Dictionary [(ascii ''info'', sample_info)]) 0 0"

definition sample_announced :: bencode_node where
  "sample_announced = BencodeNode (Dictionary
    [(ascii ''comment'', BencodeNode (Bytes [1, 2]) 0 0), (ascii ''info'', sample_info)]) 0 0"

lemma sample_wf:
  "well_formed sample_info" "well_formed sample_torrent" "well_formed sample_announced"
  "shallow 0 sample_torrent" "shallow 0 sample_announced"
  "node_count sample_torrent \<le> MAX_BENCODE_NODES" "node_count sample_announced \<le> MAX_BENCODE_NODES"
  "length (encode_node sample_torrent) \<le> MAX_BENCODE_INPUT"
  "length (encode_node sample_announced) \<le> MAX_BENCODE_INPUT"
  by (simp_all add: sample_info_def sample_torrent_def sample_announced_def i64_range_def ascii_def
      MAX_BENCODE_NODES_def MAX_BENCODE_DEPTH_def MAX_BENCODE_INPUT_def encode_bytes_def
      decimal_int_def decimal.simps)

lemma sample_keys: "sorted_wrt (<) (map fst (the (dictionary sample_info)))"
  "sorted_wrt (<) (map fst (the (dictionary sample_torrent)))"
  "sorted_wrt (<) (map fst (the (dictionary sample_announced)))"
  by (simp_all add: sample_info_def sample_torrent_def sample_announced_def dictionary_def ascii_def)

lemma sample_find:
  defines "es \<equiv> the (dictionary sample_info)"
  shows "find_entry es (ascii ''length'') = Some (BencodeNode (Integer 3) 0 0)"
    and "find_entry es (ascii ''files'') = None" and "find_entry es (ascii ''meta version'') = None"
    and "find_entry es (ascii ''file tree'') = None"
    and "find_entry es (ascii ''piece length'') = Some (BencodeNode (Integer 2) 0 0)"
    and "find_entry es (ascii ''pieces'') = Some (BencodeNode (Bytes (replicate 40 7)) 0 0)"
  unfolding es_def find_entry_sorted [OF sample_keys(1)]
  by (simp_all add: sample_info_def dictionary_def ascii_def)

lemma sample_info_nodes:
  "info_node (encode_node sample_torrent) = Some (relocate 7 sample_info)"
  "info_node (encode_node sample_announced) = Some (relocate 20 sample_info)"
proof -
  have n: "ascii ''comment'' \<noteq> ascii ''info''" by (simp add: ascii_def)
  have "dictionary (relocate 0 sample_torrent) = Some [(ascii ''info'', relocate 7 sample_info)]"
    by (simp add: sample_torrent_def dictionary_def encode_bytes_def decimal.simps ascii_def eval_nat_numeral)
  moreover have "find_entry [(ascii ''info'', relocate 7 sample_info)] (ascii ''info'')
      = Some (relocate 7 sample_info)"
    by (subst find_entry_sorted) simp_all
  ultimately show "info_node (encode_node sample_torrent) = Some (relocate 7 sample_info)"
    by (simp add: info_node_def parse_bencode_encode sample_wf)
  have "\<exists>c. dictionary (relocate 0 sample_announced)
      = Some [(ascii ''comment'', c), (ascii ''info'', relocate 20 sample_info)]"
    by (simp add: sample_announced_def dictionary_def encode_bytes_def decimal.simps ascii_def eval_nat_numeral)
  then obtain c where "dictionary (relocate 0 sample_announced)
      = Some [(ascii ''comment'', c), (ascii ''info'', relocate 20 sample_info)]" by blast
  moreover have "find_entry [(ascii ''comment'', c), (ascii ''info'', relocate 20 sample_info)] (ascii ''info'')
      = Some (relocate 20 sample_info)"
    by (subst find_entry_sorted) (simp_all add: n [symmetric], simp add: ascii_def)
  ultimately show "info_node (encode_node sample_announced) = Some (relocate 20 sample_info)"
    by (simp add: info_node_def parse_bencode_encode sample_wf)
qed

lemma sample_classify:
  assumes "dictionary (relocate p sample_info) = Some es"
  shows "classify_info es = Inr (V1, True, False)"
proof -
  have er: "erase sample_info = sample_info" by (simp add: sample_info_def)
  have "map_option erase_entries (dictionary (relocate p sample_info)) = dictionary sample_info"
    using dictionary_erase [of "relocate p sample_info"] er by simp
  then have "erase_entries es = the (dictionary sample_info)"
    using assms by (metis option.map_sel option.sel option.distinct(1))
  then have "classify_info es = classify_info (the (dictionary sample_info))"
    using classify_info_erase [of es] by simp
  also have "\<dots> = Inr (V1, True, False)"
    by (simp add: classify_info_def integer_field_def bytes_field_def v1_payload_length_def sample_find
        Let_def u64_of_i64_def div_ceil_def usize_max_def saturating_mul_usize_def)
  finally show ?thesis .
qed

lemma sample_identity:
  "torrent_identity (take 20) (take 32) id (encode_node sample_torrent)
    = Inr \<lparr>ti_kind = V1, ti_btih = Some (take 20 (encode_node sample_info)), ti_btmh_sha256 = None\<rparr>"
proof -
  obtain es where es: "dictionary (relocate 7 sample_info) = Some es"
    by (auto simp: sample_info_def dictionary_def)
  then show ?thesis by (simp add: torrent_identity_info sample_info_nodes sample_classify)
qed

section \<open>The properties of the identity\<close>



text \<open>
  The \<open>info\<close> bytes alone decide the identity: two metainfo files whose \<open>info\<close> values have the
  same bytes get the same aliases, or the same error, wherever the value stands in the file and
  whatever else (trackers, comments, signatures) the files contain.
\<close>

theorem info_bytes_determine_identity:
  assumes "info_node m = Some i" and "info_node m' = Some i'"
    and "input_slice m (bn_start i) (bn_end i) = input_slice m' (bn_start i') (bn_end i')"
  shows "torrent_identity sha1 sha256 hex_encode m = torrent_identity sha1 sha256 hex_encode m'"
proof -
  obtain es where i: "input_slice m (bn_start i) (bn_end i) = encode_node i" "well_formed i" "shallow 0 i"
    "node_count i \<le> MAX_BENCODE_NODES" "length (encode_node i) \<le> MAX_BENCODE_INPUT"
    using assms(1) by (rule info_node_parsed)
  obtain es' where i': "input_slice m' (bn_start i') (bn_end i') = encode_node i'" "well_formed i'"
    "shallow 0 i'" "node_count i' \<le> MAX_BENCODE_NODES"
    using assms(2) by (rule info_node_parsed)
  have e: "encode_node i = encode_node i'" using assms(3) i(1) i'(1) by simp
  have er: "erase i = erase i'" by (rule encode_node_inject [OF e i(5,2,3,4) i'(2,3,4)])
  have "map_option erase_entries (dictionary i) = map_option erase_entries (dictionary i')"
    using arg_cong [OF er, of dictionary] by simp
  then have "map_option classify_info (map_option erase_entries (dictionary i))
      = map_option classify_info (map_option erase_entries (dictionary i'))" by (rule arg_cong)
  then have "map_option classify_info (dictionary i) = map_option classify_info (dictionary i')"
    by (simp add: option.map_comp comp_def)
  then have "and_then (ok_or (dictionary i) MissingInfo) classify_info
      = and_then (ok_or (dictionary i') MissingInfo) classify_info"
    by (cases "dictionary i"; cases "dictionary i'"; simp)
  then have "and_then (and_then (ok_or (dictionary i) MissingInfo) classify_info) f
      = and_then (and_then (ok_or (dictionary i') MissingInfo) classify_info) f"
    for f :: "torrent_kind \<times> bool \<times> bool \<Rightarrow> metainfo_error + torrent_ids" by simp
  then show ?thesis
    using assms(1,2) e by (simp add: torrent_identity_info and_then_assoc cong: if_cong)
qed

theorem info_bytes_determine_identity_witness:
  "torrent_identity (take 20) (take 32) id (encode_node sample_announced)
    = Inr \<lparr>ti_kind = V1, ti_btih = Some (take 20 (encode_node sample_info)), ti_btmh_sha256 = None\<rparr>"
proof -
  have "input_slice (encode_node sample_torrent) (bn_start (relocate 7 sample_info)) (bn_end (relocate 7 sample_info))
      = encode_node (relocate 7 sample_info)"
    by (rule info_node_parsed [OF sample_info_nodes(1)])
  moreover have "input_slice (encode_node sample_announced) (bn_start (relocate 20 sample_info))
      (bn_end (relocate 20 sample_info)) = encode_node (relocate 20 sample_info)"
    by (rule info_node_parsed [OF sample_info_nodes(2)])
  ultimately show ?thesis
    using info_bytes_determine_identity [OF sample_info_nodes, of "take 20" "take 32" id] sample_identity
    by simp
qed

section \<open>Merkle trees\<close>

text \<open>The reference: the root of a perfect tree over \<open>2 ^ k\<close> leaves.\<close>

fun merkle_root :: "hash \<Rightarrow> nat \<Rightarrow> bytes32 list \<Rightarrow> bytes32" where
  "merkle_root sha256 0 leaves = leaves ! 0"
| "merkle_root sha256 (Suc k) leaves =
    sha256 (bytes_of (merkle_root sha256 k (take (2 ^ k) leaves))
      @ bytes_of (merkle_root sha256 k (drop (2 ^ k) leaves)))"

lemma next_power_from_exp: "\<exists>j. next_power_from k n = 2 ^ j"
proof (induction k n rule: next_power_from.induct)
  case (1 k n)
  then show ?case by (subst next_power_from.simps) auto
qed

lemma next_power_from_ge: "n \<le> next_power_from k n"
proof (induction k n rule: next_power_from.induct)
  case (1 k n)
  then show ?case by (subst next_power_from.simps) auto
qed

lemma next_power_from_lt: "0 < n \<Longrightarrow> k = 0 \<or> 2 ^ k < 2 * n \<Longrightarrow> next_power_from k n < 2 * n"
proof (induction k n rule: next_power_from.induct)
  case (1 k n)
  then show ?case by (subst next_power_from.simps) auto
qed

lemma hash_pairs_append:
  "even (length xs) \<Longrightarrow> hash_pairs sha256 (xs @ ys) = hash_pairs sha256 xs @ hash_pairs sha256 ys"
  by (induction sha256 xs rule: hash_pairs.induct) auto

lemma merkle_root_hash_pairs:
  "length leaves = 2 ^ Suc k \<Longrightarrow> merkle_root sha256 k (hash_pairs sha256 leaves) = merkle_root sha256 (Suc k) leaves"
proof (induction k arbitrary: leaves)
  case 0
  then obtain a b where "leaves = [a, b]" by (auto simp: length_Suc_conv numeral_2_eq_2)
  then show ?case by simp
next
  case (Suc k)
  let ?l = "take (2 ^ Suc k) leaves" and ?r = "drop (2 ^ Suc k) leaves"
  have len: "length ?l = 2 ^ Suc k" "length ?r = 2 ^ Suc k" using Suc.prems by simp_all
  have "hash_pairs sha256 leaves = hash_pairs sha256 (?l @ ?r)" by simp
  also have "\<dots> = hash_pairs sha256 ?l @ hash_pairs sha256 ?r"
    using len by (intro hash_pairs_append) simp
  finally have "take (2 ^ k) (hash_pairs sha256 leaves) = hash_pairs sha256 ?l"
    "drop (2 ^ k) (hash_pairs sha256 leaves) = hash_pairs sha256 ?r"
    using len by simp_all
  then show ?case using Suc.IH [OF len(1)] Suc.IH [OF len(2)] by (simp only: merkle_root.simps)
qed

lemma merkle_loop_root: "length leaves = 2 ^ k \<Longrightarrow> merkle_loop sha256 leaves = [merkle_root sha256 k leaves]"
proof (induction k arbitrary: leaves)
  case 0
  then show ?case by (cases leaves) (auto simp: merkle_loop.simps)
next
  case (Suc k)
  then have "merkle_loop sha256 leaves = merkle_loop sha256 (hash_pairs sha256 leaves)"
    by (subst merkle_loop.simps) (simp add: Suc_lessI)
  also have "\<dots> = [merkle_root sha256 k (hash_pairs sha256 leaves)]" using Suc by (intro Suc.IH) simp
  finally show ?case using merkle_root_hash_pairs [OF Suc.prems] by simp
qed

definition padded_leaves :: "hash \<Rightarrow> u8 list \<Rightarrow> bytes32 list" where
  "padded_leaves sha256 payload =
    v2_leaves sha256 payload
    @ replicate (next_power_of_two (length (v2_leaves sha256 payload)) - length (v2_leaves sha256 payload))
        (bytes32_fill 0)"

lemma vec_resize_padded:
  "vec_resize (v2_leaves sha256 payload) (next_power_of_two (length (v2_leaves sha256 payload))) (bytes32_fill 0)
    = padded_leaves sha256 payload"
  using next_power_from_ge [of "length (v2_leaves sha256 payload)" 0]
  by (simp add: vec_resize_def padded_leaves_def next_power_of_two_def)

lemma length_padded_leaves:
  "length (padded_leaves sha256 payload) = next_power_of_two (div_ceil (length payload) V2_BLOCK_SIZE)"
  using next_power_from_ge [of "length (v2_leaves sha256 payload)" 0]
  by (simp add: padded_leaves_def next_power_of_two_def v2_leaves_def length_slice_chunks V2_BLOCK_SIZE_def)

lemma v2_file_root_eq:
  assumes "payload \<noteq> []"
  obtains k where "length (padded_leaves sha256 payload) = 2 ^ k"
    and "v2_file_root sha256 payload = Inr (merkle_root sha256 k (padded_leaves sha256 payload))"
proof -
  obtain k where "next_power_of_two (div_ceil (length payload) V2_BLOCK_SIZE) = 2 ^ k"
    using next_power_from_exp by (auto simp: next_power_of_two_def)
  then have k: "length (padded_leaves sha256 payload) = 2 ^ k" by (simp add: length_padded_leaves)
  then show thesis
    using that assms merkle_loop_root [OF k] by (simp add: v2_file_root_def Let_def vec_resize_padded)
qed

text \<open>The strings the loop hashes above a layer, and all that are hashed for a payload.\<close>

fun pair_strings :: "bytes32 list \<Rightarrow> u8 list list" where
  "pair_strings (a # b # rest) = (bytes_of a @ bytes_of b) # pair_strings rest"
| "pair_strings _ = []"

function hashed_nodes :: "hash \<Rightarrow> bytes32 list \<Rightarrow> u8 list list" where
  "hashed_nodes sha256 layer =
    (if 1 < length layer then pair_strings layer @ hashed_nodes sha256 (hash_pairs sha256 layer) else [])"
  by pat_completeness auto
termination
  by (relation "measure (\<lambda>(sha256, layer). length layer)") auto

declare hashed_nodes.simps [simp del]

definition hashed_strings :: "hash \<Rightarrow> u8 list \<Rightarrow> u8 list set" where
  "hashed_strings sha256 payload =
    set (slice_chunks V2_BLOCK_SIZE payload) \<union> set (hashed_nodes sha256 (padded_leaves sha256 payload))"

definition collide :: "hash \<Rightarrow> u8 list set \<Rightarrow> u8 list set \<Rightarrow> bool" where
  "collide sha256 A B \<longleftrightarrow> (\<exists>x \<in> A. \<exists>y \<in> B. x \<noteq> y \<and> sha256 x = sha256 y)"

lemma collide_mono: "\<not> collide H A' B' \<Longrightarrow> A \<subseteq> A' \<Longrightarrow> B \<subseteq> B' \<Longrightarrow> \<not> collide H A B"
  by (auto simp: collide_def)

lemma map_inject_collide:
  "map f xs = map f ys \<Longrightarrow> \<not> collide f (set xs) (set ys) \<Longrightarrow> xs = ys"
proof (induction xs arbitrary: ys)
  case (Cons x xs)
  then show ?case by (cases ys) (auto simp: collide_def)
qed simp

lemma hash_pairs_map: "hash_pairs sha256 layer = map sha256 (pair_strings layer)"
  by (induction sha256 layer rule: hash_pairs.induct) auto

lemma pair_strings_inject:
  assumes "pair_strings xs = pair_strings ys" "even (length xs)" "even (length ys)"
  shows "xs = ys"
  using assms
proof (induction xs arbitrary: ys rule: pair_strings.induct)
  case (1 a b rest)
  from 1(2) obtain c d rest' where ys: "ys = c # d # rest'" by (cases ys rule: pair_strings.cases) auto
  have "bytes_of a @ bytes_of b = bytes_of c @ bytes_of d" "pair_strings rest = pair_strings rest'"
    using 1(2) ys by simp_all
  then show ?case using 1(1) [of rest'] 1(3,4) ys by (simp add: bytes_of_inject)
next
  case "2_1"
  then show ?case by (cases ys rule: pair_strings.cases) auto
qed simp

lemma merkle_loop_inject:
  assumes "merkle_loop sha256 xs = merkle_loop sha256 ys" "length xs = 2 ^ k" "length ys = 2 ^ k"
    and "\<not> collide sha256 (set (hashed_nodes sha256 xs)) (set (hashed_nodes sha256 ys))"
  shows "xs = ys"
  using assms
proof (induction k arbitrary: xs ys)
  case 0
  have "merkle_loop sha256 zs = zs" if "length zs = 2 ^ 0" for zs
    using that by (subst merkle_loop.simps) simp
  then show ?case using 0 by simp
next
  case (Suc k)
  have long: "1 < length xs" "1 < length ys" using Suc.prems(2,3) by (simp_all add: Suc_lessI)
  have nodes: "hashed_nodes sha256 zs = pair_strings zs @ hashed_nodes sha256 (hash_pairs sha256 zs)"
    if "1 < length zs" for zs using that by (subst hashed_nodes.simps) simp
  have loop: "merkle_loop sha256 zs = merkle_loop sha256 (hash_pairs sha256 zs)"
    if "1 < length zs" for zs using that by (subst merkle_loop.simps) simp
  have c: "\<not> collide sha256 (set (pair_strings xs)) (set (pair_strings ys))"
    "\<not> collide sha256 (set (hashed_nodes sha256 (hash_pairs sha256 xs)))
      (set (hashed_nodes sha256 (hash_pairs sha256 ys)))"
    using Suc.prems(4) unfolding nodes [OF long(1)] nodes [OF long(2)] by (auto simp: collide_def)
  have "hash_pairs sha256 xs = hash_pairs sha256 ys"
  proof (rule Suc.IH [OF _ _ _ c(2)])
    show "merkle_loop sha256 (hash_pairs sha256 xs) = merkle_loop sha256 (hash_pairs sha256 ys)"
      using Suc.prems(1) unfolding loop [OF long(1)] loop [OF long(2)] .
  qed (use Suc.prems(2,3) in simp_all)
  then have "pair_strings xs = pair_strings ys"
    by (rule map_inject_collide [OF _ c(1), folded hash_pairs_map])
  then show ?case by (rule pair_strings_inject) (use Suc.prems(2,3) in simp_all)
qed



end
