(* ===== verification/Node_Http.thy ===== *)
theory Node_Http
  imports Rust_Str Content
begin

text \<open>
  The loopback HTTP of the node: the daemon's \<open>read_request\<close>, \<open>write_response\<close> and
  \<open>error_json\<close> (\<open>triptorrent-node/src/lib.rs\<close>) and the client's \<open>request\<close>
  (\<open>triptorrent-node-api/src/lib.rs\<close>).  A connection is the list of the results of its \<open>read\<close>
  calls; JSON text is the parameter pair \<open>json_text\<close> of the \<open>serde_json\<close> crate.
\<close>

section \<open>Text\<close>

text \<open>The bytes of each character, in order.\<close>

function char_seqs :: "str \<Rightarrow> str list" where
  "char_seqs [] = []"
| "char_seqs (b # bs) =
    (let n = (if b < 0x80 then 0 else if b < 0xE0 then 1 else if b < 0xF0 then 2 else 3) in
     (b # take n bs) # char_seqs (drop n bs))"
  by pat_completeness auto
termination
  by (relation "measure length") auto

text \<open>\<open>char::is_whitespace\<close>: the Unicode property White_Space.\<close>

definition is_whitespace :: "nat \<Rightarrow> bool" where
  "is_whitespace c \<longleftrightarrow>
    0x9 \<le> c \<and> c \<le> 0xD \<or> c \<in> {0x20, 0x85, 0xA0, 0x1680, 0x2028, 0x2029, 0x202F, 0x205F, 0x3000}
    \<or> 0x2000 \<le> c \<and> c \<le> 0x200A"

definition white :: "str \<Rightarrow> bool" where
  "white s \<longleftrightarrow> is_whitespace (hd (chars s))"

text \<open>\<open>str::split_whitespace\<close> and \<open>str::trim\<close>.\<close>

fun split_words :: "str \<Rightarrow> str list \<Rightarrow> str list" where
  "split_words cur [] = (if cur = [] then [] else [cur])"
| "split_words cur (s # ss) =
    (if white s then (if cur = [] then split_words [] ss else cur # split_words [] ss)
     else split_words (cur @ s) ss)"

definition split_whitespace :: "str \<Rightarrow> str list" where
  "split_whitespace t = split_words [] (char_seqs t)"

definition trim :: "str \<Rightarrow> str" where
  "trim t = concat (rev (dropWhile white (rev (dropWhile white (char_seqs t)))))"

text \<open>\<open>str::split\<close> on the two-character pattern CR LF.\<close>

fun split_crlf :: "str \<Rightarrow> str list" where
  "split_crlf [] = [[]]"
| "split_crlf [b] = [[b]]"
| "split_crlf (b # c # bs) =
    (if b = 13 \<and> c = 10 then [] # split_crlf bs
     else case split_crlf (c # bs) of [] \<Rightarrow> [[b]] | line # lines \<Rightarrow> (b # line) # lines)"

text \<open>\<open>windows(n).position(..)\<close>; both crates define this function.\<close>

definition windows :: "nat \<Rightarrow> 'a list \<Rightarrow> 'a list list" where
  "windows n xs = map (\<lambda>i. take n (drop i xs)) [0..<length xs + 1 - n]"

definition find_subslice :: "u8 list \<Rightarrow> u8 list \<Rightarrow> nat option" where
  "find_subslice haystack needle = position_of (\<lambda>window. window = needle) (windows (length needle) haystack)"

definition crlf :: str where
  "crlf = [13, 10]"

section \<open>JSON\<close>

text \<open>\<open>serde_json::Value\<close>; a number that is not an integer is its literal.\<close>

datatype json =
    JNull
  | JBool bool
  | JNumber int
  | JFloat str
  | JString str
  | JArray "json list"
  | JObject "(str \<times> json) list"

text \<open>\<open>to_vec\<close> and \<open>from_slice\<close> of a value.\<close>

record json_text =
  js_encode :: "json \<Rightarrow> u8 list"
  js_decode :: "u8 list \<Rightarrow> json option"

definition json_reads :: "json_text \<Rightarrow> json \<Rightarrow> bool" where
  "json_reads js v \<longleftrightarrow> js_decode js (js_encode js v) = Some v"

section \<open>Requests\<close>

definition API_MAX_REQUEST :: nat where
  "API_MAX_REQUEST = 1024 * 1024"

definition API_MAX_TARGET :: nat where
  "API_MAX_TARGET = 2048"

definition API_MAX_ERROR :: nat where
  "API_MAX_ERROR = 1024"

datatype node_error =
    NodeIo
  | NodeSql
  | NodeBail string
  | NodeText str
  | NodeContent content_error
  | NodeContentId "str parse_id_error"

text \<open>
  The result of one \<open>read\<close> into a buffer: the bytes received, or a failure.  No bytes, and the end
  of the list, are the end of the stream.
\<close>

datatype read_event = ReadChunk "u8 list" | ReadFail

record http_request =
  rq_method :: str
  rq_target :: str
  rq_authorization :: "str option"
  rq_body :: "u8 list"

fun header_loop :: "u8 list \<Rightarrow> read_event list \<Rightarrow> node_error + nat \<times> u8 list \<times> read_event list" where
  "header_loop bytes [] = Inl (NodeBail ''client closed before sending headers'')"
| "header_loop bytes (ReadFail # events) = Inl NodeIo"
| "header_loop bytes (ReadChunk buffer # events) =
    (if buffer = [] then Inl (NodeBail ''client closed before sending headers'')
     else
       let bytes = bytes @ buffer in
       if API_MAX_REQUEST < length bytes then Inl (NodeBail ''API request is too large'')
       else
         (case find_subslice bytes (crlf @ crlf) of
            Some index \<Rightarrow> Inr (index + 4, bytes, events)
          | None \<Rightarrow> header_loop bytes events))"

fun body_loop :: "nat \<Rightarrow> u8 list \<Rightarrow> read_event list \<Rightarrow> node_error + u8 list" where
  "body_loop request_end bytes events =
    (if request_end \<le> length bytes then Inr bytes
     else
       (case events of
          [] \<Rightarrow> Inl (NodeBail ''client closed before sending request body'')
        | ReadFail # events \<Rightarrow> Inl NodeIo
        | ReadChunk buffer # events \<Rightarrow>
            if buffer = [] then Inl (NodeBail ''client closed before sending request body'')
            else body_loop request_end (bytes @ buffer) events))"

declare body_loop.simps [simp del]

definition parse_request_line :: "str \<Rightarrow> node_error + str \<times> str" where
  "parse_request_line request_line =
    (case split_whitespace request_line of
       [] \<Rightarrow> Inl (NodeBail ''missing HTTP method'')
     | [method] \<Rightarrow> Inl (NodeBail ''missing HTTP target'')
     | [method, target] \<Rightarrow> Inl (NodeBail ''missing HTTP version'')
     | method # target # version # rest \<Rightarrow>
         if version \<noteq> ascii ''HTTP/1.1'' \<or> rest \<noteq> [] \<or> API_MAX_TARGET < length target
         then Inl (NodeBail ''invalid HTTP request line'')
         else Inr (method, target))"

definition eq_ignore_ascii_case :: "str \<Rightarrow> str \<Rightarrow> bool" where
  "eq_ignore_ascii_case a b \<longleftrightarrow> map to_ascii_lowercase a = map to_ascii_lowercase b"

text \<open>The loop over the header lines: the declared length, if one was seen, and the authorization.\<close>

fun header_fields ::
  "str list \<Rightarrow> nat option \<Rightarrow> str option \<Rightarrow> node_error + nat option \<times> str option" where
  "header_fields [] content_length authorization = Inr (content_length, authorization)"
| "header_fields (line # lines) content_length authorization =
    (case split_once 58 line of
       None \<Rightarrow> Inl (NodeBail ''malformed HTTP header'')
     | Some (name, v) \<Rightarrow>
         if eq_ignore_ascii_case name (ascii ''content-length'') then
           (if content_length \<noteq> None then Inl (NodeBail ''duplicate Content-Length header'')
            else
              and_then (ok_or (parse_usize (trim v)) (NodeBail ''invalid Content-Length'')) (\<lambda>n.
              header_fields lines (Some n) authorization))
         else if eq_ignore_ascii_case name (ascii ''authorization'') then
           (if authorization \<noteq> None then Inl (NodeBail ''duplicate Authorization header'')
            else header_fields lines content_length (Some (trim v)))
         else header_fields lines content_length authorization)"

definition read_request :: "read_event list \<Rightarrow> node_error + http_request" where
  "read_request events =
    and_then (header_loop [] events) (\<lambda>(header_end, bytes, events).
    and_then (if utf8 (take header_end bytes) then Inr (take header_end bytes)
              else Inl (NodeBail ''HTTP headers are not UTF-8'')) (\<lambda>headers.
    (case split_crlf headers of
       [] \<Rightarrow> Inl (NodeBail ''missing HTTP request line'')
     | request_line # lines \<Rightarrow>
         and_then (parse_request_line request_line) (\<lambda>(method, target).
         and_then (header_fields (filter (\<lambda>line. line \<noteq> []) lines) None None) (\<lambda>(content_length, authorization).
         and_then (ok_or (checked_add_usize header_end (unwrap_or content_length 0))
             (NodeBail ''HTTP request length overflow'')) (\<lambda>request_end.
         if API_MAX_REQUEST < request_end \<or> request_end < length bytes
         then Inl (NodeBail ''API request is too large'')
         else
           and_then (body_loop request_end bytes events) (\<lambda>bytes.
           if length bytes \<noteq> request_end
           then Inl (NodeBail ''trailing or pipelined request bytes are not accepted'')
           else Inr \<lparr>rq_method = method, rq_target = target, rq_authorization = authorization,
             rq_body = take (request_end - header_end) (drop header_end bytes)\<rparr>)))))))"

section \<open>Responses\<close>

definition status_reason :: "nat \<Rightarrow> string" where
  "status_reason status =
    (if status = 200 then ''OK'' else if status = 201 then ''Created''
     else if status = 202 then ''Accepted'' else if status = 400 then ''Bad Request''
     else if status = 401 then ''Unauthorized'' else if status = 403 then ''Forbidden''
     else if status = 404 then ''Not Found'' else ''Error'')"

definition write_response :: "json_text \<Rightarrow> nat \<Rightarrow> json \<Rightarrow> u8 list" where
  "write_response js status body =
    (let encoded = js_encode js body in
     ascii ''HTTP/1.1 '' @ decimal status @ ascii '' '' @ ascii (status_reason status) @ crlf
     @ ascii ''Content-Type: application/json'' @ crlf
     @ ascii ''Content-Length: '' @ decimal (length encoded) @ crlf
     @ ascii ''Connection: close'' @ crlf @ crlf @ encoded)"

text \<open>\<open>char_indices().take_while(index < API_MAX_ERROR).last()\<close>: the end of the last character that starts below the bound.\<close>

fun bounded_end :: "nat \<Rightarrow> str list \<Rightarrow> nat" where
  "bounded_end index [] = index"
| "bounded_end index (s # ss) =
    (if index < API_MAX_ERROR then bounded_end (index + length s) ss else index)"

definition bounded_message :: "str \<Rightarrow> str" where
  "bounded_message message =
    (if API_MAX_ERROR < length message then take (bounded_end 0 (char_seqs message)) message else message)"

definition error_json :: "string \<Rightarrow> str \<Rightarrow> json" where
  "error_json code message =
    JObject [(ascii ''error'', JObject
      [(ascii ''code'', JString (ascii code)), (ascii ''message'', JString (bounded_message message))])]"

section \<open>The client\<close>

record local_api_connection =
  la_listen :: str
  la_token :: str

text \<open>What \<open>LocalApiClient::request\<close> sends; the listening address is its printed form.\<close>

definition api_client_request :: "local_api_connection \<Rightarrow> str \<Rightarrow> str \<Rightarrow> u8 list \<Rightarrow> u8 list" where
  "api_client_request conn method target encoded =
    method @ ascii '' '' @ target @ ascii '' HTTP/1.1'' @ crlf
    @ ascii ''Host: '' @ la_listen conn @ crlf
    @ ascii ''Authorization: Bearer '' @ la_token conn @ crlf
    @ ascii ''Content-Length: '' @ decimal (length encoded) @ crlf
    @ ascii ''Connection: close'' @ crlf @ crlf @ encoded"

definition parse_u16 :: "str \<Rightarrow> nat option" where
  "parse_u16 t = Option.bind (parse_decimal t) (\<lambda>n. if n < 2 ^ 16 then Some n else None)"

definition json_field :: "json \<Rightarrow> str \<Rightarrow> json option" where
  "json_field v key = (case v of JObject members \<Rightarrow> map_of members key | _ \<Rightarrow> None)"

text \<open>\<open>value.pointer("/error/message").and_then(Value::as_str)\<close>.\<close>

definition error_message :: "json \<Rightarrow> str option" where
  "error_message v =
    Option.bind (json_field v (ascii ''error'')) (\<lambda>e.
    Option.bind (json_field e (ascii ''message'')) (\<lambda>m.
    case m of JString s \<Rightarrow> Some s | _ \<Rightarrow> None))"

datatype client_error =
    MalformedHttp
  | HeadersNotUtf8
  | OmittedStatus
  | InvalidStatus
  | InvalidJson
  | HttpStatus nat str

definition parse_response :: "json_text \<Rightarrow> u8 list \<Rightarrow> client_error + json" where
  "parse_response js response =
    and_then (ok_or (find_subslice response (crlf @ crlf)) MalformedHttp) (\<lambda>split.
    and_then (if utf8 (take split response) then Inr (take split response) else Inl HeadersNotUtf8) (\<lambda>headers.
    and_then (ok_or (let words = split_whitespace headers in
        if 1 < length words then Some (words ! 1) else None) OmittedStatus) (\<lambda>word.
    and_then (ok_or (parse_u16 word) InvalidStatus) (\<lambda>status.
    and_then (ok_or (js_decode js (drop (split + 4) response)) InvalidJson) (\<lambda>v.
    if \<not> (200 \<le> status \<and> status < 300)
    then Inl (HttpStatus status (unwrap_or (error_message v) (ascii ''local API request failed'')))
    else Inr v)))))"

section \<open>Searching\<close>

lemma windows_Cons:
  "0 < n \<Longrightarrow> windows n (x # xs) = (if n \<le> Suc (length xs) then take n (x # xs) # windows n xs else [])"
proof (cases "n \<le> Suc (length xs)")
  case True
  then have "[0..<length (x # xs) + 1 - n] = 0 # map Suc [0..<length xs + 1 - n]"
    by (simp add: upt_conv_Cons map_Suc_upt Suc_diff_le)
  then show ?thesis using True by (simp add: windows_def comp_def)
qed (simp add: windows_def)

lemma find_subslice_short: "length h < length n \<Longrightarrow> find_subslice h n = None"
  by (simp add: find_subslice_def windows_def)

lemma find_subslice_Cons:
  assumes "n \<noteq> []"
  shows "find_subslice (x # xs) n =
    (if take (length n) (x # xs) = n then Some 0 else map_option Suc (find_subslice xs n))"
proof (cases "length n \<le> Suc (length xs)")
  case True
  then show ?thesis using assms by (simp add: find_subslice_def windows_Cons)
next
  case False
  then have "take (length n) (x # xs) \<noteq> n" by (metis length_Cons length_take min_def nat_le_linear)
  then show ?thesis using False by (simp add: find_subslice_short)
qed

lemma find_subslice_Some:
  "find_subslice h n = Some i \<Longrightarrow> n \<noteq> [] \<Longrightarrow> i + length n \<le> length h \<and> take (length n) (drop i h) = n"
proof (induction h arbitrary: i)
  case (Cons x xs)
  show ?case
  proof (cases "take (length n) (x # xs) = n")
    case True
    then have "i = 0" using Cons.prems by (simp add: find_subslice_Cons)
    then show ?thesis using True by (metis add_0 drop_0 length_take min.cobounded1)
  next
    case False
    then obtain j where "i = Suc j" "find_subslice xs n = Some j"
      using Cons.prems by (auto simp: find_subslice_Cons)
    then show ?thesis using Cons by simp
  qed
qed (simp add: find_subslice_short)

lemma find_subslice_first:
  "take (length n) (drop i h) = n \<Longrightarrow> i + length n \<le> length h \<Longrightarrow> n \<noteq> [] \<Longrightarrow> \<exists>j \<le> i. find_subslice h n = Some j"
proof (induction h arbitrary: i)
  case (Cons x xs)
  show ?case
  proof (cases i)
    case 0
    then show ?thesis using Cons.prems by (simp add: find_subslice_Cons)
  next
    case (Suc k)
    then have "\<exists>j \<le> k. find_subslice xs n = Some j" using Cons by simp
    then show ?thesis using Suc Cons.prems(3) by (auto simp: find_subslice_Cons)
  qed
qed simp

text \<open>In a prefix the pattern is found once the prefix reaches it, at the same place.\<close>

lemma find_subslice_prefix:
  assumes "find_subslice (xs @ ys) n = Some i" "n \<noteq> []"
  shows "find_subslice xs n = (if i + length n \<le> length xs then Some i else None)"
proof (cases "find_subslice xs n")
  case None
  have "\<not> i + length n \<le> length xs"
  proof
    assume le: "i + length n \<le> length xs"
    have "take (length n) (drop i (xs @ ys)) = n" using find_subslice_Some [OF assms] by simp
    then have "take (length n) (drop i xs) = n" using le by simp
    then show False using find_subslice_first [OF _ le assms(2)] None by auto
  qed
  then show ?thesis using None by simp
next
  case (Some j)
  have j: "j + length n \<le> length xs" "take (length n) (drop j xs) = n"
    using find_subslice_Some [OF Some assms(2)] by auto
  then have "take (length n) (drop j (xs @ ys)) = n" by simp
  then obtain i' where "i' \<le> j" "find_subslice (xs @ ys) n = Some i'"
    using find_subslice_first [of n j "xs @ ys"] j assms(2) by auto
  then have ij: "i \<le> j" using assms(1) by simp
  have "take (length n) (drop i xs) = n" "i + length n \<le> length xs"
    using find_subslice_Some [OF assms] ij j(1) by simp_all
  then obtain j' where "j' \<le> i" "find_subslice xs n = Some j'"
    using find_subslice_first [of n i xs] assms(2) by auto
  then show ?thesis using Some ij j(1) by simp
qed

section \<open>Header blocks\<close>

text \<open>Lines with their ends, and the empty line.\<close>

definition header_block :: "str list \<Rightarrow> str" where
  "header_block lines = concat (map (\<lambda>line. line @ crlf) lines) @ crlf"

definition header_line :: "str \<Rightarrow> bool" where
  "header_line line \<longleftrightarrow> line \<noteq> [] \<and> 13 \<notin> set line"

lemma header_block_simps [simp]:
  "header_block [] = crlf" "header_block (line # lines) = line @ crlf @ header_block lines"
  by (simp_all add: header_block_def)

lemma find_skip:
  "13 \<notin> set xs \<Longrightarrow> find_subslice (xs @ ys) (crlf @ crlf) = map_option ((+) (length xs)) (find_subslice ys (crlf @ crlf))"
proof (induction xs)
  case Nil
  then show ?case by (simp add: option.map_ident)
next
  case (Cons x xs)
  then show ?case
    by (auto simp: find_subslice_Cons crlf_def option.map_comp comp_def)
qed

lemma find_header_block:
  assumes "list_all header_line lines" "lines \<noteq> []"
  shows "find_subslice (header_block lines @ rest) (crlf @ crlf) = Some (length (header_block lines) - 4)"
  using assms
proof (induction lines)
  case (Cons line lines)
  have skip: "find_subslice (header_block (line # lines) @ rest) (crlf @ crlf)
      = map_option ((+) (length line)) (find_subslice (crlf @ header_block lines @ rest) (crlf @ crlf))"
    using find_skip [of line "crlf @ header_block lines @ rest"] Cons.prems by (simp add: header_line_def)
  show ?case
  proof (cases lines)
    case Nil
    then show ?thesis unfolding skip by (simp add: crlf_def find_subslice_Cons)
  next
    case (Cons l ls)
    then obtain b bs where b: "header_block lines = b # bs" "b \<noteq> 13"
      using \<open>list_all header_line (line # lines)\<close> by (cases l) (auto simp: header_line_def)
    have "4 \<le> length (header_block lines)" using Cons by (simp add: crlf_def header_block_def)
    moreover have "find_subslice (crlf @ header_block lines @ rest) (crlf @ crlf)
        = map_option (\<lambda>i. i + 2) (find_subslice (header_block lines @ rest) (crlf @ crlf))"
      using b by (simp add: crlf_def find_subslice_Cons option.map_comp comp_def)
    ultimately show ?thesis
      unfolding skip using Cons.IH Cons.prems \<open>lines = l # ls\<close> by (simp add: crlf_def)
  qed
qed simp

lemma split_crlf_nonempty: "split_crlf t \<noteq> []"
  by (induction t rule: split_crlf.induct) (auto split: list.splits)

lemma split_crlf_line:
  "13 \<notin> set line \<Longrightarrow> split_crlf (line @ crlf @ rest) = line # split_crlf rest"
proof (induction line)
  case (Cons b line)
  obtain c bs where "line @ crlf @ rest = c # bs" by (cases line) (auto simp: crlf_def)
  then show ?case using Cons by auto
qed (simp add: crlf_def)

lemma split_header_block:
  "list_all header_line lines \<Longrightarrow> split_crlf (header_block lines) = lines @ [[], []]"
  by (induction lines) (auto simp: header_line_def split_crlf_line, simp add: crlf_def)

section \<open>Words\<close>

text \<open>The visible ASCII characters.\<close>

definition visible :: "u8 \<Rightarrow> bool" where
  "visible b \<longleftrightarrow> 33 \<le> b \<and> b \<le> 126"

lemma visible_unat: "visible b \<longleftrightarrow> 33 \<le> unat b \<and> unat b \<le> 126"
  by (simp add: visible_def word_le_nat_alt)

lemma visible_ascii: "visible b \<Longrightarrow> b < 0x80" "visible b \<Longrightarrow> b \<noteq> 13" "visible b \<Longrightarrow> \<not> white [b]"
  by (auto simp: visible_unat word_less_nat_alt white_def is_whitespace_def)

lemma char_seqs_ascii: "list_all (\<lambda>b. b < 0x80) t \<Longrightarrow> char_seqs (t @ rest) = map (\<lambda>b. [b]) t @ char_seqs rest"
  by (induction t) auto

lemma char_seqs_ascii_all: "list_all (\<lambda>b. b < 0x80) t \<Longrightarrow> char_seqs t = map (\<lambda>b. [b]) t"
  using char_seqs_ascii [of t "[]"] by simp

lemma split_words_visible:
  "list_all visible w \<Longrightarrow> split_words cur (map (\<lambda>b. [b]) w @ ss) = split_words (cur @ w) ss"
  by (induction w arbitrary: cur) (auto simp: visible_ascii)

lemma white_space: "white [32]"
  by (simp add: white_def is_whitespace_def)

lemma split_whitespace_three:
  assumes "list_all visible a" "list_all visible b" "list_all visible c" "a \<noteq> []" "b \<noteq> []" "c \<noteq> []"
  shows "split_whitespace (a @ 32 # b @ 32 # c) = [a, b, c]"
proof -
  let ?t = "a @ 32 # b @ 32 # c"
  have "list_all (\<lambda>b. b < 0x80) ?t"
    using assms(1-3) visible_ascii(1) by (auto simp: list_all_iff)
  then have seqs: "char_seqs ?t = map (\<lambda>b. [b]) a @ [32] # map (\<lambda>b. [b]) b @ [32] # map (\<lambda>b. [b]) c"
    by (simp add: char_seqs_ascii_all)
  show ?thesis
    using assms split_words_visible [OF assms(3), of "[]" "[]"]
    by (simp add: split_whitespace_def seqs split_words_visible white_space)
qed

text \<open>Trimming keeps a text that starts and ends visibly, and drops one leading space.\<close>

lemma trim_visible:
  assumes "list_all (\<lambda>b. b < 0x80) t" "t \<noteq> []" "visible (hd t)" "visible (last t)"
  shows "trim (32 # t) = t"
proof -
  have seqs: "char_seqs (32 # t) = [32] # map (\<lambda>b. [b]) t"
    using assms(1) char_seqs_ascii_all [of "32 # t"] by simp
  obtain b bs where t: "t = b # bs" using assms(2) by (cases t) auto
  have "dropWhile white (map (\<lambda>b. [b]) t) = map (\<lambda>b. [b]) t"
    using assms(3) visible_ascii(3) by (simp add: t)
  moreover obtain c cs where r: "rev (map (\<lambda>b. [b]) t) = [c] # cs" "c = last t"
    using assms(2) by (cases t rule: rev_cases) auto
  have "dropWhile white (rev (map (\<lambda>b. [b]) t)) = rev (map (\<lambda>b. [b]) t)"
    unfolding r(1) using assms(4) r(2) visible_ascii(3) by simp
  ultimately have "trim (32 # t) = concat (map (\<lambda>b. [b]) t)"
    by (simp add: trim_def char_seqs_ascii_all [OF assms(1)] white_space)
  also have "\<dots> = t" by (induction t) auto
  finally show ?thesis .
qed

section \<open>Reading in pieces\<close>

lemma header_loop_found:
  assumes "find_subslice (bytes @ concat chunks @ tail) (crlf @ crlf) = Some i" "i + 4 \<le> length (bytes @ concat chunks)"
    and "find_subslice bytes (crlf @ crlf) = None" "list_all (\<lambda>c. c \<noteq> []) chunks"
    and "length (bytes @ concat chunks) \<le> API_MAX_REQUEST"
  shows "\<exists>chunks1 chunks2. chunks = chunks1 @ chunks2 \<and> i + 4 \<le> length (bytes @ concat chunks1)
    \<and> header_loop bytes (map ReadChunk chunks) = Inr (i + 4, bytes @ concat chunks1, map ReadChunk chunks2)"
  using assms
proof (induction chunks arbitrary: bytes)
  case Nil
  have "find_subslice bytes (crlf @ crlf) = (if i + length (crlf @ crlf) \<le> length bytes then Some i else None)"
    by (rule find_subslice_prefix [of bytes tail]) (use Nil in \<open>auto simp: crlf_def\<close>)
  then show ?case using Nil by (simp add: crlf_def)
next
  case (Cons c chunks)
  have ne: "c \<noteq> []" and size: "\<not> API_MAX_REQUEST < length (bytes @ c)" using Cons.prems(4,5) by auto
  have f: "find_subslice (bytes @ c) (crlf @ crlf) = (if i + 4 \<le> length (bytes @ c) then Some i else None)"
    using find_subslice_prefix [of "bytes @ c" "concat chunks @ tail" "crlf @ crlf" i] Cons.prems(1)
    by (simp add: crlf_def)
  show ?case
  proof (cases "i + 4 \<le> length (bytes @ c)")
    case True
    then have "header_loop bytes (map ReadChunk (c # chunks)) = Inr (i + 4, bytes @ c, map ReadChunk chunks)"
      using ne size f by (simp add: Let_def del: length_append)
    then show ?thesis using True by (intro exI [of _ "[c]"] exI [of _ chunks]) simp
  next
    case False
    then have n: "find_subslice (bytes @ c) (crlf @ crlf) = None" using f by simp
    then have "header_loop bytes (map ReadChunk (c # chunks)) = header_loop (bytes @ c) (map ReadChunk chunks)"
      using ne size by (simp add: Let_def del: length_append)
    moreover obtain chunks1 chunks2 where "chunks = chunks1 @ chunks2"
      "i + 4 \<le> length ((bytes @ c) @ concat chunks1)"
      "header_loop (bytes @ c) (map ReadChunk chunks) = Inr (i + 4, (bytes @ c) @ concat chunks1, map ReadChunk chunks2)"
      using Cons.IH [of "bytes @ c"] Cons.prems n by auto
    ultimately show ?thesis by (intro exI [of _ "c # chunks1"] exI [of _ chunks2]) simp
  qed
qed

lemma body_loop_all:
  assumes "list_all (\<lambda>c. c \<noteq> []) chunks" "n = length (bytes @ concat chunks)"
  shows "body_loop n bytes (map ReadChunk chunks) = Inr (bytes @ concat chunks)"
  using assms
proof (induction chunks arbitrary: bytes)
  case Nil
  then show ?case by (simp add: body_loop.simps)
next
  case (Cons c chunks)
  then have "\<not> n \<le> length bytes" by (cases c) auto
  then show ?case using Cons by (subst body_loop.simps) simp
qed

section \<open>Requests\<close>

text \<open>Requests the client can put on one line each.\<close>

definition request_ok :: "local_api_connection \<Rightarrow> str \<Rightarrow> str \<Rightarrow> bool" where
  "request_ok conn method target \<longleftrightarrow>
    list_all visible method \<and> list_all visible target \<and> list_all visible (la_listen conn) \<and> list_all visible (la_token conn)
    \<and> method \<noteq> [] \<and> target \<noteq> [] \<and> la_token conn \<noteq> [] \<and> length target \<le> API_MAX_TARGET"

definition request_lines :: "local_api_connection \<Rightarrow> str \<Rightarrow> str \<Rightarrow> nat \<Rightarrow> str list" where
  "request_lines conn method target n =
    [method @ ascii '' '' @ target @ ascii '' HTTP/1.1'',
     ascii ''Host: '' @ la_listen conn,
     ascii ''Authorization: Bearer '' @ la_token conn,
     ascii ''Content-Length: '' @ decimal n,
     ascii ''Connection: close'']"

lemma api_client_request_lines:
  "api_client_request conn method target encoded = header_block (request_lines conn method target (length encoded)) @ encoded"
  by (simp add: api_client_request_def request_lines_def)

lemma decimal_visible: "list_all visible (decimal n)"
  using decimal_digits [of n]
  by (auto simp: list_all_iff is_ascii_digit_def visible_unat word_le_nat_alt)

definition printable :: "u8 \<Rightarrow> bool" where
  "printable b \<longleftrightarrow> b = 32 \<or> visible b"

lemma visible_printable: "list_all visible t \<Longrightarrow> list_all printable t"
  by (auto simp: list_all_iff printable_def)

lemma printable_ascii: "list_all printable t \<Longrightarrow> list_all (\<lambda>b. b < 0x80) t" "list_all printable t \<Longrightarrow> 13 \<notin> set t"
  by (auto simp: list_all_iff printable_def dest: visible_ascii)

lemma printable_request_lines:
  "request_ok conn method target \<Longrightarrow> list_all (list_all printable) (request_lines conn method target n)"
  using visible_printable [OF decimal_visible [of n]]
  by (simp add: request_ok_def request_lines_def visible_printable) (simp add: ascii_def printable_def visible_def)

lemma request_header_lines:
  assumes "request_ok conn method target"
  shows "list_all header_line (request_lines conn method target n)"
proof -
  have "[] \<notin> set (request_lines conn method target n)" by (auto simp: request_lines_def ascii_def)
  then show ?thesis
    using printable_request_lines [OF assms] printable_ascii(2) by (auto simp: header_line_def list_all_iff)
qed

lemma utf8_header_block:
  assumes "list_all (list_all printable) lines"
  shows "utf8 (header_block lines)"
proof (rule utf8_ascii)
  fix b assume "b \<in> set (header_block lines)"
  then have "b = 13 \<or> b = 10 \<or> (\<exists>line \<in> set lines. b \<in> set line)"
    by (auto simp: header_block_def crlf_def split: if_splits)
  then show "b < 0x80"
    using assms printable_ascii(1) by (auto simp: list_all_iff)
qed

lemma parse_request_line_sent:
  assumes "request_ok conn method target"
  shows "parse_request_line (method @ ascii '' '' @ target @ ascii '' HTTP/1.1'') = Inr (method, target)"
proof -
  have line: "method @ ascii '' '' @ target @ ascii '' HTTP/1.1'' = method @ 32 # target @ 32 # ascii ''HTTP/1.1''"
    by (simp add: ascii_def)
  have "list_all visible (ascii ''HTTP/1.1'')" "ascii ''HTTP/1.1'' \<noteq> []" by (simp_all add: ascii_def visible_def)
  then have "split_whitespace (method @ 32 # target @ 32 # ascii ''HTTP/1.1'') = [method, target, ascii ''HTTP/1.1'']"
    using assms by (intro split_whitespace_three) (auto simp: request_ok_def)
  then show ?thesis using assms unfolding line by (simp add: parse_request_line_def request_ok_def)
qed

lemma split_once_append: "c \<notin> set a \<Longrightarrow> split_once c (a @ c # b) = Some (a, b)"
  by (simp add: split_once_def takeWhile_append dropWhile_append)

lemma header_value:
  "split_once 58 (ascii ''Host: '' @ v) = Some (ascii ''Host'', 32 # v)"
  "split_once 58 (ascii ''Authorization: Bearer '' @ v) = Some (ascii ''Authorization'', 32 # ascii ''Bearer '' @ v)"
  "split_once 58 (ascii ''Content-Length: '' @ v) = Some (ascii ''Content-Length'', 32 # v)"
  "split_once 58 (ascii ''Connection: close'') = Some (ascii ''Connection'', 32 # ascii ''close'')"
  using split_once_append [of 58 "ascii ''Host''" "32 # v"] split_once_append [of 58 "ascii ''Content-Length''" "32 # v"]
    split_once_append [of 58 "ascii ''Authorization''" "32 # ascii ''Bearer '' @ v"]
    split_once_append [of 58 "ascii ''Connection''" "32 # ascii ''close''"]
  by (simp_all add: ascii_def)

lemma header_names:
  "\<not> eq_ignore_ascii_case (ascii ''Host'') (ascii ''content-length'')"
  "\<not> eq_ignore_ascii_case (ascii ''Host'') (ascii ''authorization'')"
  "\<not> eq_ignore_ascii_case (ascii ''Authorization'') (ascii ''content-length'')"
  "eq_ignore_ascii_case (ascii ''Authorization'') (ascii ''authorization'')"
  "eq_ignore_ascii_case (ascii ''Content-Length'') (ascii ''content-length'')"
  "\<not> eq_ignore_ascii_case (ascii ''Connection'') (ascii ''content-length'')"
  "\<not> eq_ignore_ascii_case (ascii ''Connection'') (ascii ''authorization'')"
  by (simp_all add: eq_ignore_ascii_case_def ascii_def to_ascii_lowercase_def)

lemma header_fields_sent:
  assumes "request_ok conn method target" "n \<le> usize_max"
  shows "header_fields (tl (request_lines conn method target n)) None None = Inr (Some n, Some (ascii ''Bearer '' @ la_token conn))"
proof -
  have "list_all (\<lambda>b. b < 0x80) (ascii ''Bearer '' @ la_token conn)"
    using assms(1) visible_ascii(1) by (auto simp: request_ok_def list_all_iff ascii_def)
  then have bearer: "trim (32 # ascii ''Bearer '' @ la_token conn) = ascii ''Bearer '' @ la_token conn"
    using assms(1) by (intro trim_visible) (auto simp: request_ok_def list_all_iff ascii_def visible_def)
  have "list_all (\<lambda>b. b < 0x80) (decimal n)" "visible (hd (decimal n))" "visible (last (decimal n))"
    using decimal_visible [of n] visible_ascii(1) by (auto simp: list_all_iff)
  then have num: "trim (32 # decimal n) = decimal n" by (intro trim_visible) simp_all
  show ?thesis
    using assms(2) by (simp add: request_lines_def header_value header_names bearer num)
qed

text \<open>
  (C37) Whatever the pieces it arrives in, a request written by the client of the local API is
  read by the daemon as the method, target, bearer token and body the client sent.
\<close>

theorem read_request_client:
  assumes "request_ok conn method target" "concat chunks = api_client_request conn method target encoded"
    and "list_all (\<lambda>chunk. chunk \<noteq> []) chunks" "length (concat chunks) \<le> API_MAX_REQUEST"
  shows "read_request (map ReadChunk chunks) = Inr \<lparr>rq_method = method, rq_target = target,
    rq_authorization = Some (ascii ''Bearer '' @ la_token conn), rq_body = encoded\<rparr>"
proof -
  define lines where "lines = request_lines conn method target (length encoded)"
  define head where "head = header_block lines"
  have whole: "concat chunks = head @ encoded" by (simp add: assms(2) api_client_request_lines head_def lines_def)
  have hl: "list_all header_line lines" unfolding lines_def by (rule request_header_lines [OF assms(1)])
  have ne: "lines \<noteq> []" and len: "4 \<le> length head"
    by (auto simp: lines_def head_def request_lines_def crlf_def)
  have "find_subslice (concat chunks) (crlf @ crlf) = Some (length head - 4)"
    unfolding whole head_def by (rule find_header_block [OF hl ne])
  then obtain chunks1 chunks2 where split: "chunks = chunks1 @ chunks2"
    and got: "length head \<le> length (concat chunks1)"
    and loop: "header_loop [] (map ReadChunk chunks) = Inr (length head, concat chunks1, map ReadChunk chunks2)"
    using header_loop_found [of "[]" chunks "[]" "length head - 4"] assms(3,4) len whole
    by (auto simp: find_subslice_short crlf_def)
  have take_head: "take (length head) (concat chunks1) = head"
    using arg_cong [OF whole, of "take (length head)"] got by (simp add: split)
  have utf8: "utf8 head"
    unfolding head_def lines_def by (rule utf8_header_block [OF printable_request_lines [OF assms(1)]])
  have crlf: "split_crlf head = lines @ [[], []]" unfolding head_def by (rule split_header_block [OF hl])
  have kept: "filter (\<lambda>line. line \<noteq> []) (tl lines @ [[], []]) = tl lines"
    using hl by (cases lines) (auto simp: header_line_def list_all_iff filter_id_conv)
  have sum: "length head + length encoded \<le> API_MAX_REQUEST" using assms(4) whole by simp
  then have small: "checked_add_usize (length head) (length encoded) = Some (length head + length encoded)"
    "length encoded \<le> usize_max"
    by (simp_all add: checked_add_usize_def API_MAX_REQUEST_def usize_max_def)
  have joined: "concat chunks1 @ concat chunks2 = head @ encoded" using whole by (simp add: split)
  have body: "body_loop (length head + length encoded) (concat chunks1) (map ReadChunk chunks2) = Inr (head @ encoded)"
    using body_loop_all [of chunks2 "length (head @ encoded)" "concat chunks1"] assms(3) unfolding joined split by simp
  have "length (concat chunks1) \<le> length head + length encoded"
    using arg_cong [OF whole, of length] by (simp add: split)
  moreover have "lines = (method @ ascii '' '' @ target @ ascii '' HTTP/1.1'') # tl lines"
    by (simp add: lines_def request_lines_def)
  moreover note parse_request_line_sent [OF assms(1)] header_fields_sent [OF assms(1) small(2), folded lines_def]
  ultimately show ?thesis
    using sum kept small(1) body crlf
    by (cases lines) (simp_all add: read_request_def loop take_head utf8)
qed

definition demo_connection :: local_api_connection where
  "demo_connection = \<lparr>la_listen = ascii ''[::1]:7'', la_token = ascii ''k''\<rparr>"

theorem read_request_client_witness:
  "read_request (map ReadChunk [ascii ''GET /v1/status HT'', ascii ''TP/1.1'' @ crlf @ ascii ''Host: [::1]:7'' @ crlf @ [65],
      ascii ''uthorization: Bearer k'' @ crlf @ ascii ''Content-Length: 2'' @ crlf @ ascii ''Connection: close'' @ crlf @ [13],
      [10, 123], [125]])
    = Inr \<lparr>rq_method = ascii ''GET'', rq_target = ascii ''/v1/status'',
        rq_authorization = Some (ascii ''Bearer '' @ la_token demo_connection), rq_body = [123, 125]\<rparr>"
proof (rule read_request_client)
  show "request_ok demo_connection (ascii ''GET'') (ascii ''/v1/status'')"
    by (simp add: demo_connection_def request_ok_def ascii_def visible_def API_MAX_TARGET_def)
qed (simp_all add: demo_connection_def api_client_request_def decimal.simps ascii_def crlf_def API_MAX_REQUEST_def)

section \<open>What a request must be\<close>

text \<open>The values of the header fields of one name, in order.\<close>

fun header_values :: "string \<Rightarrow> str list \<Rightarrow> str list" where
  "header_values name [] = []"
| "header_values name (line # lines) =
    (case split_once 58 line of
       Some (n, v) \<Rightarrow> if eq_ignore_ascii_case n (ascii name) then trim v # header_values name lines
         else header_values name lines
     | None \<Rightarrow> header_values name lines)"

lemma eq_ignore_both:
  "eq_ignore_ascii_case n (ascii ''content-length'') \<Longrightarrow> \<not> eq_ignore_ascii_case n (ascii ''authorization'')"
  by (simp add: eq_ignore_ascii_case_def ascii_def to_ascii_lowercase_def)

lemma header_fields_values:
  "header_fields lines cl0 auth0 = Inr (cl, auth) \<Longrightarrow>
    (\<exists>texts. header_values ''content-length'' lines = texts \<and> length texts + (if cl0 = None then 0 else 1) \<le> 1
       \<and> cl = (if texts = [] then cl0 else parse_usize (hd texts)) \<and> (texts \<noteq> [] \<longrightarrow> cl \<noteq> None))
    \<and> (\<exists>texts. header_values ''authorization'' lines = texts \<and> length texts + (if auth0 = None then 0 else 1) \<le> 1
       \<and> auth = (if texts = [] then auth0 else Some (hd texts)))
    \<and> list_all (\<lambda>line. 58 \<in> set line) lines"
proof (induction lines cl0 auth0 rule: header_fields.induct)
  case (1 content_length authorization)
  then show ?case by auto
next
  case (2 line lines content_length authorization)
  obtain name v where once: "split_once 58 line = Some (name, v)"
    using "2.prems" by (cases "split_once 58 line") auto
  then have colon: "58 \<in> set line" by (simp add: split_once_def split: if_splits)
  show ?case
  proof (cases "eq_ignore_ascii_case name (ascii ''content-length'')")
    case True
    then obtain n where n: "content_length = None" "parse_usize (trim v) = Some n"
      "header_fields lines (Some n) authorization = Inr (cl, auth)"
      using "2.prems" once by (auto simp: result_iffs split: if_splits)
    show ?thesis
      using "2.IH"(1) [OF once refl True] n colon once True eq_ignore_both
      by auto
  next
    case False
    note not_length = False
    show ?thesis
    proof (cases "eq_ignore_ascii_case name (ascii ''authorization'')")
      case True
      then show ?thesis
        using "2.IH"(2) [OF once refl not_length True] "2.prems" once not_length colon
        by (auto split: if_splits)
    next
      case False
      then show ?thesis
        using "2.IH"(3) [OF once refl not_length False] "2.prems" once not_length colon
        by auto
    qed
  qed
qed

lemma find_subslice_append:
  assumes "find_subslice xs n = Some i" "n \<noteq> []"
  shows "find_subslice (xs @ ys) n = Some i"
proof -
  have at: "i + length n \<le> length xs" "take (length n) (drop i xs) = n" using find_subslice_Some [OF assms] by auto
  then obtain j where "find_subslice (xs @ ys) n = Some j"
    using find_subslice_first [of n i "xs @ ys"] assms(2) by auto
  then show ?thesis using find_subslice_prefix [of xs ys n j] assms by (auto split: if_splits)
qed

lemma header_loop_sound:
  "header_loop bytes events = Inr (header_end, bytes', events') \<Longrightarrow>
    \<exists>chunks. events = map ReadChunk chunks @ events' \<and> bytes' = bytes @ concat chunks
      \<and> length bytes' \<le> API_MAX_REQUEST \<and> 4 \<le> header_end
      \<and> find_subslice bytes' (crlf @ crlf) = Some (header_end - 4)"
proof (induction bytes events rule: header_loop.induct)
  case (3 bytes buffer events)
  have step: "buffer \<noteq> []" "\<not> API_MAX_REQUEST < length (bytes @ buffer)" and rest:
    "(case find_subslice (bytes @ buffer) (crlf @ crlf) of Some index \<Rightarrow> Inr (index + 4, bytes @ buffer, events)
      | None \<Rightarrow> header_loop (bytes @ buffer) events) = Inr (header_end, bytes', events')"
    using "3.prems" by (auto simp: Let_def split: if_splits)
  show ?case
  proof (cases "find_subslice (bytes @ buffer) (crlf @ crlf)")
    case None
    then obtain chunks where "events = map ReadChunk chunks @ events'" "bytes' = (bytes @ buffer) @ concat chunks"
      "length bytes' \<le> API_MAX_REQUEST" "4 \<le> header_end" "find_subslice bytes' (crlf @ crlf) = Some (header_end - 4)"
      using "3.IH" [OF step(1) refl step(2) None] rest by auto
    then show ?thesis by (intro exI [of _ "buffer # chunks"]) simp
  next
    case (Some index)
    then show ?thesis using rest step by (intro exI [of _ "[buffer]"]) auto
  qed
qed simp_all

lemma body_loop_sound:
  "body_loop request_end bytes events = Inr bytes' \<Longrightarrow>
    \<exists>chunks rest. events = map ReadChunk chunks @ rest \<and> bytes' = bytes @ concat chunks"
proof (induction events arbitrary: bytes)
  case Nil
  then show ?case by (subst (asm) body_loop.simps) (auto split: if_splits)
next
  case (Cons event events)
  show ?case
  proof (cases "request_end \<le> length bytes")
    case True
    then show ?thesis using Cons.prems by (subst (asm) body_loop.simps) (auto intro: exI [of _ "[]"])
  next
    case False
    then obtain buffer where e: "event = ReadChunk buffer" "body_loop request_end (bytes @ buffer) events = Inr bytes'"
      using Cons.prems by (subst (asm) body_loop.simps) (auto split: read_event.splits if_splits)
    then obtain chunks rest where "events = map ReadChunk chunks @ rest" "bytes' = (bytes @ buffer) @ concat chunks"
      using Cons.IH by blast
    then show ?thesis using e(1) by (intro exI [of _ "buffer # chunks"] exI [of _ rest]) simp
  qed
qed

lemma parse_request_line_target:
  "parse_request_line line = Inr (method, target) \<Longrightarrow> length target \<le> API_MAX_TARGET"
  by (auto simp: parse_request_line_def split: list.splits if_splits)

text \<open>
  A request the daemon accepts is framed exactly: the bytes read are one header block, ended by the
  first empty line, and the body, whose length is the one declared by the only Content-Length
  field (none declared, no body), with at most one Authorization field; nothing follows it, and
  it is at most 1 MiB with a target of at most 2048 bytes.
\<close>

theorem read_request_framed:
  assumes "read_request events = Inr r"
  shows "\<exists>chunks rest head line lines.
    events = map ReadChunk chunks @ rest \<and> concat chunks = head @ rq_body r
    \<and> find_subslice (head @ rq_body r) (crlf @ crlf) = Some (length head - 4) \<and> utf8 head
    \<and> length head + length (rq_body r) \<le> API_MAX_REQUEST
    \<and> split_crlf head = line # lines \<and> parse_request_line line = Inr (rq_method r, rq_target r)
    \<and> length (rq_target r) \<le> API_MAX_TARGET
    \<and> (header_values ''content-length'' (filter (\<lambda>line. line \<noteq> []) lines) = [] \<and> rq_body r = []
       \<or> (\<exists>text. header_values ''content-length'' (filter (\<lambda>line. line \<noteq> []) lines) = [text]
            \<and> parse_usize text = Some (length (rq_body r))))
    \<and> header_values ''authorization'' (filter (\<lambda>line. line \<noteq> []) lines)
      = (case rq_authorization r of None \<Rightarrow> [] | Some v \<Rightarrow> [v])"
proof -
  obtain header_end bytes events' where loop: "header_loop [] events = Inr (header_end, bytes, events')"
    using assms by (cases "header_loop [] events") (auto simp: read_request_def)
  obtain line lines where l: "split_crlf (take header_end bytes) = line # lines"
    using split_crlf_nonempty by (cases "split_crlf (take header_end bytes)") auto
  obtain verb tgt content_length authorization request_end bytes' where
    u: "utf8 (take header_end bytes)"
    and req: "parse_request_line line = Inr (verb, tgt)"
    and fields: "header_fields (filter (\<lambda>line. line \<noteq> []) lines) None None = Inr (content_length, authorization)"
    and re: "checked_add_usize header_end (unwrap_or content_length 0) = Some request_end"
    and bound: "request_end \<le> API_MAX_REQUEST"
    and body: "body_loop request_end bytes events' = Inr bytes'" "length bytes' = request_end"
    and r: "r = \<lparr>rq_method = verb, rq_target = tgt, rq_authorization = authorization,
      rq_body = take (request_end - header_end) (drop header_end bytes')\<rparr>"
    using assms by (auto simp: read_request_def loop l result_iffs split: if_splits)
  obtain chunks1 where c1: "events = map ReadChunk chunks1 @ events'" "bytes = concat chunks1"
    and he: "4 \<le> header_end" "find_subslice bytes (crlf @ crlf) = Some (header_end - 4)"
    using header_loop_sound [OF loop] by auto
  obtain chunks2 rest where c2: "events' = map ReadChunk chunks2 @ rest" "bytes' = bytes @ concat chunks2"
    using body_loop_sound [OF body(1)] by auto
  have in_bytes: "header_end \<le> length bytes"
    using find_subslice_Some [OF he(2)] he(1) by (auto simp: crlf_def)
  have n: "request_end = header_end + unwrap_or content_length 0"
    using re by (auto simp: checked_add_usize_def split: if_splits)
  define head where "head = take header_end bytes"
  have head: "bytes' = head @ rq_body r" "length head = header_end"
    using in_bytes body(2) c2(2) n
    by (auto simp: r head_def)
  have body_length: "length (rq_body r) = unwrap_or content_length 0"
    using arg_cong [OF head(1), of length] head(2) body(2) n by simp
  have found: "find_subslice bytes' (crlf @ crlf) = Some (header_end - 4)"
    unfolding c2(2) by (rule find_subslice_append [OF he(2)]) (simp add: crlf_def)
  let ?fields = "filter (\<lambda>line. line \<noteq> []) lines"
  have lengths: "header_values ''content-length'' ?fields = [] \<and> rq_body r = []
      \<or> (\<exists>text. header_values ''content-length'' ?fields = [text] \<and> parse_usize text = Some (length (rq_body r)))"
  proof (cases "header_values ''content-length'' ?fields")
    case Nil
    then have "content_length = None" using header_fields_values [OF fields] by auto
    then show ?thesis using body_length Nil by simp
  next
    case (Cons declared texts)
    then show ?thesis using header_fields_values [OF fields] body_length by auto
  qed
  have auth: "header_values ''authorization'' ?fields = (case rq_authorization r of None \<Rightarrow> [] | Some v \<Rightarrow> [v])"
    using header_fields_values [OF fields] by (cases "header_values ''authorization'' ?fields") (auto simp: r)
  have "events = map ReadChunk (chunks1 @ chunks2) @ rest" "concat (chunks1 @ chunks2) = head @ rq_body r"
    using c1 c2 head(1) by simp_all
  moreover have "find_subslice (head @ rq_body r) (crlf @ crlf) = Some (length head - 4)"
    using found head by simp
  moreover have "length head + length (rq_body r) \<le> API_MAX_REQUEST"
    using bound body_length n head(2) by simp
  moreover have "parse_request_line line = Inr (rq_method r, rq_target r)" "length (rq_target r) \<le> API_MAX_TARGET"
    using req parse_request_line_target [OF req] by (simp_all add: r)
  ultimately show ?thesis
    using u l lengths auth unfolding head_def [symmetric] by blast
qed

definition demo_events :: "read_event list" where
  "demo_events = [ReadChunk (ascii ''PUT /x HTTP/1.1'' @ crlf @ crlf), ReadFail]"

definition demo_request :: http_request where
  "demo_request = \<lparr>rq_method = ascii ''PUT'', rq_target = ascii ''/x'', rq_authorization = None, rq_body = []\<rparr>"

theorem read_request_framed_witness:
  "\<exists>chunks rest head line lines.
    demo_events = map ReadChunk chunks @ rest \<and> concat chunks = head @ rq_body demo_request
    \<and> find_subslice (head @ rq_body demo_request) (crlf @ crlf) = Some (length head - 4) \<and> utf8 head
    \<and> length head + length (rq_body demo_request) \<le> API_MAX_REQUEST
    \<and> split_crlf head = line # lines \<and> parse_request_line line = Inr (rq_method demo_request, rq_target demo_request)
    \<and> length (rq_target demo_request) \<le> API_MAX_TARGET
    \<and> (header_values ''content-length'' (filter (\<lambda>line. line \<noteq> []) lines) = [] \<and> rq_body demo_request = []
       \<or> (\<exists>text. header_values ''content-length'' (filter (\<lambda>line. line \<noteq> []) lines) = [text]
            \<and> parse_usize text = Some (length (rq_body demo_request))))
    \<and> header_values ''authorization'' (filter (\<lambda>line. line \<noteq> []) lines)
      = (case rq_authorization demo_request of None \<Rightarrow> [] | Some v \<Rightarrow> [v])"
proof (rule read_request_framed)
  have "list_all header_line [ascii ''PUT /x HTTP/1.1'']" by (simp add: header_line_def ascii_def)
  note found = find_header_block [OF this, of "[]"] and split = split_header_block [OF this]
  have "split_whitespace (ascii ''PUT'' @ 32 # ascii ''/x'' @ 32 # ascii ''HTTP/1.1'') = [ascii ''PUT'', ascii ''/x'', ascii ''HTTP/1.1'']"
    by (rule split_whitespace_three) (simp_all add: ascii_def visible_def)
  then have req: "parse_request_line (ascii ''PUT /x HTTP/1.1'') = Inr (ascii ''PUT'', ascii ''/x'')"
    by (simp add: parse_request_line_def ascii_def API_MAX_TARGET_def)
  show "read_request demo_events = Inr demo_request"
    using found split req
    by (simp add: demo_events_def demo_request_def read_request_def API_MAX_REQUEST_def ascii_def crlf_def Let_def
        checked_add_usize_def usize_max_def body_loop.simps)
qed

section \<open>Responses\<close>

lemma split_whitespace_word:
  assumes "list_all visible a" "a \<noteq> []"
  shows "split_whitespace (a @ 32 # rest) = a # split_whitespace rest"
proof -
  have "list_all (\<lambda>b. b < 0x80) a" using assms(1) visible_ascii(1) by (auto simp: list_all_iff)
  then have "char_seqs (a @ 32 # rest) = map (\<lambda>b. [b]) a @ [32] # char_seqs rest"
    using char_seqs_ascii [of a "32 # rest"] by simp
  then show ?thesis using assms(2) split_words_visible [OF assms(1), of "[]"]
    by (simp add: split_whitespace_def white_space)
qed

definition response_lines :: "nat \<Rightarrow> nat \<Rightarrow> str list" where
  "response_lines status n =
    [ascii ''HTTP/1.1 '' @ decimal status @ ascii '' '' @ ascii (status_reason status),
     ascii ''Content-Type: application/json'', ascii ''Content-Length: '' @ decimal n, ascii ''Connection: close'']"

lemma response_lines_printable: "list_all (list_all printable) (response_lines status n)"
  using visible_printable [OF decimal_visible [of status]] visible_printable [OF decimal_visible [of n]]
  by (simp add: response_lines_def status_reason_def) (simp add: ascii_def printable_def visible_def)

lemma response_header_lines: "list_all header_line (response_lines status n)"
proof -
  have "[] \<notin> set (response_lines status n)" by (auto simp: response_lines_def ascii_def)
  then show ?thesis
    using response_lines_printable [of status n] printable_ascii(2) by (auto simp: header_line_def list_all_iff)
qed

lemma write_response_lines:
  "write_response js status v = header_block (response_lines status (length (js_encode js v))) @ js_encode js v"
  by (simp add: write_response_def response_lines_def Let_def)

text \<open>
  The client reads back the value and the status of a response the daemon writes, and turns a
  status outside 200 to 299 into an error with the message.
\<close>

lemma parse_response_written:
  assumes "json_reads js v" "status < 2 ^ 16"
  shows "parse_response js (write_response js status v) =
    (if 200 \<le> status \<and> status < 300 then Inr v
     else Inl (HttpStatus status (unwrap_or (error_message v) (ascii ''local API request failed''))))"
proof -
  define lines where "lines = response_lines status (length (js_encode js v))"
  define head where "head = header_block lines"
  have whole: "write_response js status v = head @ js_encode js v" by (simp add: write_response_lines head_def lines_def)
  have len: "4 \<le> length head" by (simp add: head_def lines_def response_lines_def crlf_def)
  have found: "find_subslice (head @ js_encode js v) (crlf @ crlf) = Some (length head - 4)"
    unfolding head_def lines_def
    by (rule find_header_block [OF response_header_lines]) (simp add: response_lines_def)
  define text1 where "text1 = ascii (status_reason status) @ crlf @ ascii ''Content-Type: application/json'' @ crlf
    @ ascii ''Content-Length: '' @ decimal (length (js_encode js v)) @ crlf @ ascii ''Connection: close''"
  have head_eq: "head = (ascii ''HTTP/1.1'' @ 32 # decimal status @ 32 # text1) @ crlf @ crlf"
    by (simp add: head_def lines_def response_lines_def text1_def) (simp add: ascii_def)
  have start: "take (length head - 4) head = ascii ''HTTP/1.1'' @ 32 # decimal status @ 32 # text1"
    by (simp add: head_eq) (simp add: crlf_def)
  have "utf8 head" unfolding head_def lines_def by (rule utf8_header_block [OF response_lines_printable])
  have "list_all (\<lambda>b. b < 0x80) head"
    using response_lines_printable [of status "length (js_encode js v)"] printable_ascii(1)
    by (auto simp: head_def lines_def header_block_def list_all_iff crlf_def)
  then have "\<And>b. b \<in> set (take (length head - 4) head) \<Longrightarrow> b < 0x80" by (auto simp: list_all_iff dest: in_set_takeD)
  then have utf8: "utf8 (take (length head - 4) head)" by (rule utf8_ascii)
  have "list_all visible (ascii ''HTTP/1.1'')" "ascii ''HTTP/1.1'' \<noteq> []" by (simp_all add: ascii_def visible_def)
  then have words: "split_whitespace (take (length head - 4) head) = ascii ''HTTP/1.1'' # decimal status # split_whitespace text1"
    unfolding start using decimal_visible by (simp add: split_whitespace_word)
  have "parse_u16 (decimal status) = Some status"
    using assms(2) by (simp add: parse_u16_def parse_decimal_digits decimal_digits)
  then show ?thesis
    using utf8 len assms(1) unfolding whole
    by (simp add: parse_response_def found words Let_def json_reads_def)
qed

text \<open>
  A long message is cut after the last character that starts below the bound: at a character
  boundary, and at most three bytes past the bound.
\<close>

lemma bounded_end_bound:
  "index \<le> API_MAX_ERROR + 3 \<Longrightarrow> list_all (\<lambda>s. length s \<le> 4) ss \<Longrightarrow> bounded_end index ss \<le> API_MAX_ERROR + 3"
  by (induction index ss rule: bounded_end.induct) auto

lemma bounded_end_prefix: "\<exists>n. bounded_end index ss = index + length (concat (take n ss))"
proof (induction index ss rule: bounded_end.induct)
  case (2 index s ss)
  show ?case
  proof (cases "index < API_MAX_ERROR")
    case True
    then obtain n where "bounded_end (index + length s) ss = index + length s + length (concat (take n ss))" using 2 by auto
    then show ?thesis using True by (intro exI [of _ "Suc n"]) simp
  qed (simp add: exI [of _ 0])
qed simp

lemma char_seqs_short: "list_all (\<lambda>s. length s \<le> 4) (char_seqs t)"
  by (induction t rule: char_seqs.induct) (auto simp: Let_def)

lemma bounded_message_length: "length (bounded_message message) \<le> API_MAX_ERROR + 3"
  using bounded_end_bound [OF _ char_seqs_short, of 0 message] by (auto simp: bounded_message_def)

end
