(* ===== verification/Node_Base.thy ===== *)
theory Node_Base
  imports Resume Node_Http
begin

text \<open>
  What the parts of the node share: operations that fail with a message, the file operations of
  the store on the file system of \<open>Resume\<close>, the paths of the standard library (Unix form) and
  \<open>managed_path\<close>, \<open>relative_string\<close> of \<open>triptorrent-node/src/lib.rs\<close>.
\<close>

section \<open>Operations\<close>

text \<open>
  An operation on a state returns a result and the new state; after an error the state is the one
  reached.  \<open>op_bind m f\<close> is \<open>f(m?)\<close>, \<open>op_try\<close> keeps the result as a value.
\<close>

type_synonym ('s, 'a) op = "'s \<Rightarrow> (node_error + 'a) \<times> 's"

definition op_return :: "'a \<Rightarrow> ('s, 'a) op" where
  "op_return x s = (Inr x, s)"

definition op_fail :: "node_error \<Rightarrow> ('s, 'a) op" where
  "op_fail e s = (Inl e, s)"

definition op_bail :: "string \<Rightarrow> ('s, 'a) op" where
  "op_bail t = op_fail (NodeBail t)"

definition op_result :: "node_error + 'a \<Rightarrow> ('s, 'a) op" where
  "op_result r s = (r, s)"

definition op_bind :: "('s, 'a) op \<Rightarrow> ('a \<Rightarrow> ('s, 'b) op) \<Rightarrow> ('s, 'b) op" where
  "op_bind m f s = (case m s of (Inl e, s) \<Rightarrow> (Inl e, s) | (Inr x, s) \<Rightarrow> f x s)"

definition op_try :: "('s, 'a) op \<Rightarrow> ('s, node_error + 'a) op" where
  "op_try m s = (case m s of (r, s) \<Rightarrow> (Inr r, s))"

definition op_get :: "('s \<Rightarrow> 'a) \<Rightarrow> ('s, 'a) op" where
  "op_get f s = (Inr (f s), s)"

definition op_modify :: "('s \<Rightarrow> 's) \<Rightarrow> ('s, unit) op" where
  "op_modify f s = (Inr (), f s)"

text \<open>\<open>context\<close> and \<open>with_context\<close> replace the message of an error.\<close>

definition op_context :: "node_error \<Rightarrow> ('s, 'a) op \<Rightarrow> ('s, 'a) op" where
  "op_context e m s = (case m s of (r, s) \<Rightarrow> (map_err (\<lambda>_. e) r, s))"

text \<open>An operation on a part of the state.\<close>

definition op_zoom :: "('s \<Rightarrow> 't) \<Rightarrow> ('t \<Rightarrow> 's \<Rightarrow> 's) \<Rightarrow> ('t, 'a) op \<Rightarrow> ('s, 'a) op" where
  "op_zoom get put m s = (case m (get s) of (r, t) \<Rightarrow> (r, put t s))"

definition op_act :: "'a act \<Rightarrow> (disk, 'a) op" where
  "op_act m d = (case m d of (r, d) \<Rightarrow> (map_err (\<lambda>_. NodeIo) r, d))"

named_theorems op_defs \<open>the combinators of operations\<close>

lemmas op_combinators [op_defs] =
  op_return_def op_fail_def op_bail_def op_result_def op_bind_def op_try_def op_get_def op_modify_def
  op_context_def op_zoom_def op_act_def

lemma op_bind_Inr_iff [result_iffs]:
  "op_bind m f s = (Inr y, s') \<longleftrightarrow> (\<exists>x s1. m s = (Inr x, s1) \<and> f x s1 = (Inr y, s'))"
  by (auto simp: op_bind_def split: prod.splits sum.splits)

lemma op_simple_iffs [result_iffs]:
  "op_return x s = (r, s') \<longleftrightarrow> r = Inr x \<and> s' = s"
  "op_fail e s = (r, s') \<longleftrightarrow> r = Inl e \<and> s' = s"
  "op_result q s = (r, s') \<longleftrightarrow> q = r \<and> s' = s"
  "op_get f s = (r', s') \<longleftrightarrow> r' = Inr (f s) \<and> s' = s"
  "op_modify g s = (u, s') \<longleftrightarrow> u = Inr () \<and> s' = g s"
  by (auto simp: op_defs)

lemma op_bail_iff [result_iffs]: "op_bail t s = (r, s') \<longleftrightarrow> r = Inl (NodeBail t) \<and> s' = s"
  by (auto simp: op_defs)

lemma op_lifted_iffs [result_iffs]:
  "op_act a d = (Inr x, d') \<longleftrightarrow> a d = (Inr x, d')"
  "op_context e m s = (Inr y, s') \<longleftrightarrow> m s = (Inr y, s')"
  "op_zoom get put n u = (r, u') \<longleftrightarrow> (\<exists>t. n (get u) = (r, t) \<and> u' = put t u)"
  "op_try k w = (q, w') \<longleftrightarrow> (\<exists>r. k w = (r, w') \<and> q = Inr r)"
  by (auto simp: op_defs result_iffs split: prod.splits)

text \<open>
  An operation keeps a property of the state when it holds after every outcome; composition
  keeps it, so an invariant is checked statement by statement.
\<close>

definition keeps :: "('s \<Rightarrow> bool) \<Rightarrow> ('s, 'a) op \<Rightarrow> bool" where
  "keeps I m \<longleftrightarrow> (\<forall>s. I s \<longrightarrow> I (snd (m s)))"

named_theorems keeps_intros \<open>operations that keep a property of the state\<close>

lemma keepsD: "keeps I m \<Longrightarrow> m s = (r, s') \<Longrightarrow> I s \<Longrightarrow> I s'"
  by (metis keeps_def snd_conv)

lemma keeps_bind [keeps_intros]:
  assumes "keeps I m" "\<And>x. keeps I (f x)"
  shows "keeps I (op_bind m f)"
  using assms unfolding keeps_def op_bind_def by (auto split: prod.splits sum.splits)

lemma keeps_simple [keeps_intros]:
  "keeps I (op_return x)" "keeps I (op_fail e)" "keeps I (op_bail t)" "keeps I (op_result r)" "keeps I (op_get g)"
  by (simp_all add: keeps_def op_defs)

lemma keeps_wrapped [keeps_intros]:
  "keeps I m \<Longrightarrow> keeps I (op_try m)" "keeps I m \<Longrightarrow> keeps I (op_context e m)"
  by (auto simp: keeps_def op_defs split: prod.splits)

lemma keeps_modify: "(\<And>s. I s \<Longrightarrow> I (f s)) \<Longrightarrow> keeps I (op_modify f)"
  by (simp add: keeps_def op_modify_def)

lemma keeps_zoom: "(\<And>t s. I s \<Longrightarrow> I (put t s)) \<Longrightarrow> keeps I (op_zoom get put m)"
  by (simp add: keeps_def op_zoom_def split: prod.splits)

lemma keeps_cases [keeps_intros]:
  "keeps I m \<Longrightarrow> keeps I n \<Longrightarrow> keeps I (if b then m else n)"
  "(\<And>e. keeps I (f1 e)) \<Longrightarrow> (\<And>x. keeps I (f2 x)) \<Longrightarrow> keeps I (case_sum f1 f2 r)"
  "keeps I m \<Longrightarrow> (\<And>x. keeps I (g x)) \<Longrightarrow> keeps I (case_option m g y)"
  "keeps I m \<Longrightarrow> (\<And>x xs. keeps I (h x xs)) \<Longrightarrow> keeps I (case_list m h zs)"
  "(\<And>a b. keeps I (k a b)) \<Longrightarrow> keeps I (case_prod k p)"
  by (simp_all split: sum.split option.split list.split prod.split)

section \<open>Paths\<close>

datatype component = RootDir | CurDir | ParentDir | Normal str

definition named_component :: "str \<Rightarrow> component" where
  "named_component s = (if s = ascii ''..'' then ParentDir else Normal s)"

text \<open>
  \<open>Path::components\<close>: repeated separators and \<open>.\<close> are skipped, except a \<open>.\<close> that starts a relative
  path.
\<close>

definition path_parts :: "path \<Rightarrow> component list" where
  "path_parts p = map named_component (filter (\<lambda>s. s \<noteq> [] \<and> s \<noteq> ascii ''.'') (split_on 47 p))"

definition components :: "path \<Rightarrow> component list" where
  "components p =
    (if p \<noteq> [] \<and> hd p = 47 then [RootDir] else if hd (split_on 47 p) = ascii ''.'' then [CurDir] else [])
    @ path_parts p"

text \<open>\<open>Path::join\<close>.\<close>

definition path_join :: "path \<Rightarrow> path \<Rightarrow> path" where
  "path_join root p =
    (if p \<noteq> [] \<and> hd p = 47 then p
     else if root = [] \<or> last root = 47 then root @ p
     else root @ 47 # p)"

definition is_normal :: "component \<Rightarrow> bool" where
  "is_normal c \<longleftrightarrow> (case c of Normal _ \<Rightarrow> True | _ \<Rightarrow> False)"

definition managed_path :: "path \<Rightarrow> str \<Rightarrow> path option" where
  "managed_path root relative =
    (if list_all is_normal (components relative) then Some (path_join root relative) else None)"

fun component_text :: "component \<Rightarrow> str" where
  "component_text RootDir = ascii ''/''"
| "component_text CurDir = ascii ''.''"
| "component_text ParentDir = ascii ''..''"
| "component_text (Normal s) = s"

fun join_parts :: "str list \<Rightarrow> str" where
  "join_parts [] = []"
| "join_parts [s] = s"
| "join_parts (s # ss) = s @ 47 # join_parts ss"

text \<open>
  \<open>Path::strip_prefix\<close> compares components.  The store strips its root from paths it built below it,
  whose rest is ASCII, so that \<open>to_string_lossy\<close> changes nothing.
\<close>

definition relative_string :: "path \<Rightarrow> path \<Rightarrow> node_error + str" where
  "relative_string root p =
    and_then (ok_or (strip_prefix (components root) (components p))
      (NodeBail ''managed path escaped the data directory'')) (\<lambda>rest.
    Inr (map (\<lambda>b. if b = 92 then 47 else b) (join_parts (map component_text rest))))"

section \<open>Loopback addresses\<close>

text \<open>\<open>ip().is_loopback()\<close> of a socket address.\<close>

fun is_loopback :: "socket_addr \<Rightarrow> bool" where
  "is_loopback (SocketV4 octets port) \<longleftrightarrow> octets \<noteq> [] \<and> hd octets = 127"
| "is_loopback (SocketV6 segments scope port) \<longleftrightarrow> segments = [0, 0, 0, 0, 0, 0, 0, 1]"

section \<open>Facts about paths\<close>

lemma split_on_join: "split_on sep (a @ sep # b) = split_on sep a @ split_on sep b"
proof (induction a)
  case (Cons c a)
  then show ?case using split_on_nonempty [of sep a] by (auto split: list.splits)
qed simp

lemma path_parts_append: "path_parts (a @ 47 # b) = path_parts a @ path_parts b"
  by (simp add: path_parts_def split_on_join)

lemma path_parts_snoc: "path_parts (a @ [47]) = path_parts a"
  using path_parts_append [of a "[]"] by (simp add: path_parts_def)

lemma normal_components: "list_all is_normal (components p) \<Longrightarrow> components p = path_parts p \<and> \<not> (p \<noteq> [] \<and> hd p = 47)"
  by (auto simp: components_def is_normal_def split: if_splits)

lemma components_under: "components (r @ 47 # p) = components (r @ [47]) @ path_parts p"
proof -
  have "hd (r @ 47 # p) = hd (r @ [47])" by (cases r) simp_all
  moreover have "hd (split_on 47 (r @ 47 # p)) = hd (split_on 47 (r @ [47]))"
    using split_on_nonempty [of 47 r] split_on_join [of 47 r "[]"] by (simp add: split_on_join)
  ultimately show ?thesis using path_parts_append [of r p] by (simp add: components_def path_parts_snoc)
qed

lemma components_trailing: "r \<noteq> [] \<Longrightarrow> components (r @ [47]) = components r"
  using split_on_nonempty [of 47 r] by (simp add: components_def path_parts_snoc split_on_join)

text \<open>A managed path lies below the root: the components of the root, then only names.\<close>

lemma managed_path_inside:
  assumes "managed_path root relative = Some p"
  shows "components p = components root @ path_parts relative" "list_all is_normal (path_parts relative)"
proof -
  have n: "list_all is_normal (components relative)" "p = path_join root relative"
    using assms by (auto simp: managed_path_def split: if_splits)
  note parts = normal_components [OF n(1)]
  then show "list_all is_normal (path_parts relative)" using n(1) by simp
  show "components p = components root @ path_parts relative"
  proof (cases root rule: rev_cases)
    case Nil
    then show ?thesis using n(2) parts by (auto simp: path_join_def components_def path_parts_def ascii_def)
  next
    case (snoc r b)
    then have "p = (if b = 47 then r @ 47 # relative else root @ 47 # relative)"
      using n(2) parts by (simp add: path_join_def)
    then show ?thesis
      using components_under [of r relative] components_under [of root relative] components_trailing [of root] snoc
      by (simp split: if_splits)
  qed
qed

end
