(* ===== verification/Node_Config.thy ===== *)
theory Node_Config
  imports Node_Base
begin

text \<open>
  \<open>NodeConfig\<close> of \<open>triptorrent-node/src/lib.rs\<close> and \<open>LocalApiConnection::from_config\<close> of
  \<open>triptorrent-node-api/src/lib.rs\<close>: defaults, precedence of the configuration file, the environment
  and the command line, validation, loading and creating the file.  The TOML library is a pair of
  parameters.
\<close>

section \<open>Definitions\<close>

definition MAX_CONFIG_BYTES :: nat where
  "MAX_CONFIG_BYTES = 64 * 1024"

record node_config =
  nc_data_dir :: path
  nc_api_listen :: socket_addr
  nc_bootstrap :: "socket_addr option"
  nc_download_limit :: u64
  nc_upload_limit :: u64
  nc_max_concurrent_transfers :: nat
  nc_log_level :: str
  nc_api_token :: str

definition node_config_default :: node_config where
  "node_config_default = \<lparr>nc_data_dir = ascii ''triptorrent-data'', nc_api_listen = SocketV4 [127, 0, 0, 1] 7331,
    nc_bootstrap = None, nc_download_limit = 0, nc_upload_limit = 0, nc_max_concurrent_transfers = 4,
    nc_log_level = ascii ''info'', nc_api_token = []\<rparr>"

record config_overrides =
  co_data_dir :: "path option"
  co_api_listen :: "socket_addr option"
  co_bootstrap :: "socket_addr option"
  co_download_limit :: "u64 option"
  co_upload_limit :: "u64 option"
  co_max_concurrent_transfers :: "nat option"
  co_log_level :: "str option"

text \<open>\<open>initialized\<close> on the outcome of \<open>getrandom::fill\<close>.\<close>

definition initialized :: "(u8 list \<Rightarrow> str) \<Rightarrow> u8 list option \<Rightarrow> path \<Rightarrow> node_error + node_config" where
  "initialized hex_encode token_bytes data_dir =
    and_then (ok_or token_bytes (NodeBail ''failed to generate API token'')) (\<lambda>token_bytes.
    Inr (node_config_default\<lparr>nc_data_dir := data_dir, nc_api_token := hex_encode token_bytes\<rparr>))"

definition parse_u64 :: "str \<Rightarrow> u64 option" where
  "parse_u64 t = Option.bind (parse_decimal t) u64_try_from"

definition validate_config :: "node_config \<Rightarrow> node_error + unit" where
  "validate_config c =
    (if \<not> is_loopback (nc_api_listen c) then Inl (NodeBail ''local API address must be loopback'')
     else if length (nc_api_token c) < 32 then Inl (NodeBail ''api_token must contain at least 32 characters'')
     else if nc_max_concurrent_transfers c = 0 then Inl (NodeBail ''max_concurrent_transfers must be at least one'')
     else if 128 < nc_max_concurrent_transfers c then Inl (NodeBail ''max_concurrent_transfers must not exceed 128'')
     else if 512 < length (nc_api_token c) \<or> 256 < length (nc_log_level c)
     then Inl (NodeBail ''configuration text field exceeds its limit'')
     else Inr ())"

text \<open>One \<open>if let Some(value) = environment.get(name)\<close>.\<close>

definition from_environment ::
  "(str \<rightharpoonup> str) \<Rightarrow> string \<Rightarrow> (str \<Rightarrow> 'a option) \<Rightarrow> ('a \<Rightarrow> node_config \<Rightarrow> node_config) \<Rightarrow> node_config \<Rightarrow>
   node_error + node_config" where
  "from_environment environment name parse set_field c =
    (case environment (ascii name) of
       None \<Rightarrow> Inr c
     | Some v \<Rightarrow> and_then (ok_or (parse v) (NodeBail (''invalid '' @ name))) (\<lambda>v. Inr (set_field v c)))"

definition from_override :: "'a option \<Rightarrow> ('a \<Rightarrow> node_config \<Rightarrow> node_config) \<Rightarrow> node_config \<Rightarrow> node_config" where
  "from_override v set_field c = (case v of None \<Rightarrow> c | Some v \<Rightarrow> set_field v c)"

definition merge_config ::
  "node_config \<Rightarrow> (str \<rightharpoonup> str) \<Rightarrow> config_overrides \<Rightarrow> node_error + node_config" where
  "merge_config c environment overrides =
    and_then (from_environment environment ''TRIPTORRENT_DATA_DIR'' Some (\<lambda>v. nc_data_dir_update (\<lambda>_. v)) c) (\<lambda>c.
    and_then (from_environment environment ''TRIPTORRENT_API_LISTEN'' parse_socket_addr (\<lambda>v. nc_api_listen_update (\<lambda>_. v)) c) (\<lambda>c.
    and_then (from_environment environment ''TRIPTORRENT_BOOTSTRAP'' parse_socket_addr
      (\<lambda>v. nc_bootstrap_update (\<lambda>_. Some v)) c) (\<lambda>c.
    and_then (from_environment environment ''TRIPTORRENT_DOWNLOAD_LIMIT'' parse_u64 (\<lambda>v. nc_download_limit_update (\<lambda>_. v)) c) (\<lambda>c.
    and_then (from_environment environment ''TRIPTORRENT_UPLOAD_LIMIT'' parse_u64 (\<lambda>v. nc_upload_limit_update (\<lambda>_. v)) c) (\<lambda>c.
    and_then (from_environment environment ''TRIPTORRENT_MAX_CONCURRENT_TRANSFERS'' parse_usize
      (\<lambda>v. nc_max_concurrent_transfers_update (\<lambda>_. v)) c) (\<lambda>c.
    and_then (from_environment environment ''TRIPTORRENT_LOG'' Some (\<lambda>v. nc_log_level_update (\<lambda>_. v)) c) (\<lambda>c.
    let c = from_override (co_data_dir overrides) (\<lambda>v. nc_data_dir_update (\<lambda>_. v)) c;
        c = from_override (co_api_listen overrides) (\<lambda>v. nc_api_listen_update (\<lambda>_. v)) c;
        c = from_override (co_bootstrap overrides) (\<lambda>v. nc_bootstrap_update (\<lambda>_. Some v)) c;
        c = from_override (co_download_limit overrides) (\<lambda>v. nc_download_limit_update (\<lambda>_. v)) c;
        c = from_override (co_upload_limit overrides) (\<lambda>v. nc_upload_limit_update (\<lambda>_. v)) c;
        c = from_override (co_max_concurrent_transfers overrides) (\<lambda>v. nc_max_concurrent_transfers_update (\<lambda>_. v)) c;
        c = from_override (co_log_level overrides) (\<lambda>v. nc_log_level_update (\<lambda>_. v)) c
    in and_then (validate_config c) (\<lambda>_. Inr c))))))))"

text \<open>
  \<open>environment_values\<close>: the variables of the process that are set to UTF-8 text.
\<close>

definition environment_names :: "string list" where
  "environment_names = [''TRIPTORRENT_DATA_DIR'', ''TRIPTORRENT_API_LISTEN'', ''TRIPTORRENT_BOOTSTRAP'',
    ''TRIPTORRENT_DOWNLOAD_LIMIT'', ''TRIPTORRENT_UPLOAD_LIMIT'', ''TRIPTORRENT_MAX_CONCURRENT_TRANSFERS'',
    ''TRIPTORRENT_LOG'']"

definition environment_values :: "(str \<rightharpoonup> u8 list) \<Rightarrow> (str \<rightharpoonup> str)" where
  "environment_values variables name =
    (if name \<in> ascii ` set environment_names
     then Option.bind (variables name) (\<lambda>v. if utf8 v then Some v else None) else None)"

text \<open>\<open>fs::metadata(path)?.len()\<close> and \<open>fs::read_to_string\<close>.\<close>

definition fs_length :: "path \<Rightarrow> nat act" where
  "fs_length p = act_bind (fs_read p) (\<lambda>bytes. act_return (length bytes))"

definition read_to_string :: "path \<Rightarrow> (disk, str) op" where
  "read_to_string p = op_bind (op_act (fs_read p)) (\<lambda>bytes. op_result (if utf8 bytes then Inr bytes else Inl NodeIo))"

definition load_config ::
  "(str \<Rightarrow> node_config option) \<Rightarrow> (str \<rightharpoonup> u8 list) \<Rightarrow> path \<Rightarrow> config_overrides \<Rightarrow> (disk, node_config) op" where
  "load_config toml_from variables p overrides =
    op_bind (op_act (fs_length p)) (\<lambda>len.
    if MAX_CONFIG_BYTES < len then op_bail ''node config exceeds 64 KiB limit''
    else
      op_bind (op_context (NodeText (ascii ''failed to read node config '' @ p)) (read_to_string p)) (\<lambda>encoded.
      op_bind (op_result (ok_or (toml_from encoded) (NodeText (ascii ''invalid node config '' @ p)))) (\<lambda>c.
      op_result (merge_config c (environment_values variables) overrides))))"

text \<open>Creating the missing parent directories of the file may fail; directories are not kept in \<open>disk\<close>.\<close>

definition fs_create_dirs :: "unit act" where
  "fs_create_dirs d = (case next_fault d of (None, d) \<Rightarrow> (Inr (), d) | (Some _, d) \<Rightarrow> (Inl CliIo, d))"

text \<open>\<open>create_new(true)\<close> refuses an existing file.\<close>

definition fs_create_new :: "path \<Rightarrow> unit act" where
  "fs_create_new p d =
    (case next_fault d of
       (Some _, d) \<Rightarrow> (Inl CliIo, d)
     | (None, d) \<Rightarrow> if fs_exists p d then (Inl CliIo, d) else (Inr (), d\<lparr>files := (files d)(p \<mapsto> [])\<rparr>))"

definition create_config :: "(node_config \<Rightarrow> str option) \<Rightarrow> node_config \<Rightarrow> path \<Rightarrow> (disk, unit) op" where
  "create_config toml_to c p =
    op_bind (op_result (validate_config c)) (\<lambda>_.
    op_bind (op_get (fs_exists p)) (\<lambda>present.
    if present then op_fail (NodeText (ascii ''config already exists: '' @ p))
    else
      op_bind (op_act fs_create_dirs) (\<lambda>_.
      op_bind (op_result (ok_or (toml_to c) (NodeBail ''configuration cannot be written as TOML''))) (\<lambda>encoded.
      op_bind (op_act (fs_create_new p)) (\<lambda>_.
      op_act (fs_write_at p 0 encoded))))))"

text \<open>
  \<open>LocalApiConnection::from_config\<close>: the client reads the same file, with the two fields it needs.
\<close>

definition connection_from_config ::
  "(str \<Rightarrow> (socket_addr \<times> str) option) \<Rightarrow> path \<Rightarrow> (disk, socket_addr \<times> str) op" where
  "connection_from_config toml_from p =
    op_bind (op_context (NodeText (ascii ''failed to read node config '' @ p)) (read_to_string p)) (\<lambda>encoded.
    op_bind (op_result (ok_or (toml_from encoded) (NodeText (ascii ''invalid node config '' @ p)))) (\<lambda>(api_listen, api_token).
    if \<not> is_loopback api_listen then op_bail ''local API address must be loopback''
    else if length api_token < 32 then op_bail ''node API token is missing or invalid''
    else op_return (api_listen, api_token)))"

section \<open>Precedence\<close>

definition chosen :: "'a option \<Rightarrow> (str \<rightharpoonup> str) \<Rightarrow> string \<Rightarrow> (str \<Rightarrow> 'a option) \<Rightarrow> 'a \<Rightarrow> 'a" where
  "chosen override environment name parse v =
    (case override of Some w \<Rightarrow> w
     | None \<Rightarrow> (case Option.bind (environment (ascii name)) parse of Some w \<Rightarrow> w | None \<Rightarrow> v))"

definition readable :: "(str \<rightharpoonup> str) \<Rightarrow> string \<Rightarrow> (str \<Rightarrow> 'a option) \<Rightarrow> bool" where
  "readable environment name parse \<longleftrightarrow> (case environment (ascii name) of None \<Rightarrow> True | Some t \<Rightarrow> parse t \<noteq> None)"

text \<open>Setting a field or leaving it is setting it to the value chosen.\<close>

lemma from_environment_fields:
  "from_environment environment name parse0 (\<lambda>v. nc_data_dir_update (\<lambda>_. v))
      \<lparr>nc_data_dir = a, nc_api_listen = b, nc_bootstrap = d, nc_download_limit = e, nc_upload_limit = f, nc_max_concurrent_transfers = g, nc_log_level = h, nc_api_token = k\<rparr>
    = (if readable environment name parse0 then Inr \<lparr>nc_data_dir = chosen None environment name parse0 a, nc_api_listen = b, nc_bootstrap = d, nc_download_limit = e, nc_upload_limit = f, nc_max_concurrent_transfers = g, nc_log_level = h, nc_api_token = k\<rparr>
       else Inl (NodeBail (''invalid '' @ name)))"
  "from_environment environment name parse1 (\<lambda>v. nc_api_listen_update (\<lambda>_. v))
      \<lparr>nc_data_dir = a, nc_api_listen = b, nc_bootstrap = d, nc_download_limit = e, nc_upload_limit = f, nc_max_concurrent_transfers = g, nc_log_level = h, nc_api_token = k\<rparr>
    = (if readable environment name parse1 then Inr \<lparr>nc_data_dir = a, nc_api_listen = chosen None environment name parse1 b, nc_bootstrap = d, nc_download_limit = e, nc_upload_limit = f, nc_max_concurrent_transfers = g, nc_log_level = h, nc_api_token = k\<rparr>
       else Inl (NodeBail (''invalid '' @ name)))"
  "from_environment environment name parse2 (\<lambda>v. nc_bootstrap_update (\<lambda>_. Some v))
      \<lparr>nc_data_dir = a, nc_api_listen = b, nc_bootstrap = d, nc_download_limit = e, nc_upload_limit = f, nc_max_concurrent_transfers = g, nc_log_level = h, nc_api_token = k\<rparr>
    = (if readable environment name parse2 then Inr \<lparr>nc_data_dir = a, nc_api_listen = b, nc_bootstrap = chosen None environment name (\<lambda>t. map_option Some (parse2 t)) d, nc_download_limit = e, nc_upload_limit = f, nc_max_concurrent_transfers = g, nc_log_level = h, nc_api_token = k\<rparr>
       else Inl (NodeBail (''invalid '' @ name)))"
  "from_environment environment name parse3 (\<lambda>v. nc_download_limit_update (\<lambda>_. v))
      \<lparr>nc_data_dir = a, nc_api_listen = b, nc_bootstrap = d, nc_download_limit = e, nc_upload_limit = f, nc_max_concurrent_transfers = g, nc_log_level = h, nc_api_token = k\<rparr>
    = (if readable environment name parse3 then Inr \<lparr>nc_data_dir = a, nc_api_listen = b, nc_bootstrap = d, nc_download_limit = chosen None environment name parse3 e, nc_upload_limit = f, nc_max_concurrent_transfers = g, nc_log_level = h, nc_api_token = k\<rparr>
       else Inl (NodeBail (''invalid '' @ name)))"
  "from_environment environment name parse4 (\<lambda>v. nc_upload_limit_update (\<lambda>_. v))
      \<lparr>nc_data_dir = a, nc_api_listen = b, nc_bootstrap = d, nc_download_limit = e, nc_upload_limit = f, nc_max_concurrent_transfers = g, nc_log_level = h, nc_api_token = k\<rparr>
    = (if readable environment name parse4 then Inr \<lparr>nc_data_dir = a, nc_api_listen = b, nc_bootstrap = d, nc_download_limit = e, nc_upload_limit = chosen None environment name parse4 f, nc_max_concurrent_transfers = g, nc_log_level = h, nc_api_token = k\<rparr>
       else Inl (NodeBail (''invalid '' @ name)))"
  "from_environment environment name parse5 (\<lambda>v. nc_max_concurrent_transfers_update (\<lambda>_. v))
      \<lparr>nc_data_dir = a, nc_api_listen = b, nc_bootstrap = d, nc_download_limit = e, nc_upload_limit = f, nc_max_concurrent_transfers = g, nc_log_level = h, nc_api_token = k\<rparr>
    = (if readable environment name parse5 then Inr \<lparr>nc_data_dir = a, nc_api_listen = b, nc_bootstrap = d, nc_download_limit = e, nc_upload_limit = f, nc_max_concurrent_transfers = chosen None environment name parse5 g, nc_log_level = h, nc_api_token = k\<rparr>
       else Inl (NodeBail (''invalid '' @ name)))"
  "from_environment environment name parse6 (\<lambda>v. nc_log_level_update (\<lambda>_. v))
      \<lparr>nc_data_dir = a, nc_api_listen = b, nc_bootstrap = d, nc_download_limit = e, nc_upload_limit = f, nc_max_concurrent_transfers = g, nc_log_level = h, nc_api_token = k\<rparr>
    = (if readable environment name parse6 then Inr \<lparr>nc_data_dir = a, nc_api_listen = b, nc_bootstrap = d, nc_download_limit = e, nc_upload_limit = f, nc_max_concurrent_transfers = g, nc_log_level = chosen None environment name parse6 h, nc_api_token = k\<rparr>
       else Inl (NodeBail (''invalid '' @ name)))"
  by (auto simp: from_environment_def readable_def chosen_def split: option.splits)

lemma from_override_fields:
  "from_override w0 (\<lambda>v. nc_data_dir_update (\<lambda>_. v)) \<lparr>nc_data_dir = a, nc_api_listen = b, nc_bootstrap = d, nc_download_limit = e, nc_upload_limit = f, nc_max_concurrent_transfers = g, nc_log_level = h, nc_api_token = k\<rparr>
    = \<lparr>nc_data_dir = (case w0 of Some w \<Rightarrow> w | None \<Rightarrow> a), nc_api_listen = b, nc_bootstrap = d, nc_download_limit = e, nc_upload_limit = f, nc_max_concurrent_transfers = g, nc_log_level = h, nc_api_token = k\<rparr>"
  "from_override w1 (\<lambda>v. nc_api_listen_update (\<lambda>_. v)) \<lparr>nc_data_dir = a, nc_api_listen = b, nc_bootstrap = d, nc_download_limit = e, nc_upload_limit = f, nc_max_concurrent_transfers = g, nc_log_level = h, nc_api_token = k\<rparr>
    = \<lparr>nc_data_dir = a, nc_api_listen = (case w1 of Some w \<Rightarrow> w | None \<Rightarrow> b), nc_bootstrap = d, nc_download_limit = e, nc_upload_limit = f, nc_max_concurrent_transfers = g, nc_log_level = h, nc_api_token = k\<rparr>"
  "from_override w2 (\<lambda>v. nc_bootstrap_update (\<lambda>_. Some v)) \<lparr>nc_data_dir = a, nc_api_listen = b, nc_bootstrap = d, nc_download_limit = e, nc_upload_limit = f, nc_max_concurrent_transfers = g, nc_log_level = h, nc_api_token = k\<rparr>
    = \<lparr>nc_data_dir = a, nc_api_listen = b, nc_bootstrap = (case w2 of Some w \<Rightarrow> Some w | None \<Rightarrow> d), nc_download_limit = e, nc_upload_limit = f, nc_max_concurrent_transfers = g, nc_log_level = h, nc_api_token = k\<rparr>"
  "from_override w3 (\<lambda>v. nc_download_limit_update (\<lambda>_. v)) \<lparr>nc_data_dir = a, nc_api_listen = b, nc_bootstrap = d, nc_download_limit = e, nc_upload_limit = f, nc_max_concurrent_transfers = g, nc_log_level = h, nc_api_token = k\<rparr>
    = \<lparr>nc_data_dir = a, nc_api_listen = b, nc_bootstrap = d, nc_download_limit = (case w3 of Some w \<Rightarrow> w | None \<Rightarrow> e), nc_upload_limit = f, nc_max_concurrent_transfers = g, nc_log_level = h, nc_api_token = k\<rparr>"
  "from_override w4 (\<lambda>v. nc_upload_limit_update (\<lambda>_. v)) \<lparr>nc_data_dir = a, nc_api_listen = b, nc_bootstrap = d, nc_download_limit = e, nc_upload_limit = f, nc_max_concurrent_transfers = g, nc_log_level = h, nc_api_token = k\<rparr>
    = \<lparr>nc_data_dir = a, nc_api_listen = b, nc_bootstrap = d, nc_download_limit = e, nc_upload_limit = (case w4 of Some w \<Rightarrow> w | None \<Rightarrow> f), nc_max_concurrent_transfers = g, nc_log_level = h, nc_api_token = k\<rparr>"
  "from_override w5 (\<lambda>v. nc_max_concurrent_transfers_update (\<lambda>_. v)) \<lparr>nc_data_dir = a, nc_api_listen = b, nc_bootstrap = d, nc_download_limit = e, nc_upload_limit = f, nc_max_concurrent_transfers = g, nc_log_level = h, nc_api_token = k\<rparr>
    = \<lparr>nc_data_dir = a, nc_api_listen = b, nc_bootstrap = d, nc_download_limit = e, nc_upload_limit = f, nc_max_concurrent_transfers = (case w5 of Some w \<Rightarrow> w | None \<Rightarrow> g), nc_log_level = h, nc_api_token = k\<rparr>"
  "from_override w6 (\<lambda>v. nc_log_level_update (\<lambda>_. v)) \<lparr>nc_data_dir = a, nc_api_listen = b, nc_bootstrap = d, nc_download_limit = e, nc_upload_limit = f, nc_max_concurrent_transfers = g, nc_log_level = h, nc_api_token = k\<rparr>
    = \<lparr>nc_data_dir = a, nc_api_listen = b, nc_bootstrap = d, nc_download_limit = e, nc_upload_limit = f, nc_max_concurrent_transfers = g, nc_log_level = (case w6 of Some w \<Rightarrow> w | None \<Rightarrow> h), nc_api_token = k\<rparr>"
  by (auto simp: from_override_def split: option.splits)

lemma chosen_override:
  "(case v of Some w \<Rightarrow> w | None \<Rightarrow> chosen None environment name parse d) = chosen v environment name parse d"
  "(case y of Some w \<Rightarrow> Some w | None \<Rightarrow> chosen None environment name parse_addr b)
    = chosen (map_option Some y) environment name parse_addr b"
  by (auto simp: chosen_def split: option.splits)

lemma readable_Some: "readable environment name Some"
  by (simp add: readable_def split: option.splits)

text \<open>
  Configuration precedence: merging succeeds exactly when every variable that is set can be read
  and the merged configuration is valid, and each field of it comes from the command line, else from the
  environment, else from the file.
\<close>

theorem merge_precedence:
  "merge_config c environment overrides = Inr c' \<longleftrightarrow>
    readable environment ''TRIPTORRENT_API_LISTEN'' parse_socket_addr
    \<and> readable environment ''TRIPTORRENT_BOOTSTRAP'' parse_socket_addr
    \<and> readable environment ''TRIPTORRENT_DOWNLOAD_LIMIT'' parse_u64
    \<and> readable environment ''TRIPTORRENT_UPLOAD_LIMIT'' parse_u64
    \<and> readable environment ''TRIPTORRENT_MAX_CONCURRENT_TRANSFERS'' parse_usize
    \<and> validate_config c' = Inr ()
    \<and> c' = \<lparr>nc_data_dir = chosen (co_data_dir overrides) environment ''TRIPTORRENT_DATA_DIR'' Some (nc_data_dir c),
        nc_api_listen = chosen (co_api_listen overrides) environment ''TRIPTORRENT_API_LISTEN'' parse_socket_addr (nc_api_listen c),
        nc_bootstrap = chosen (map_option Some (co_bootstrap overrides)) environment ''TRIPTORRENT_BOOTSTRAP''
          (\<lambda>t. map_option Some (parse_socket_addr t)) (nc_bootstrap c),
        nc_download_limit = chosen (co_download_limit overrides) environment ''TRIPTORRENT_DOWNLOAD_LIMIT'' parse_u64
          (nc_download_limit c),
        nc_upload_limit = chosen (co_upload_limit overrides) environment ''TRIPTORRENT_UPLOAD_LIMIT'' parse_u64 (nc_upload_limit c),
        nc_max_concurrent_transfers = chosen (co_max_concurrent_transfers overrides) environment
          ''TRIPTORRENT_MAX_CONCURRENT_TRANSFERS'' parse_usize (nc_max_concurrent_transfers c),
        nc_log_level = chosen (co_log_level overrides) environment ''TRIPTORRENT_LOG'' Some (nc_log_level c),
        nc_api_token = nc_api_token c\<rparr>"
proof (cases c)
  case (fields a b d e f g h k)
  show ?thesis
    unfolding fields merge_config_def Let_def
    by (simp add: from_environment_fields from_override_fields chosen_override readable_Some result_iffs split: if_splits) auto
qed

section \<open>The file\<close>

text \<open>
  What is relied on of the TOML library: text written for a configuration is UTF-8 and reads back,
  as the whole configuration for the daemon and as its two fields for the client.
\<close>

definition toml_codec ::
  "(node_config \<Rightarrow> str option) \<Rightarrow> (str \<Rightarrow> node_config option) \<Rightarrow> (str \<Rightarrow> (socket_addr \<times> str) option) \<Rightarrow> bool" where
  "toml_codec toml_to toml_from toml_connection \<longleftrightarrow>
    (\<forall>c t. toml_to c = Some t \<longrightarrow> utf8 t \<and> toml_from t = Some c \<and> toml_connection t = Some (nc_api_listen c, nc_api_token c))"

definition no_overrides :: config_overrides where
  "no_overrides = \<lparr>co_data_dir = None, co_api_listen = None, co_bootstrap = None, co_download_limit = None,
    co_upload_limit = None, co_max_concurrent_transfers = None, co_log_level = None\<rparr>"

lemma validate_loopback:
  "validate_config c = Inr () \<Longrightarrow> is_loopback (nc_api_listen c) \<and> 32 \<le> length (nc_api_token c)"
  by (auto simp: validate_config_def split: if_splits)

lemma merge_nothing:
  "validate_config c = Inr () \<Longrightarrow> merge_config c Map.empty no_overrides = Inr c"
  by (simp add: merge_config_def from_environment_def from_override_def no_overrides_def Let_def)

lemma overwrite_empty: "overwrite 0 bytes [] = bytes"
  by (simp add: overwrite_def)

lemma create_config_written:
  assumes "create_config toml_to c p d = (Inr u, d')"
  shows "validate_config c = Inr () \<and> files d p = None
    \<and> (\<exists>encoded. toml_to c = Some encoded \<and> files d' = (files d)(p \<mapsto> encoded))"
proof -
  obtain d1 d2 encoded where v: "validate_config c = Inr ()" "files d p = None" "toml_to c = Some encoded"
    and 1: "fs_create_dirs d = (Inr (), d1)" and 2: "fs_create_new p d1 = (Inr (), d2)"
    and 3: "fs_write_at p 0 encoded d2 = (Inr u, d')"
    using assms by (auto simp: create_config_def fs_exists_def result_iffs split: if_splits)
  have "files d1 = files d"
    using 1 by (auto simp: fs_create_dirs_def split: prod.splits option.splits dest: next_fault_files)
  then have "files d2 = (files d)(p \<mapsto> [])"
    using 2 by (auto simp: fs_create_new_def split: prod.splits option.splits if_splits dest!: next_fault_files)
  then have "files d' = (files d)(p \<mapsto> encoded)"
    using 3 by (auto simp: fs_write_at_def overwrite_empty split: prod.splits option.splits fault.splits dest!: next_fault_files)
  then show ?thesis using v by auto
qed

text \<open>
  One file configures both programs: after the file was created, the daemon loads the
  configuration it was created from, and the client reads the address and the token of that daemon;
  nothing was overwritten.
\<close>

theorem config_file_agreement:
  assumes "toml_codec toml_to toml_from toml_connection" "create_config toml_to c p d = (Inr u, d')"
    and "faults d' = []" "\<And>encoded. toml_to c = Some encoded \<Longrightarrow> length encoded \<le> MAX_CONFIG_BYTES"
  shows "fst (load_config toml_from Map.empty p no_overrides d') = Inr c
    \<and> fst (connection_from_config toml_connection p d') = Inr (nc_api_listen c, nc_api_token c)
    \<and> files d p = None \<and> (\<forall>q. q \<noteq> p \<longrightarrow> files d' q = files d q)"
proof -
  obtain encoded where w: "validate_config c = Inr ()" "files d p = None" "toml_to c = Some encoded"
    "files d' = (files d)(p \<mapsto> encoded)"
    using create_config_written [OF assms(2)] by auto
  have t: "utf8 encoded" "toml_from encoded = Some c" "toml_connection encoded = Some (nc_api_listen c, nc_api_token c)"
    using assms(1) w(3) by (auto simp: toml_codec_def)
  have r: "fs_read p d' = (Inr encoded, d')" by (simp add: fs_read_def next_fault_def assms(3) w(4))
  have env: "environment_values Map.empty = Map.empty" by (auto simp: environment_values_def)
  have "fst (load_config toml_from Map.empty p no_overrides d') = Inr c"
    using assms(4) w(3) t merge_nothing [OF w(1)]
    by (simp add: load_config_def fs_length_def read_to_string_def op_defs r act_bind_def act_return_def env not_less)
  moreover have "fst (connection_from_config toml_connection p d') = Inr (nc_api_listen c, nc_api_token c)"
    using t validate_loopback [OF w(1)]
    by (simp add: connection_from_config_def read_to_string_def op_defs r)
  ultimately show ?thesis using w by simp
qed

definition demo_config :: node_config where
  "demo_config = node_config_default\<lparr>nc_api_token := replicate 32 65\<rparr>"

definition demo_toml_to :: "node_config \<Rightarrow> str option" where
  "demo_toml_to c = (if c = demo_config then Some (ascii ''demo'') else None)"

lemma demo_config_valid: "validate_config demo_config = Inr ()"
  by (simp add: validate_config_def demo_config_def node_config_default_def ascii_def)

theorem config_file_agreement_witness:
  "\<exists>d'. create_config demo_toml_to demo_config (ascii ''node.toml'') \<lparr>files = Map.empty, faults = []\<rparr> = (Inr (), d')
    \<and> fst (load_config (\<lambda>_. Some demo_config) Map.empty (ascii ''node.toml'') no_overrides d') = Inr demo_config
    \<and> fst (connection_from_config (\<lambda>_. Some (nc_api_listen demo_config, nc_api_token demo_config)) (ascii ''node.toml'') d')
      = Inr (nc_api_listen demo_config, nc_api_token demo_config)"
proof -
  let ?d = "\<lparr>files = Map.empty, faults = []\<rparr>" and ?p = "ascii ''node.toml''"
  let ?d' = "\<lparr>files = [?p \<mapsto> ascii ''demo''], faults = []\<rparr>"
  have c: "create_config demo_toml_to demo_config ?p ?d = (Inr (), ?d')"
    by (simp add: create_config_def op_defs demo_config_valid fs_exists_def fs_create_dirs_def fs_create_new_def next_fault_def
        demo_toml_to_def fs_write_at_def overwrite_empty)
  have codec: "toml_codec demo_toml_to (\<lambda>_. Some demo_config) (\<lambda>_. Some (nc_api_listen demo_config, nc_api_token demo_config))"
    by (auto simp: toml_codec_def demo_toml_to_def ascii_def)
  show ?thesis
    using config_file_agreement [OF codec c] c by (auto simp: demo_toml_to_def MAX_CONFIG_BYTES_def ascii_def)
qed

end
