(* ===== verification/Magnet.thy ===== *)
theory Magnet
  imports Rust_Str
begin

text \<open>
  Magnet links and torrent path components (\<open>parse_magnet\<close>, \<open>parse_exact_topic\<close>,
  \<open>percent_decode\<close>, \<open>decode_base32\<close> and \<open>sanitize_path_component\<close> of
  \<open>triptorrent-interop/src/lib.rs\<close>).  The \<open>hex\<close> crate and the normalisation of the
  \<open>unicode-normalization\<close> crate are parameters; \<open>hex_codec\<close> and \<open>nfc_form\<close> name what their
  documentation promises.
\<close>

unbundle bit_operations_syntax

section \<open>Magnet links\<close>

definition MAX_MAGNET_LENGTH :: nat where
  "MAX_MAGNET_LENGTH = 64 * 1024"

definition MAX_MAGNET_PARAMETERS :: nat where
  "MAX_MAGNET_PARAMETERS = 1024"

record magnet =
  mg_btih :: "str list"
  mg_btmh_sha256 :: "str list"
  mg_other_exact_topics :: "str list"
  mg_display_names :: "str list"
  mg_trackers :: "str list"
  mg_explicit_peers :: "str list"
  mg_web_seeds :: "str list"
  mg_acceptable_sources :: "str list"
  mg_exact_sources :: "str list"
  mg_other :: "str \<rightharpoonup> str list"

definition magnet_default :: magnet where
  "magnet_default = \<lparr>mg_btih = [], mg_btmh_sha256 = [], mg_other_exact_topics = [],
    mg_display_names = [], mg_trackers = [], mg_explicit_peers = [], mg_web_seeds = [],
    mg_acceptable_sources = [], mg_exact_sources = [], mg_other = Map.empty\<rparr>"

datatype magnet_error = Scheme | Encoding | MissingExactTopic | InvalidExactTopic | MagnetTooLarge

definition hex_digit :: "u8 \<Rightarrow> magnet_error + u8" where
  "hex_digit v =
    (if 48 \<le> v \<and> v \<le> 57 then Inr (v - 48)
     else if 97 \<le> v \<and> v \<le> 102 then Inr (v - 97 + 10)
     else if 65 \<le> v \<and> v \<le> 70 then Inr (v - 65 + 10)
     else Inl Encoding)"

text \<open>The loop of \<open>percent_decode\<close> on the bytes from the index on.\<close>

fun percent_loop :: "u8 list \<Rightarrow> magnet_error + u8 list" where
  "percent_loop [] = Inr []"
| "percent_loop (b # bytes) =
    (if b = 37 then
       (case bytes of
          [] \<Rightarrow> Inl Encoding
        | [high] \<Rightarrow> Inl Encoding
        | high # low # rest \<Rightarrow>
            and_then (hex_digit high) (\<lambda>h.
            and_then (hex_digit low) (\<lambda>l.
            and_then (percent_loop rest) (\<lambda>decoded.
            Inr ((push_bit 4 h OR l) # decoded)))))
     else and_then (percent_loop bytes) (\<lambda>decoded. Inr (b # decoded)))"

definition percent_decode :: "str \<Rightarrow> magnet_error + str" where
  "percent_decode t =
    and_then (percent_loop t) (\<lambda>decoded. if utf8 decoded then Inr decoded else Inl Encoding)"

definition base32_symbol :: "u8 \<Rightarrow> magnet_error + u8" where
  "base32_symbol b =
    (if 97 \<le> b \<and> b \<le> 122 then Inr (b - 97)
     else if 50 \<le> b \<and> b \<le> 55 then Inr (b - 50 + 26)
     else Inl InvalidExactTopic)"

text \<open>
  The loop of \<open>decode_base32\<close>: the accumulator, the number of bits it holds and the bytes that are
  complete.
\<close>

fun base32_loop ::
  "u32 \<Rightarrow> nat \<Rightarrow> u8 list \<Rightarrow> u8 list \<Rightarrow> magnet_error + u32 \<times> nat \<times> u8 list" where
  "base32_loop accumulator bits decoded [] = Inr (accumulator, bits, decoded)"
| "base32_loop accumulator bits decoded (byte # rest) =
    and_then (base32_symbol byte) (\<lambda>symbol.
    let accumulator = push_bit 5 accumulator OR ucast symbol; bits = bits + 5 in
    if 8 \<le> bits then
      let bits = bits - 8 in
      base32_loop (accumulator AND (push_bit bits 1 - 1)) bits
        (decoded @ [ucast (drop_bit bits accumulator)]) rest
    else base32_loop accumulator bits decoded rest)"

definition decode_base32 :: "str \<Rightarrow> magnet_error + u8 list" where
  "decode_base32 t =
    and_then (base32_loop 0 0 [] t) (\<lambda>(accumulator, bits, decoded).
    if bits \<noteq> 0 \<and> accumulator \<noteq> 0 then Inl InvalidExactTopic else Inr decoded)"

definition parse_exact_topic ::
  "(str \<Rightarrow> 'h + u8 list) \<Rightarrow> (u8 list \<Rightarrow> str) \<Rightarrow> str \<Rightarrow> magnet \<Rightarrow> magnet_error + magnet" where
  "parse_exact_topic hex_decode hex_encode v mg =
    (let lower = map to_ascii_lowercase v in
     case strip_prefix (ascii ''urn:btih:'') lower of
       Some encoded \<Rightarrow>
         and_then
           (if length encoded = 40 then map_err (\<lambda>_. InvalidExactTopic) (hex_decode encoded)
            else if length encoded = 32 then decode_base32 encoded
            else Inl InvalidExactTopic) (\<lambda>bytes.
         if length bytes \<noteq> 20 then Inl InvalidExactTopic
         else Inr (mg\<lparr>mg_btih := mg_btih mg @ [hex_encode bytes]\<rparr>))
     | None \<Rightarrow>
         (case strip_prefix (ascii ''urn:btmh:'') lower of
            Some encoded \<Rightarrow>
              and_then (map_err (\<lambda>_. InvalidExactTopic) (hex_decode encoded)) (\<lambda>bytes.
              if length bytes \<noteq> 34 \<or> take 2 bytes \<noteq> [0x12, 0x20] then Inl InvalidExactTopic
              else Inr (mg\<lparr>mg_btmh_sha256 := mg_btmh_sha256 mg @ [hex_encode (drop 2 bytes)]\<rparr>))
          | None \<Rightarrow> Inr (mg\<lparr>mg_other_exact_topics := mg_other_exact_topics mg @ [v]\<rparr>)))"

text \<open>\<open>or_default().push(value)\<close>.\<close>

definition push_other :: "(str \<rightharpoonup> str list) \<Rightarrow> str \<Rightarrow> str \<Rightarrow> (str \<rightharpoonup> str list)" where
  "push_other other name v = other(name \<mapsto> (case other name of None \<Rightarrow> [] | Some vs \<Rightarrow> vs) @ [v])"

definition magnet_parameter ::
  "(str \<Rightarrow> 'h + u8 list) \<Rightarrow> (u8 list \<Rightarrow> str) \<Rightarrow> str \<Rightarrow> str \<Rightarrow> magnet \<Rightarrow> nat \<Rightarrow>
   magnet_error + magnet \<times> nat" where
  "magnet_parameter hex_decode hex_encode name v mg exact_topics =
    (if name = ascii ''xt''
     then and_then (parse_exact_topic hex_decode hex_encode v mg) (\<lambda>mg. Inr (mg, exact_topics + 1))
     else if name = ascii ''dn'' then Inr (mg\<lparr>mg_display_names := mg_display_names mg @ [v]\<rparr>, exact_topics)
     else if name = ascii ''tr'' then Inr (mg\<lparr>mg_trackers := mg_trackers mg @ [v]\<rparr>, exact_topics)
     else if name = ascii ''x.pe'' then Inr (mg\<lparr>mg_explicit_peers := mg_explicit_peers mg @ [v]\<rparr>, exact_topics)
     else if name = ascii ''ws'' then Inr (mg\<lparr>mg_web_seeds := mg_web_seeds mg @ [v]\<rparr>, exact_topics)
     else if name = ascii ''as''
     then Inr (mg\<lparr>mg_acceptable_sources := mg_acceptable_sources mg @ [v]\<rparr>, exact_topics)
     else if name = ascii ''xs'' then Inr (mg\<lparr>mg_exact_sources := mg_exact_sources mg @ [v]\<rparr>, exact_topics)
     else Inr (mg\<lparr>mg_other := push_other (mg_other mg) name v\<rparr>, exact_topics))"

fun magnet_loop ::
  "(str \<Rightarrow> 'h + u8 list) \<Rightarrow> (u8 list \<Rightarrow> str) \<Rightarrow> nat \<Rightarrow> str list \<Rightarrow> magnet \<Rightarrow> nat \<Rightarrow>
   magnet_error + magnet \<times> nat" where
  "magnet_loop hex_decode hex_encode index [] mg exact_topics = Inr (mg, exact_topics)"
| "magnet_loop hex_decode hex_encode index (parameter # rest) mg exact_topics =
    (if MAX_MAGNET_PARAMETERS \<le> index then Inl MagnetTooLarge
     else
       (case unwrap_or (split_once 61 parameter) (parameter, []) of
          (raw_name, raw_value) \<Rightarrow>
            and_then (percent_decode raw_name) (\<lambda>name.
            and_then (percent_decode raw_value) (\<lambda>v.
            and_then (magnet_parameter hex_decode hex_encode name v mg exact_topics)
              (\<lambda>(mg, exact_topics).
            magnet_loop hex_decode hex_encode (index + 1) rest mg exact_topics)))))"

definition parse_magnet ::
  "(str \<Rightarrow> 'h + u8 list) \<Rightarrow> (u8 list \<Rightarrow> str) \<Rightarrow> str \<Rightarrow> magnet_error + magnet" where
  "parse_magnet hex_decode hex_encode uri =
    (if MAX_MAGNET_LENGTH < length uri then Inl MagnetTooLarge
     else
       and_then (ok_or (strip_prefix (ascii ''magnet:?'') uri) Scheme) (\<lambda>query.
       and_then (magnet_loop hex_decode hex_encode 0
           (filter (\<lambda>part. part \<noteq> []) (split_on 38 query)) magnet_default 0) (\<lambda>(mg, exact_topics).
       if exact_topics = 0 then Inl MissingExactTopic else Inr mg)))"

section \<open>Path components\<close>

definition MAX_PATH_COMPONENT_BYTES :: nat where
  "MAX_PATH_COMPONENT_BYTES = 255"

datatype path_error = Structural | Character | WindowsReserved | TooLong

text \<open>\<open>char::is_control\<close>: the general category Cc.\<close>

definition is_control :: "nat \<Rightarrow> bool" where
  "is_control c \<longleftrightarrow> c < 0x20 \<or> 0x7F \<le> c \<and> c < 0xA0"

text \<open>The separators and the other characters that Windows forbids: \<open>\ / : * ? " < > |\<close>.\<close>

definition forbidden_characters :: "nat list" where
  "forbidden_characters = [92, 47, 58, 42, 63, 34, 60, 62, 124]"

definition is_windows_device_name :: "str \<Rightarrow> bool" where
  "is_windows_device_name component =
    (let stem = map to_ascii_uppercase (hd (split_on 46 component)) in
     stem \<in> {ascii ''CON'', ascii ''PRN'', ascii ''AUX'', ascii ''NUL''}
     \<or> (case (case strip_prefix (ascii ''COM'') stem of
                Some suffix \<Rightarrow> Some suffix
              | None \<Rightarrow> strip_prefix (ascii ''LPT'') stem) of
          None \<Rightarrow> False
        | Some suffix \<Rightarrow> suffix \<in> (\<lambda>d. [d]) ` {49, 50, 51, 52, 53, 54, 55, 56, 57}))"

definition sanitize_path_component :: "(str \<Rightarrow> str) \<Rightarrow> str \<Rightarrow> path_error + str" where
  "sanitize_path_component nfc component =
    (let normalized = nfc component in
     if MAX_PATH_COMPONENT_BYTES < length normalized then Inl TooLong
     else if normalized = [] \<or> normalized = ascii ''.'' \<or> normalized = ascii ''..'' then Inl Structural
     else if list_ex (\<lambda>c. is_control c \<or> c \<in> set forbidden_characters) (chars normalized)
     then Inl Character
     else if last normalized \<in> {32, 46} \<or> is_windows_device_name normalized then Inl WindowsReserved
     else Inr normalized)"

section \<open>Base 32\<close>

text \<open>The number that a base-32 string writes, with the lower-case alphabet of RFC 4648.\<close>

definition base32_valid :: "u8 \<Rightarrow> bool" where
  "base32_valid b \<longleftrightarrow> 97 \<le> b \<and> b \<le> 122 \<or> 50 \<le> b \<and> b \<le> 55"

definition base32_digit :: "u8 \<Rightarrow> nat" where
  "base32_digit b = (if 97 \<le> b then unat b - 97 else unat b - 50 + 26)"

definition base32_value :: "str \<Rightarrow> nat" where
  "base32_value t = foldl (\<lambda>n b. 32 * n + base32_digit b) 0 t"

lemma base32_value_shift: "foldl (\<lambda>n b. 32 * n + base32_digit b) a t = a * 32 ^ length t + base32_value t"
proof (induction t arbitrary: a)
  case (Cons b t)
  have "base32_value (b # t) = base32_digit b * 32 ^ length t + base32_value t"
    using Cons.IH [of "base32_digit b"] by (simp add: base32_value_def)
  then show ?case using Cons.IH [of "32 * a + base32_digit b"] by (simp add: algebra_simps)
qed (simp add: base32_value_def)

lemma base32_value_Cons: "base32_value (b # t) = base32_digit b * 32 ^ length t + base32_value t"
  using base32_value_shift [of "base32_digit b" t] by (simp add: base32_value_def)

lemma base32_symbol_valid:
  assumes "base32_valid b"
  obtains s where "base32_symbol b = Inr s" "unat s = base32_digit b" "unat s < 32"
proof (cases "97 \<le> b")
  case True
  then have b: "b \<le> 122" using assms by (auto simp: base32_valid_def word_le_nat_alt)
  have "unat (b - 97) = unat b - 97" using True by (simp add: unat_sub)
  moreover have "unat b \<le> 122" using b by (simp add: word_le_nat_alt)
  ultimately show thesis using that [of "b - 97"] True b by (simp add: base32_symbol_def base32_digit_def)
next
  case False
  then have b: "50 \<le> b" "b \<le> 55" using assms by (auto simp: base32_valid_def)
  have u: "unat (b - 50) = unat b - 50" "50 \<le> unat b" "unat b \<le> 55"
    using b by (simp_all add: unat_sub word_le_nat_alt)
  have "24 \<le> b" using u(2) by (simp add: word_le_nat_alt)
  then have "unat (b - 24) = unat b - 24" by (simp add: unat_sub)
  then have "unat (b - 50 + 26) = unat b - 50 + 26" using u by simp
  then show thesis
    using that [of "b - 50 + 26"] False b u by (simp add: base32_symbol_def base32_digit_def)
qed

lemma base32_symbol_invalid: "\<not> base32_valid b \<Longrightarrow> base32_symbol b = Inl InvalidExactTopic"
  by (auto simp: base32_symbol_def base32_valid_def)

lemma or_shifted:
  fixes a b :: nat
  assumes "b < 2 ^ k"
  shows "push_bit k a OR b = a * 2 ^ k + b"
proof -
  have "b = take_bit k b" using assms by (simp add: take_bit_eq_mod)
  moreover have "push_bit k a AND take_bit k b = 0" by (rule bit_eqI) (auto simp: bit_simps)
  ultimately have "push_bit k a OR b = push_bit k a + b"
    by (intro disjunctive_add_eq_or [symmetric]) simp
  then show ?thesis by (simp add: push_bit_eq_mult)
qed

lemma accumulate:
  fixes a :: u32 and s :: u8
  assumes "unat a < 2 ^ 8" "unat s < 32"
  shows "unat (push_bit 5 a OR ucast s) = 32 * unat a + unat s"
proof -
  have "unat (push_bit 5 a) = push_bit 5 (unat a)"
    using assms by (simp add: push_bit_eq_mult unat_word_ariths)
  moreover have "unat (ucast s :: u32) = unat s"
    using assms by (simp add: unsigned_ucast_eq take_bit_eq_mod)
  ultimately show ?thesis using or_shifted [of "unat s" 5 "unat a"] assms by (simp add: unsigned_or_eq)
qed

lemma join_nibbles: "push_bit 4 (of_nat (unat b div 16)) OR of_nat (unat b mod 16) = (b :: u8)"
proof -
  have n: "unat b div 16 < 16" using unat_u8_less [of b] by (simp add: div_less_iff_less_mult)
  then have "unat (push_bit 4 (of_nat (unat b div 16)) :: u8) = push_bit 4 (unat b div 16)"
    by (simp add: push_bit_eq_mult unat_word_ariths unat_of_nat)
  moreover have "unat (of_nat (unat b mod 16) :: u8) = unat b mod 16"
    by (simp add: unat_of_nat)
  ultimately have "unat (push_bit 4 (of_nat (unat b div 16)) OR of_nat (unat b mod 16) :: u8) = unat b"
    using or_shifted [of "unat b mod 16" 4 "unat b div 16"] by (simp add: unsigned_or_eq)
  then show ?thesis by (simp only: word_unat_eq_iff)
qed

lemma emit_byte:
  fixes a :: u32
  assumes "unat a < 2 ^ (k + 8)"
  shows "unat (ucast (drop_bit k a) :: u8) = unat a div 2 ^ k"
    and "unat (a AND (push_bit k 1 - 1)) = unat a mod 2 ^ k"
proof -
  have "unat a div 2 ^ k < 2 ^ 8"
    using assms by (simp add: div_less_iff_less_mult power_add mult.commute)
  moreover have "unat (drop_bit k a) = unat a div 2 ^ k"
    using unat_lt_u32 [of a]
    by (subst unsigned_drop_bit_eq) (simp add: drop_bit_eq_div take_bit_eq_mod u32_max_def)
  ultimately show "unat (ucast (drop_bit k a) :: u8) = unat a div 2 ^ k"
    by (subst unsigned_ucast_eq) (simp add: take_bit_eq_mod)
  have "a AND (push_bit k 1 - 1) = take_bit k a"
    by (simp add: take_bit_eq_mask mask_eq_exp_minus_1 push_bit_eq_mult)
  moreover have "unat (take_bit k a) = take_bit k (unat a)" by (rule unsigned_take_bit_eq)
  ultimately show "unat (a AND (push_bit k 1 - 1)) = unat a mod 2 ^ k"
    by (simp only: take_bit_eq_mod [of k "unat a"])
qed

text \<open>
  The invariant of the loop: the accumulator holds \<open>bits\<close> bits, fewer than eight, and bytes and
  accumulator together are the number read so far.
\<close>

lemma base32_loop_value:
  assumes "list_all base32_valid t" "bits < 8" "unat a < 2 ^ bits"
  shows "\<exists>a' bits' decoded'. base32_loop a bits decoded t = Inr (a', bits', decoded')
    \<and> bits' < 8 \<and> unat a' < 2 ^ bits'
    \<and> bits' + 8 * length decoded' = bits + 8 * length decoded + 5 * length t
    \<and> be_nat decoded' * 2 ^ bits' + unat a' = (be_nat decoded * 2 ^ bits + unat a) * 32 ^ length t + base32_value t"
  using assms
proof (induction t arbitrary: a bits decoded)
  case Nil
  then show ?case by (simp add: base32_value_def)
next
  case (Cons b t)
  obtain s where s: "base32_symbol b = Inr s" "unat s = base32_digit b" "unat s < 32"
    using Cons.prems(1) by (auto elim: base32_symbol_valid)
  define a1 where "a1 = push_bit 5 a OR ucast s"
  have "(2 :: nat) ^ bits \<le> 2 ^ 7" using Cons.prems(2) by (intro power_increasing) auto
  then have "unat a < 2 ^ 8" using Cons.prems(3) by simp
  then have a1: "unat a1 = 32 * unat a + unat s" unfolding a1_def using s(3) by (rule accumulate)
  have b5: "(2 :: nat) ^ (bits + 5) = 32 * 2 ^ bits" by (simp add: power_add)
  have lt: "unat a1 < 2 ^ (bits + 5)" using Cons.prems(3) s(3) unfolding a1 b5 by linarith
  have val: "(be_nat decoded * 2 ^ bits + unat a) * 32 ^ length (b # t) + base32_value (b # t)
      = (be_nat decoded * 2 ^ (bits + 5) + unat a1) * 32 ^ length t + base32_value t"
    unfolding base32_value_Cons a1 s(2) [symmetric] b5 by (simp add: algebra_simps)
  show ?case
  proof (cases "8 \<le> bits + 5")
    case True
    define k where "k = bits + 5 - 8"
    have k: "bits + 5 = k + 8" using True by (simp add: k_def)
    have e: "unat (ucast (drop_bit k a1) :: u8) = unat a1 div 2 ^ k"
        "unat (a1 AND (push_bit k 1 - 1)) = unat a1 mod 2 ^ k"
      by (rule emit_byte; use lt k in simp)+
    have step: "base32_loop a bits decoded (b # t)
        = base32_loop (a1 AND (push_bit k 1 - 1)) k (decoded @ [ucast (drop_bit k a1)]) t"
      using True s(1) by (simp add: Let_def a1_def k_def)
    have "be_nat (decoded @ [ucast (drop_bit k a1)]) * 2 ^ k + unat (a1 AND (push_bit k 1 - 1))
        = be_nat decoded * 2 ^ (bits + 5) + unat a1"
      unfolding be_nat_simps e k using div_mult_mod_eq [of "unat a1" "2 ^ k"]
      by (simp add: power_add algebra_simps)
    moreover have "unat (a1 AND (push_bit k 1 - 1)) < 2 ^ k" "k < 8" using e k Cons.prems(2) by simp_all
    ultimately show ?thesis
      unfolding step val using Cons.IH [of k "a1 AND (push_bit k 1 - 1)" "decoded @ [ucast (drop_bit k a1)]"]
        Cons.prems(1) k by auto
  next
    case False
    then show ?thesis
      unfolding val using Cons.IH [of "bits + 5" a1 decoded] Cons.prems(1) lt s(1)
      by (auto simp: Let_def a1_def)
  qed
qed

lemma base32_loop_invalid:
  "\<not> list_all base32_valid t \<Longrightarrow> base32_loop a bits decoded t = Inl InvalidExactTopic"
proof (induction t arbitrary: a bits decoded)
  case (Cons b t)
  then show ?case
    by (cases "base32_valid b")
       (auto simp: base32_symbol_invalid Let_def elim!: base32_symbol_valid [of b])
qed simp

lemma be_nat_inject: "length xs = length ys \<Longrightarrow> be_nat xs = be_nat ys \<Longrightarrow> xs = ys"
  by (metis be_nat_bytes_be_nat)

lemma decode_base32_exact:
  "decode_base32 t = Inr bs \<longleftrightarrow>
    list_all base32_valid t \<and> length bs = 5 * length t div 8
    \<and> be_nat bs * 2 ^ (5 * length t mod 8) = base32_value t"
proof (cases "list_all base32_valid t")
  case True
  then obtain a bits decoded where l: "base32_loop 0 0 [] t = Inr (a, bits, decoded)" "bits < 8"
    "unat a < 2 ^ bits" "bits + 8 * length decoded = 5 * length t"
    "be_nat decoded * 2 ^ bits + unat a = base32_value t"
    using base32_loop_value [of t 0 0 "[]"] by auto
  have len: "length decoded = 5 * length t div 8" "bits = 5 * length t mod 8"
    using l(2) by (simp_all add: l(4) [symmetric])
  have unique: "a = 0 \<and> bs = decoded"
    if "length bs = length decoded" "be_nat bs * 2 ^ bits = base32_value t"
  proof -
    have eq: "be_nat decoded * 2 ^ bits + unat a = be_nat bs * 2 ^ bits" using l(5) that(2) by simp
    have "(be_nat decoded * 2 ^ bits + unat a) mod 2 ^ bits = unat a" using l(3) by simp
    then have a: "unat a = 0" unfolding eq by simp
    then show ?thesis using eq that(1) by (auto simp: unat_eq_zero intro: be_nat_inject)
  qed
  have "be_nat decoded * 2 ^ bits = base32_value t" if "bits = 0 \<or> a = 0"
    using l(3,5) that by auto
  then show ?thesis
    using True l(1) unique unfolding len(1) [symmetric] len(2) [symmetric]
    by (auto simp: decode_base32_def)
qed (simp add: decode_base32_def base32_loop_invalid)

lemma base32_value_less: "list_all base32_valid t \<Longrightarrow> base32_value t < 32 ^ length t"
proof (induction t)
  case (Cons b t)
  have "base32_digit b < 32" using Cons.prems by (auto elim!: base32_symbol_valid)
  then have "Suc (base32_digit b) * 32 ^ length t \<le> 32 * 32 ^ length t" by (intro mult_right_mono) auto
  moreover have "base32_value t < 32 ^ length t" using Cons by simp
  ultimately have "base32_value (b # t) < 32 * 32 ^ length t" unfolding base32_value_Cons mult_Suc by linarith
  then show ?case by simp
qed (simp add: base32_value_def)

section \<open>Exact topics\<close>

text \<open>
  What the documentation of the \<open>hex\<close> crate says: \<open>encode\<close> writes two lower-case digits a byte,
  \<open>decode\<close> reads them back and reads nothing but two digits a byte.
\<close>

definition hex_char :: "u8 \<Rightarrow> bool" where
  "hex_char b \<longleftrightarrow> is_ascii_digit b \<or> 97 \<le> b \<and> b \<le> 102"

definition hex_codec :: "(str \<Rightarrow> 'h + u8 list) \<Rightarrow> (u8 list \<Rightarrow> str) \<Rightarrow> bool" where
  "hex_codec hex_decode hex_encode \<longleftrightarrow>
    (\<forall>bs. hex_decode (hex_encode bs) = Inr bs \<and> length (hex_encode bs) = 2 * length bs
        \<and> list_all hex_char (hex_encode bs))
    \<and> (\<forall>t bs. hex_decode t = Inr bs \<longrightarrow> length t = 2 * length bs)"

lemma lower_hex_char: "hex_char b \<Longrightarrow> to_ascii_lowercase b = b"
  by (auto simp: hex_char_def is_ascii_digit_def to_ascii_lowercase_def word_le_nat_alt)

lemma lower_hex:
  assumes "hex_codec hex_decode hex_encode"
  shows "map to_ascii_lowercase (hex_encode bs) = hex_encode bs"
  using assms by (auto simp: hex_codec_def list_all_iff lower_hex_char intro!: map_idI)

lemma lower_btih: "map to_ascii_lowercase (ascii ''urn:btih:'') = ascii ''urn:btih:''"
  and lower_btmh: "map to_ascii_lowercase (ascii ''urn:btmh:'') = ascii ''urn:btmh:''"
  by (simp_all add: ascii_def to_ascii_lowercase_def)

lemma strip_btih_btmh [simp]: "strip_prefix (ascii ''urn:btih:'') (ascii ''urn:btmh:'' @ t) = None"
  by (simp add: strip_prefix_def ascii_def)

text \<open>The promise can be kept: a table of digits one way, \<open>hex_digit\<close> the other.\<close>

definition lower_digits :: str where
  "lower_digits = ascii ''0123456789abcdef''"

definition hex_encode_table :: "u8 list \<Rightarrow> str" where
  "hex_encode_table bs = concat (map (\<lambda>b. [lower_digits ! (unat b div 16), lower_digits ! (unat b mod 16)]) bs)"

fun hex_decode_table :: "str \<Rightarrow> magnet_error + u8 list" where
  "hex_decode_table [] = Inr []"
| "hex_decode_table [_] = Inl Encoding"
| "hex_decode_table (h # l # rest) =
    and_then (hex_digit h) (\<lambda>x. and_then (hex_digit l) (\<lambda>y.
    and_then (hex_decode_table rest) (\<lambda>bs. Inr ((push_bit 4 x OR y) # bs))))"

lemma lower_digits_table:
  "d < 16 \<Longrightarrow> hex_digit (lower_digits ! d) = Inr (of_nat d)" "d < 16 \<Longrightarrow> hex_char (lower_digits ! d)"
proof -
  have "list_all (\<lambda>d. hex_digit (lower_digits ! d) = Inr (of_nat d) \<and> hex_char (lower_digits ! d)) [0..<16]"
    by (simp add: lower_digits_def ascii_def hex_digit_def hex_char_def is_ascii_digit_def upt_rec)
  then show "d < 16 \<Longrightarrow> hex_digit (lower_digits ! d) = Inr (of_nat d)"
    "d < 16 \<Longrightarrow> hex_char (lower_digits ! d)" by (simp_all add: list_all_iff)
qed

lemma nibble_less: "unat (b :: u8) div 16 < 16" "unat b mod 16 < 16"
  using unat_u8_less [of b] by (simp_all add: div_less_iff_less_mult)

lemma hex_decode_encode_table: "hex_decode_table (hex_encode_table bs) = Inr bs"
proof (induction bs)
  case (Cons b bs)
  then show ?case using nibble_less [of b]
    by (simp add: hex_encode_table_def lower_digits_table join_nibbles)
qed (simp add: hex_encode_table_def)

lemma hex_encode_table_chars:
  "length (hex_encode_table bs) = 2 * length bs" "list_all hex_char (hex_encode_table bs)"
  by (induction bs) (simp_all add: hex_encode_table_def lower_digits_table nibble_less)

lemma hex_decode_table_length: "hex_decode_table t = Inr bs \<Longrightarrow> length t = 2 * length bs"
  by (induction t arbitrary: bs rule: hex_decode_table.induct) (auto simp: result_iffs)

lemma hex_codec_table: "hex_codec hex_decode_table hex_encode_table"
  by (simp add: hex_codec_def hex_decode_encode_table hex_encode_table_chars hex_decode_table_length)

text \<open>
  Both spellings of a BEP 3 topic are one alias: thirty-two base-32 characters in either case
  are read as the big-endian number they write, its twenty bytes are stored as canonical hexadecimal,
  and the topic that spells these bytes in hexadecimal has the same effect.
\<close>

theorem base32_topic_canonical:
  assumes "hex_codec hex_decode hex_encode" and "length t = 32"
    and "list_all base32_valid (map to_ascii_lowercase t)"
  shows "\<exists>bs. length bs = 20 \<and> be_nat bs = base32_value (map to_ascii_lowercase t)
    \<and> parse_exact_topic hex_decode hex_encode (ascii ''urn:btih:'' @ t) mg
        = Inr (mg\<lparr>mg_btih := mg_btih mg @ [hex_encode bs]\<rparr>)
    \<and> parse_exact_topic hex_decode hex_encode (ascii ''urn:btih:'' @ hex_encode bs) mg
        = Inr (mg\<lparr>mg_btih := mg_btih mg @ [hex_encode bs]\<rparr>)"
proof -
  let ?t = "map to_ascii_lowercase t"
  define bs where "bs = be_nat_bytes 20 (base32_value ?t)"
  have "base32_value ?t < 32 ^ length ?t" by (rule base32_value_less [OF assms(3)])
  then have v: "be_nat bs = base32_value ?t" "length bs = 20"
    using assms(2) by (simp_all add: bs_def be_nat_be_nat_bytes)
  then have d: "decode_base32 ?t = Inr bs"
    using assms(2,3) by (simp add: decode_base32_exact)
  have h: "hex_decode (hex_encode bs) = Inr bs" "length (hex_encode bs) = 40"
    using assms(1) v(2) by (simp_all add: hex_codec_def)
  show ?thesis
    using v d h assms(2)
    by (intro exI [of _ bs]) (simp add: parse_exact_topic_def Let_def lower_btih lower_hex [OF assms(1)])
qed

theorem base32_topic_canonical_witness:
  "\<exists>bs. length bs = 20 \<and> be_nat bs = base32_value (map to_ascii_lowercase (replicate 32 66))
    \<and> parse_exact_topic hex_decode_table hex_encode_table (ascii ''urn:btih:'' @ replicate 32 66) magnet_default
        = Inr (magnet_default\<lparr>mg_btih := mg_btih magnet_default @ [hex_encode_table bs]\<rparr>)
    \<and> parse_exact_topic hex_decode_table hex_encode_table (ascii ''urn:btih:'' @ hex_encode_table bs) magnet_default
        = Inr (magnet_default\<lparr>mg_btih := mg_btih magnet_default @ [hex_encode_table bs]\<rparr>)"
  by (rule base32_topic_canonical [OF hex_codec_table])
     (simp_all add: list_all_iff to_ascii_lowercase_def base32_valid_def)

section \<open>What a parsed link holds\<close>

text \<open>The canonical aliases, and how one topic extends them.\<close>

definition canonical_aliases :: "magnet \<Rightarrow> bool" where
  "canonical_aliases mg \<longleftrightarrow>
    list_all (\<lambda>t. length t = 40 \<and> list_all hex_char t) (mg_btih mg)
    \<and> list_all (\<lambda>t. length t = 64 \<and> list_all hex_char t) (mg_btmh_sha256 mg)"

definition topic_count :: "magnet \<Rightarrow> nat" where
  "topic_count mg = length (mg_btih mg) + length (mg_btmh_sha256 mg) + length (mg_other_exact_topics mg)"

lemma parse_exact_topic_ok:
  assumes "parse_exact_topic hex_decode hex_encode v mg = Inr mg'" "hex_codec hex_decode hex_encode"
  obtains btih btmh other where
    "mg' = mg\<lparr>mg_btih := mg_btih mg @ btih, mg_btmh_sha256 := mg_btmh_sha256 mg @ btmh,
      mg_other_exact_topics := mg_other_exact_topics mg @ other\<rparr>"
    "length btih + length btmh + length other = 1"
    "list_all (\<lambda>t. length t = 40 \<and> list_all hex_char t) btih"
    "list_all (\<lambda>t. length t = 64 \<and> list_all hex_char t) btmh"
proof -
  let ?lower = "map to_ascii_lowercase v"
  have enc: "length (hex_encode bs) = 2 * length bs" "list_all hex_char (hex_encode bs)" for bs
    using assms(2) by (auto simp: hex_codec_def)
  show thesis
  proof (cases "strip_prefix (ascii ''urn:btih:'') ?lower")
    case (Some e)
    then obtain bs where "length bs = 20" "mg' = mg\<lparr>mg_btih := mg_btih mg @ [hex_encode bs]\<rparr>"
      using assms(1) by (auto simp: parse_exact_topic_def Let_def result_iffs split: if_splits)
    then show thesis using that [of "[]" "[]" "[hex_encode bs]"] enc by simp
  next
    case None
    note n1 = this
    show thesis
    proof (cases "strip_prefix (ascii ''urn:btmh:'') ?lower")
      case (Some e)
      then obtain bs where "length bs = 34"
        "mg' = mg\<lparr>mg_btmh_sha256 := mg_btmh_sha256 mg @ [hex_encode (drop 2 bs)]\<rparr>"
        using assms(1) n1 by (auto simp: parse_exact_topic_def Let_def result_iffs split: if_splits)
      then show thesis using that [of "[]" "[hex_encode (drop 2 bs)]" "[]"] enc by simp
    next
      case None
      then have "mg' = mg\<lparr>mg_other_exact_topics := mg_other_exact_topics mg @ [v]\<rparr>"
        using assms(1) n1 by (auto simp: parse_exact_topic_def Let_def)
      then show thesis using that [of "[v]" "[]" "[]"] by simp
    qed
  qed
qed

definition magnet_names :: "str list" where
  "magnet_names = [ascii ''xt'', ascii ''dn'', ascii ''tr'', ascii ''x.pe'', ascii ''ws'', ascii ''as'', ascii ''xs'']"

definition selected :: "str \<Rightarrow> (str \<times> str) list \<Rightarrow> str list" where
  "selected name ps = map snd (filter (\<lambda>p. fst p = name) ps)"

definition other_values :: "magnet \<Rightarrow> str \<Rightarrow> str list" where
  "other_values mg name = (case mg_other mg name of None \<Rightarrow> [] | Some vs \<Rightarrow> vs)"

text \<open>The parameters \<open>ps\<close>, in their order, are what \<open>mg'\<close> holds more than \<open>mg\<close>.\<close>

definition collected :: "magnet \<Rightarrow> (str \<times> str) list \<Rightarrow> magnet \<Rightarrow> bool" where
  "collected mg ps mg' \<longleftrightarrow>
    mg_display_names mg' = mg_display_names mg @ selected (ascii ''dn'') ps
    \<and> mg_trackers mg' = mg_trackers mg @ selected (ascii ''tr'') ps
    \<and> mg_explicit_peers mg' = mg_explicit_peers mg @ selected (ascii ''x.pe'') ps
    \<and> mg_web_seeds mg' = mg_web_seeds mg @ selected (ascii ''ws'') ps
    \<and> mg_acceptable_sources mg' = mg_acceptable_sources mg @ selected (ascii ''as'') ps
    \<and> mg_exact_sources mg' = mg_exact_sources mg @ selected (ascii ''xs'') ps
    \<and> topic_count mg' = topic_count mg + length (selected (ascii ''xt'') ps)
    \<and> (\<forall>name. other_values mg' name
          = other_values mg name @ (if name \<in> set magnet_names then [] else selected name ps))"

lemma selected_simps [simp]:
  "selected name [] = []"
  "selected name ((n, v) # ps) = (if n = name then v # selected name ps else selected name ps)"
  by (simp_all add: selected_def)

lemma other_values_push:
  "other_values (mg\<lparr>mg_other := push_other (mg_other mg) n v\<rparr>) name
    = other_values mg name @ (if n = name then [v] else [])"
  by (simp add: other_values_def push_other_def)

lemma magnet_names_mem [simp]:
  "ascii ''xt'' \<in> set magnet_names" "ascii ''dn'' \<in> set magnet_names" "ascii ''tr'' \<in> set magnet_names"
  "ascii ''x.pe'' \<in> set magnet_names" "ascii ''ws'' \<in> set magnet_names" "ascii ''as'' \<in> set magnet_names"
  "ascii ''xs'' \<in> set magnet_names"
  by (simp_all add: magnet_names_def)

lemma collected_xt:
  assumes "parse_exact_topic hex_decode hex_encode v mg = Inr mg1" "hex_codec hex_decode hex_encode"
  shows "collected mg [(ascii ''xt'', v)] mg1" and "canonical_aliases mg \<Longrightarrow> canonical_aliases mg1"
proof -
  from assms obtain btih btmh other where
    mg1: "mg1 = mg\<lparr>mg_btih := mg_btih mg @ btih, mg_btmh_sha256 := mg_btmh_sha256 mg @ btmh,
      mg_other_exact_topics := mg_other_exact_topics mg @ other\<rparr>"
    and one: "length btih + length btmh + length other = 1"
    and c: "list_all (\<lambda>t. length t = 40 \<and> list_all hex_char t) btih"
      "list_all (\<lambda>t. length t = 64 \<and> list_all hex_char t) btmh"
    by (rule parse_exact_topic_ok)
  have "other_values mg1 name = other_values mg name
      @ (if name \<in> set magnet_names then [] else selected name [(ascii ''xt'', v)])" for name
    by (auto simp: mg1 other_values_def)
  moreover have "topic_count mg1 = topic_count mg + 1" using one by (simp add: mg1 topic_count_def)
  ultimately show "collected mg [(ascii ''xt'', v)] mg1" by (simp add: collected_def mg1)
  show "canonical_aliases mg \<Longrightarrow> canonical_aliases mg1" using c by (simp add: mg1 canonical_aliases_def)
qed

lemma collected_hint:
  assumes "magnet_parameter hex_decode hex_encode n v mg k = Inr (mg1, k1)" "n \<noteq> ascii ''xt''"
  shows "collected mg [(n, v)] mg1 \<and> (canonical_aliases mg \<longrightarrow> canonical_aliases mg1) \<and> k1 = k"
proof -
  have known: ?thesis if "n \<in> set magnet_names"
  proof -
    have "n \<in> {ascii ''dn'', ascii ''tr'', ascii ''x.pe'', ascii ''ws'', ascii ''as'', ascii ''xs''}"
      using that assms(2) by (simp add: magnet_names_def)
    then have "mg_other mg1 = mg_other mg \<and> (canonical_aliases mg \<longrightarrow> canonical_aliases mg1) \<and> k1 = k
      \<and> topic_count mg1 = topic_count mg
      \<and> mg_display_names mg1 = mg_display_names mg @ selected (ascii ''dn'') [(n, v)]
      \<and> mg_trackers mg1 = mg_trackers mg @ selected (ascii ''tr'') [(n, v)]
      \<and> mg_explicit_peers mg1 = mg_explicit_peers mg @ selected (ascii ''x.pe'') [(n, v)]
      \<and> mg_web_seeds mg1 = mg_web_seeds mg @ selected (ascii ''ws'') [(n, v)]
      \<and> mg_acceptable_sources mg1 = mg_acceptable_sources mg @ selected (ascii ''as'') [(n, v)]
      \<and> mg_exact_sources mg1 = mg_exact_sources mg @ selected (ascii ''xs'') [(n, v)]"
      by (elim insertE emptyE)
         (use assms(1) in \<open>auto simp: magnet_parameter_def canonical_aliases_def topic_count_def\<close>)
    moreover have "selected name [(n, v)] = []" if "name \<notin> set magnet_names" for name
      using that \<open>n \<in> set magnet_names\<close> by auto
    ultimately show ?thesis using assms(2) by (auto simp: collected_def other_values_def)
  qed
  show ?thesis
  proof (cases "n \<in> set magnet_names")
    case False
    then have ne: "n \<noteq> ascii ''dn''" "n \<noteq> ascii ''tr''" "n \<noteq> ascii ''x.pe''" "n \<noteq> ascii ''ws''"
      "n \<noteq> ascii ''as''" "n \<noteq> ascii ''xs''" by (auto simp: magnet_names_def)
    have mg1: "mg1 = mg\<lparr>mg_other := push_other (mg_other mg) n v\<rparr>" "k1 = k"
      using assms ne by (simp_all add: magnet_parameter_def)
    have "other_values mg1 name = other_values mg name
        @ (if name \<in> set magnet_names then [] else selected name [(n, v)])" for name
      using False unfolding mg1(1) other_values_push by auto
    then show ?thesis
      using ne assms(2) by (simp add: mg1 collected_def canonical_aliases_def topic_count_def)
  qed (rule known)
qed

lemma magnet_parameter_collected:
  assumes "magnet_parameter hex_decode hex_encode n v mg k = Inr (mg1, k1)" "hex_codec hex_decode hex_encode"
  shows "collected mg [(n, v)] mg1" and "canonical_aliases mg \<Longrightarrow> canonical_aliases mg1"
    and "k1 = k + (if n = ascii ''xt'' then 1 else 0)"
proof -
  have "collected mg [(n, v)] mg1 \<and> (canonical_aliases mg \<longrightarrow> canonical_aliases mg1)
    \<and> k1 = k + (if n = ascii ''xt'' then 1 else 0)"
  proof (cases "n = ascii ''xt''")
    case True
    then have "parse_exact_topic hex_decode hex_encode v mg = Inr mg1" "k1 = k + 1"
      using assms(1) by (auto simp: magnet_parameter_def result_iffs)
    then show ?thesis using True collected_xt [OF _ assms(2)] by simp
  qed (use collected_hint [OF assms(1)] in simp)
  then show "collected mg [(n, v)] mg1" "canonical_aliases mg \<Longrightarrow> canonical_aliases mg1"
    "k1 = k + (if n = ascii ''xt'' then 1 else 0)" by auto
qed

lemma collected_append:
  assumes "collected mg ps mg1" "collected mg1 qs mg2"
  shows "collected mg (ps @ qs) mg2"
  using assms by (auto simp: collected_def selected_def)

text \<open>One raw parameter and the decoded name and value.\<close>

definition parameter_of :: "str \<Rightarrow> str \<times> str \<Rightarrow> bool" where
  "parameter_of raw p \<longleftrightarrow>
    (case unwrap_or (split_once 61 raw) (raw, []) of (raw_name, raw_value) \<Rightarrow>
       percent_decode raw_name = Inr (fst p) \<and> percent_decode raw_value = Inr (snd p))"

lemma magnet_loop_collected:
  assumes "magnet_loop hex_decode hex_encode i raws mg k = Inr (mg', k')" "hex_codec hex_decode hex_encode"
  shows "\<exists>ps. list_all2 parameter_of raws ps \<and> collected mg ps mg' \<and> (canonical_aliases mg \<longrightarrow> canonical_aliases mg')
    \<and> k' = k + length (selected (ascii ''xt'') ps) \<and> (raws \<noteq> [] \<longrightarrow> i + length raws \<le> MAX_MAGNET_PARAMETERS)"
  using assms(1)
proof (induction raws arbitrary: i mg k)
  case Nil
  then show ?case by (simp add: collected_def other_values_def)
next
  case (Cons raw raws)
  obtain rn rv where r: "unwrap_or (split_once 61 raw) (raw, []) = (rn, rv)" by fastforce
  from Cons.prems r obtain n v mg1 k1 where p: "percent_decode rn = Inr n" "percent_decode rv = Inr v"
      "magnet_parameter hex_decode hex_encode n v mg k = Inr (mg1, k1)"
      "magnet_loop hex_decode hex_encode (i + 1) raws mg1 k1 = Inr (mg', k')" "i < MAX_MAGNET_PARAMETERS"
    by (auto simp: result_iffs split: if_splits)
  note mp = magnet_parameter_collected [OF p(3) assms(2)]
  obtain ps where ps: "list_all2 parameter_of raws ps" "collected mg1 ps mg'"
    "canonical_aliases mg1 \<longrightarrow> canonical_aliases mg'" "k' = k1 + length (selected (ascii ''xt'') ps)"
    "raws \<noteq> [] \<longrightarrow> i + 1 + length raws \<le> MAX_MAGNET_PARAMETERS"
    using Cons.IH [OF p(4)] by blast
  have "collected mg ((n, v) # ps) mg'" using collected_append [OF mp(1) ps(2)] by simp
  moreover have "list_all2 parameter_of (raw # raws) ((n, v) # ps)"
    using p r ps(1) by (simp add: parameter_of_def)
  moreover have "k' = k + length (selected (ascii ''xt'') ((n, v) # ps))" using mp(3) ps(4) by simp
  moreover have "i + length (raw # raws) \<le> MAX_MAGNET_PARAMETERS"
    using ps(5) p(5) by (cases raws) auto
  ultimately show ?case using mp(2) ps(3) by blast
qed



section \<open>Percent encoding\<close>

text \<open>Every byte as an escape, with the digits of a table.\<close>

definition upper_digits :: str where
  "upper_digits = ascii ''0123456789ABCDEF''"

definition percent_encode :: "u8 list \<Rightarrow> str" where
  "percent_encode bs =
    concat (map (\<lambda>b. [37, upper_digits ! (unat b div 16), upper_digits ! (unat b mod 16)]) bs)"

lemma hex_digit_upper: "d < 16 \<Longrightarrow> hex_digit (upper_digits ! d) = Inr (of_nat d)"
proof -
  have "list_all (\<lambda>d. hex_digit (upper_digits ! d) = Inr (of_nat d)) [0..<16]"
    by (simp add: upper_digits_def ascii_def hex_digit_def upt_rec)
  then show "d < 16 \<Longrightarrow> hex_digit (upper_digits ! d) = Inr (of_nat d)" by (simp add: list_all_iff)
qed

lemma percent_loop_encode: "percent_loop (percent_encode bs) = Inr bs"
proof (induction bs)
  case (Cons b bs)
  then show ?case
    using nibble_less [of b] by (simp add: percent_encode_def hex_digit_upper join_nibbles)
qed (simp add: percent_encode_def)

section \<open>Safe path components\<close>

text \<open>Normalisation keeps a string valid UTF-8 and is idempotent.\<close>

definition nfc_form :: "(str \<Rightarrow> str) \<Rightarrow> bool" where
  "nfc_form nfc \<longleftrightarrow> (\<forall>c. utf8 c \<longrightarrow> utf8 (nfc c) \<and> nfc (nfc c) = nfc c)"



text \<open>
  Percent decoding inverts percent encoding: the escapes of any bytes decode to exactly these
  bytes when they are valid UTF-8 and are refused otherwise.
\<close>

theorem percent_roundtrip:
  "percent_decode (percent_encode bs) = (if utf8 bs then Inr bs else Inl Encoding)"
  by (simp add: percent_decode_def percent_loop_encode)

end
