(* ===== verification/Node_Store.thy ===== *)
theory Node_Store
  imports Node_Config Magnet
begin

text \<open>
  The store of the node (\<open>Store\<close> of \<open>triptorrent-node/src/lib.rs\<close>): the index of contents and
  transfers in SQLite and the managed files.  A table is the list of its rows in insertion order, an
  SQL statement is a function on the tables, and any statement or file operation may fail.  The
  hash, the hex crate, Postcard, JSON text and the wording of foreign errors are parameters.
\<close>

section \<open>Rows and records\<close>

record content_row =
  cr_content_id :: str
  cr_length :: int
  cr_chunk_count :: int
  cr_data_path :: str
  cr_manifest_path :: str
  cr_shared :: int
  cr_complete :: int
  cr_integrity :: str
  cr_created_at :: int

record transfer_row =
  tr_id :: int
  tr_content_id :: str
  tr_direction :: str
  tr_status :: str
  tr_bytes_total :: int
  tr_bytes_transferred :: int
  tr_verified_chunks :: int
  tr_total_chunks :: int
  tr_current_rate_bps :: int
  tr_provider_count :: int
  tr_retry_count :: int
  tr_rejected_chunks :: int
  tr_provider_contributions :: str
  tr_resumed_chunks :: int
  tr_error :: "str option"
  tr_share_on_complete :: int
  tr_network_path :: str
  tr_created_at :: int
  tr_updated_at :: int

text \<open>
  The index: the rows of \<open>schema_version\<close>, whether \<open>transfers\<close> exists and how many of the eight
  columns of version 2 it has (in the order in which the migration adds them; a column that is
  missing holds its default in the model), the tables, and the largest transfer number ever used
  (\<open>AUTOINCREMENT\<close>).  \<open>schema_version\<close> and \<open>content\<close> that do not exist are empty.
\<close>

record database =
  db_schema :: "int list"
  db_has_transfers :: bool
  db_columns :: nat
  db_content :: "content_row list"
  db_transfers :: "transfer_row list"
  db_sequence :: int

definition empty_database :: database where
  "empty_database = \<lparr>db_schema = [], db_has_transfers = False, db_columns = 0, db_content = [], db_transfers = [],
    db_sequence = 0\<rparr>"

record content_identity =
  ci_namespace :: str
  ci_value :: str
  ci_verification :: str

record content_record =
  cd_content_id :: str
  cd_identities :: "content_identity list"
  cd_length :: nat
  cd_chunk_count :: nat
  cd_data_path :: path
  cd_shared :: bool
  cd_advertised :: bool
  cd_complete :: bool
  cd_integrity :: str

record provider_contribution =
  pv_provider_id :: str
  pv_verified_chunks :: nat
  pv_rejected_requests :: nat

record transfer_record =
  tx_id :: int
  tx_content_id :: str
  tx_direction :: str
  tx_status :: str
  tx_bytes_total :: nat
  tx_bytes_transferred :: nat
  tx_verified_chunks :: nat
  tx_total_chunks :: nat
  tx_current_rate_bps :: nat
  tx_provider_count :: nat
  tx_retry_count :: nat
  tx_rejected_chunks :: nat
  tx_provider_contributions :: "provider_contribution list"
  tx_resumed_chunks :: nat
  tx_error :: "str option"
  tx_share_on_complete :: bool
  tx_network_path :: str

record persistent_fetch_stats =
  fs_resumed_chunks :: nat
  fs_provider_contributions :: "provider_contribution list"
  fs_retry_count :: nat
  fs_rejected_chunks :: nat

record verified_progress =
  vp_bytes_total :: nat
  vp_verified_bytes :: nat
  vp_total_chunks :: nat
  vp_verified_chunks :: nat
  vp_provider_count :: nat
  vp_retry_count :: nat
  vp_rejected_chunks :: nat

section \<open>Foreign code\<close>

record node_lib =
  nl_hash :: hash
  nl_hex_encode :: "u8 list \<Rightarrow> str"
  nl_hex_decode :: "str \<Rightarrow> str + u8 list"
  nl_manifest_to :: "manifest \<Rightarrow> u8 list"
  nl_manifest_from :: "u8 list \<Rightarrow> manifest option"
  nl_json :: json_text
  nl_error_text :: "node_error \<Rightarrow> str"

definition display_id :: "node_lib \<Rightarrow> content_id \<Rightarrow> str" where
  "display_id lib = content_id_display (nl_hex_encode lib)"

definition parse_id :: "node_lib \<Rightarrow> str \<Rightarrow> str parse_id_error + content_id" where
  "parse_id lib = content_id_from_str (nl_hex_decode lib)"

section \<open>Structures in JSON\<close>

text \<open>
  The derived deserialisation of a structure: an object in which no known field occurs twice, or an
  array with the fields in order; what is missing is left to the field.
\<close>

definition struct_fields :: "str list \<Rightarrow> json \<Rightarrow> (str \<Rightarrow> json option) option" where
  "struct_fields names v =
    (case v of
       JObject members \<Rightarrow>
         if list_all (\<lambda>name. length (filter (\<lambda>(k, _). k = name) members) \<le> 1) names
         then Some (map_of members) else None
     | JArray vs \<Rightarrow> if length vs \<le> length names then Some (map_of (zip names vs)) else None
     | _ \<Rightarrow> None)"

definition json_string :: "json \<Rightarrow> str option" where
  "json_string v = (case v of JString s \<Rightarrow> Some s | _ \<Rightarrow> None)"

definition json_bool :: "json \<Rightarrow> bool option" where
  "json_bool v = (case v of JBool b \<Rightarrow> Some b | _ \<Rightarrow> None)"

definition json_usize :: "json \<Rightarrow> nat option" where
  "json_usize v = (case v of JNumber n \<Rightarrow> if 0 \<le> n \<and> n \<le> int usize_max then Some (nat n) else None | _ \<Rightarrow> None)"

definition contribution_to_json :: "provider_contribution \<Rightarrow> json" where
  "contribution_to_json c = JObject
    [(ascii ''provider_id'', JString (pv_provider_id c)),
     (ascii ''verified_chunks'', JNumber (int (pv_verified_chunks c))),
     (ascii ''rejected_requests'', JNumber (int (pv_rejected_requests c)))]"

definition contribution_from_json :: "json \<Rightarrow> provider_contribution option" where
  "contribution_from_json v =
    Option.bind (struct_fields [ascii ''provider_id'', ascii ''verified_chunks'', ascii ''rejected_requests''] v) (\<lambda>get.
    Option.bind (Option.bind (get (ascii ''provider_id'')) json_string) (\<lambda>provider_id.
    Option.bind (Option.bind (get (ascii ''verified_chunks'')) json_usize) (\<lambda>verified_chunks.
    Option.bind (Option.bind (get (ascii ''rejected_requests'')) json_usize) (\<lambda>rejected_requests.
    Some \<lparr>pv_provider_id = provider_id, pv_verified_chunks = verified_chunks,
      pv_rejected_requests = rejected_requests\<rparr>))))"

fun collect_options :: "('a \<Rightarrow> 'b option) \<Rightarrow> 'a list \<Rightarrow> 'b list option" where
  "collect_options f [] = Some []"
| "collect_options f (x # xs) =
    Option.bind (f x) (\<lambda>y. Option.bind (collect_options f xs) (\<lambda>ys. Some (y # ys)))"

definition contributions_from_json :: "json \<Rightarrow> provider_contribution list option" where
  "contributions_from_json v =
    (case v of JArray vs \<Rightarrow> collect_options contribution_from_json vs | _ \<Rightarrow> None)"

section \<open>The state and its primitive operations\<close>

text \<open>
  \<open>st_sql\<close> lists the failures of the statements to come, \<open>st_times\<close> the readings of the clock;
  \<open>st_dirs\<close> are the directories that exist.
\<close>

record store =
  st_root :: path
  st_disk :: disk
  st_dirs :: "path list"
  st_db :: database
  st_sql :: "bool list"
  st_times :: "int list"

type_synonym 'a store_op = "(store, 'a) op"

definition disk_op :: "'a act \<Rightarrow> 'a store_op" where
  "disk_op m = op_zoom st_disk (\<lambda>d. st_disk_update (\<lambda>_. d)) (op_act m)"

definition create_dir_all :: "path \<Rightarrow> unit store_op" where
  "create_dir_all p = op_bind (disk_op fs_create_dirs) (\<lambda>_.
    op_modify (st_dirs_update (\<lambda>dirs. if p \<in> set dirs then dirs else p # dirs)))"

definition path_exists :: "path \<Rightarrow> store \<Rightarrow> bool" where
  "path_exists p st \<longleftrightarrow> p \<in> set (st_dirs st) \<or> fs_exists p (st_disk st)"

definition below :: "path \<Rightarrow> path \<Rightarrow> bool" where
  "below p q \<longleftrightarrow> take (length p + 1) q = p @ [47]"

text \<open>\<open>remove_dir_all\<close>: a failure in the middle leaves the directory and has removed its files.\<close>

definition remove_files :: "path \<Rightarrow> disk \<Rightarrow> disk" where
  "remove_files p d = d\<lparr>files := (\<lambda>q. if below p q then None else files d q)\<rparr>"

definition remove_dir_all :: "path \<Rightarrow> unit store_op" where
  "remove_dir_all p st =
    (case next_fault (st_disk st) of
       (Some Untouched, d) \<Rightarrow> (Inl NodeIo, st\<lparr>st_disk := d\<rparr>)
     | (Some (Partly _), d) \<Rightarrow> (Inl NodeIo, st\<lparr>st_disk := remove_files p d\<rparr>)
     | (None, d) \<Rightarrow> (Inr (), st\<lparr>st_disk := remove_files p d,
         st_dirs := filter (\<lambda>q. q \<noteq> p \<and> \<not> below p q) (st_dirs st)\<rparr>))"

definition sql_statement :: "unit store_op" where
  "sql_statement st =
    (case st_sql st of
       [] \<Rightarrow> (Inr (), st)
     | f # fs \<Rightarrow> (if f then Inl NodeSql else Inr (), st\<lparr>st_sql := fs\<rparr>))"

definition query :: "(database \<Rightarrow> 'a) \<Rightarrow> 'a store_op" where
  "query f = op_bind sql_statement (\<lambda>_. op_get (\<lambda>st. f (st_db st)))"

definition execute :: "(database \<Rightarrow> database option) \<Rightarrow> unit store_op" where
  "execute f = op_bind sql_statement (\<lambda>_ st.
    case f (st_db st) of None \<Rightarrow> (Inl NodeSql, st) | Some db \<Rightarrow> (Inr (), st\<lparr>st_db := db\<rparr>))"

text \<open>\<open>execute_batch\<close> runs its statements one by one, without a transaction.\<close>

fun execute_batch :: "(database \<Rightarrow> database option) list \<Rightarrow> unit store_op" where
  "execute_batch [] = op_return ()"
| "execute_batch (f # fs) = op_bind (execute f) (\<lambda>_. execute_batch fs)"

definition unix_time :: "int store_op" where
  "unix_time st = (case st_times st of [] \<Rightarrow> (Inr 0, st) | t # ts \<Rightarrow> (Inr t, st\<lparr>st_times := ts\<rparr>))"

definition i64_try_from :: "nat \<Rightarrow> node_error + int" where
  "i64_try_from n =
    (if n < 2 ^ 63 then Inr (int n) else Inl (NodeBail ''out of range integral type conversion attempted''))"

section \<open>Reading rows\<close>

definition content_from_row :: "node_lib \<Rightarrow> path \<Rightarrow> content_row \<Rightarrow> content_record option" where
  "content_from_row lib root row =
    (case parse_id lib (cr_content_id row) of
       Inl _ \<Rightarrow> None
     | Inr parsed \<Rightarrow>
         if display_id lib parsed \<noteq> cr_content_id row then None
         else if cr_length row < 0 \<or> cr_chunk_count row < 0 then None
         else Option.bind (managed_path root (cr_data_path row)) (\<lambda>data_path.
           Some \<lparr>cd_content_id = cr_content_id row,
             cd_identities = [\<lparr>ci_namespace = ascii ''triptorrent'', ci_value = cr_content_id row,
               ci_verification = ascii ''verified''\<rparr>],
             cd_length = nat (cr_length row), cd_chunk_count = nat (cr_chunk_count row), cd_data_path = data_path,
             cd_shared = (cr_shared row \<noteq> 0), cd_advertised = False, cd_complete = (cr_complete row \<noteq> 0),
             cd_integrity = cr_integrity row\<rparr>))"

definition transfer_states :: "string list" where
  "transfer_states = [''running'', ''pausing'', ''paused'', ''interrupted'', ''completed'', ''failed'']"

definition checked_sql_unsigned :: "int \<Rightarrow> nat option" where
  "checked_sql_unsigned n = (if n < 0 then None else Some (nat n))"

definition transfer_from_row :: "node_lib \<Rightarrow> transfer_row \<Rightarrow> transfer_record option" where
  "transfer_from_row lib row =
    Option.bind (Option.bind (js_decode (nl_json lib) (tr_provider_contributions row)) contributions_from_json) (\<lambda>contributions.
    case parse_id lib (tr_content_id row) of
      Inl _ \<Rightarrow> None
    | Inr _ \<Rightarrow>
        if tr_direction row \<noteq> ascii ''download'' \<or> tr_status row \<notin> ascii ` set transfer_states then None
        else
          Option.bind (checked_sql_unsigned (tr_bytes_total row)) (\<lambda>bytes_total.
          Option.bind (checked_sql_unsigned (tr_bytes_transferred row)) (\<lambda>bytes_transferred.
          Option.bind (checked_sql_unsigned (tr_verified_chunks row)) (\<lambda>verified_chunks.
          Option.bind (checked_sql_unsigned (tr_total_chunks row)) (\<lambda>total_chunks.
          Option.bind (checked_sql_unsigned (tr_current_rate_bps row)) (\<lambda>current_rate_bps.
          Option.bind (checked_sql_unsigned (tr_provider_count row)) (\<lambda>provider_count.
          Option.bind (checked_sql_unsigned (tr_retry_count row)) (\<lambda>retry_count.
          Option.bind (checked_sql_unsigned (tr_rejected_chunks row)) (\<lambda>rejected_chunks.
          Option.bind (checked_sql_unsigned (tr_resumed_chunks row)) (\<lambda>resumed_chunks.
          Some \<lparr>tx_id = tr_id row, tx_content_id = tr_content_id row, tx_direction = tr_direction row,
            tx_status = tr_status row, tx_bytes_total = bytes_total, tx_bytes_transferred = bytes_transferred,
            tx_verified_chunks = verified_chunks, tx_total_chunks = total_chunks,
            tx_current_rate_bps = current_rate_bps, tx_provider_count = provider_count,
            tx_retry_count = retry_count, tx_rejected_chunks = rejected_chunks,
            tx_provider_contributions = contributions, tx_resumed_chunks = resumed_chunks,
            tx_error = tr_error row, tx_share_on_complete = (tr_share_on_complete row \<noteq> 0),
            tx_network_path = tr_network_path row\<rparr>))))))))))"

section \<open>Contents\<close>

definition content_directory :: "path \<Rightarrow> str \<Rightarrow> path" where
  "content_directory root content_id = path_join (path_join root (ascii ''content'')) content_id"

definition get_content :: "node_lib \<Rightarrow> str \<Rightarrow> content_record option store_op" where
  "get_content lib content_id =
    op_bind (query (\<lambda>db. filter (\<lambda>row. cr_content_id row = content_id) (db_content db))) (\<lambda>rows.
    op_bind (op_get st_root) (\<lambda>root.
    case rows of
      [] \<Rightarrow> op_return None
    | row # _ \<Rightarrow> op_bind (op_result (ok_or (content_from_row lib root row) NodeSql)) (\<lambda>r. op_return (Some r))))"

definition content_exists :: "node_lib \<Rightarrow> str \<Rightarrow> bool store_op" where
  "content_exists lib content_id = op_bind (get_content lib content_id) (\<lambda>r. op_return (r \<noteq> None))"

datatype integrity_failure = MissingFile | CorruptFile

definition verify_stored_content ::
  "node_lib \<Rightarrow> path \<Rightarrow> path \<Rightarrow> str \<Rightarrow> (integrity_failure + unit) store_op" where
  "verify_stored_content lib data_path manifest_path content_id =
    op_bind (op_try (disk_op (fs_read data_path))) (\<lambda>r. case r of
      Inl _ \<Rightarrow> op_return (Inl MissingFile)
    | Inr bytes \<Rightarrow>
        op_bind (op_try (disk_op (fs_read manifest_path))) (\<lambda>r. case r of
          Inl _ \<Rightarrow> op_return (Inl MissingFile)
        | Inr encoded \<Rightarrow> op_return
            (case nl_manifest_from lib encoded of
               None \<Rightarrow> Inl CorruptFile
             | Some m \<Rightarrow>
                 if display_id lib (m_content_id m) \<noteq> content_id then Inl CorruptFile
                 else and_then (map_err (\<lambda>_. CorruptFile) (from_bytes (nl_hash lib) bytes)) (\<lambda>(_, chunks).
                   if \<not> is_ok (reconstruct (nl_hash lib) m chunks)
                      \<or> content_id_digest (nl_hash lib) bytes \<noteq> m_content_id m
                   then Inl CorruptFile else Inr ()))))"

definition insert_content :: "content_row \<Rightarrow> database \<Rightarrow> database option" where
  "insert_content row db =
    (if cr_content_id row \<in> cr_content_id ` set (db_content db) then None
     else Some (db\<lparr>db_content := db_content db @ [row]\<rparr>))"

text \<open>\<open>ON CONFLICT(content_id) DO UPDATE\<close>; the creation time of the old row stays.\<close>

definition upsert_content :: "content_row \<Rightarrow> database \<Rightarrow> database option" where
  "upsert_content row db =
    (if cr_content_id row \<in> cr_content_id ` set (db_content db)
     then Some (db\<lparr>db_content := map (\<lambda>old. if cr_content_id old = cr_content_id row
       then row\<lparr>cr_created_at := cr_created_at old\<rparr> else old) (db_content db)\<rparr>)
     else Some (db\<lparr>db_content := db_content db @ [row]\<rparr>))"

definition content_params :: "path \<Rightarrow> str \<Rightarrow> manifest \<Rightarrow> path \<Rightarrow> path \<Rightarrow> bool \<Rightarrow> content_row store_op" where
  "content_params root content_id m data_path manifest_path shared =
    op_bind (op_result (i64_try_from (unat (m_length m)))) (\<lambda>len.
    op_bind (op_result (i64_try_from (length (m_chunks m)))) (\<lambda>chunks.
    op_bind (op_result (relative_string root data_path)) (\<lambda>data_relative.
    op_bind (op_result (relative_string root manifest_path)) (\<lambda>manifest_relative.
    op_bind unix_time (\<lambda>now.
    op_return \<lparr>cr_content_id = content_id, cr_length = len, cr_chunk_count = chunks, cr_data_path = data_relative,
      cr_manifest_path = manifest_relative, cr_shared = of_bool shared, cr_complete = 1,
      cr_integrity = ascii ''ok'', cr_created_at = now\<rparr>)))))"

definition store_add_content :: "node_lib \<Rightarrow> path \<Rightarrow> bool \<Rightarrow> content_record store_op" where
  "store_add_content lib source shared =
    op_bind (op_context (NodeText (ascii ''failed to read imported file '' @ source)) (disk_op (fs_read source))) (\<lambda>bytes.
    op_bind (op_result (map_err NodeContent (from_bytes (nl_hash lib) bytes))) (\<lambda>(m, _).
    let content_id = display_id lib (m_content_id m) in
    op_bind (content_exists lib content_id) (\<lambda>indexed.
    if indexed then op_fail (NodeText (ascii ''content '' @ content_id @ ascii '' is already indexed''))
    else
      op_bind (op_get st_root) (\<lambda>root.
      let directory = content_directory root content_id; data_path = path_join directory (ascii ''data'');
          temporary = path_join directory (ascii ''data.importing'');
          manifest_path = path_join directory (ascii ''manifest.postcard'') in
      op_bind (create_dir_all directory) (\<lambda>_.
      op_bind (disk_op (fs_write temporary bytes)) (\<lambda>_.
      op_bind (disk_op (fs_read temporary)) (\<lambda>copy.
      if content_id_digest (nl_hash lib) copy \<noteq> m_content_id m
      then op_bail ''managed copy failed content-ID verification''
      else
        op_bind (disk_op (replace_file temporary data_path)) (\<lambda>_.
        op_bind (disk_op (fs_write manifest_path (nl_manifest_to lib m))) (\<lambda>_.
        op_bind (content_params root content_id m data_path manifest_path shared) (\<lambda>row.
        op_bind (execute (insert_content row)) (\<lambda>_.
        op_bind (get_content lib content_id) (\<lambda>r.
        op_result (ok_or r (NodeBail ''new content was not indexed''))))))))))))))"

definition complete_download :: "node_lib \<Rightarrow> content_id \<Rightarrow> bool \<Rightarrow> content_record store_op" where
  "complete_download lib content_id shared =
    (let cid = display_id lib content_id in
     op_bind (op_get st_root) (\<lambda>root.
     let data_path = path_join (content_directory root cid) (ascii ''data'');
         manifest_path = path_join (content_directory root cid) (ascii ''manifest.postcard'') in
     op_bind (disk_op (fs_read data_path)) (\<lambda>bytes.
     op_bind (op_result (map_err NodeContent (from_bytes (nl_hash lib) bytes))) (\<lambda>(m, _).
     if m_content_id m \<noteq> content_id then op_bail ''completed download does not match requested content ID''
     else
       op_bind (disk_op (fs_write manifest_path (nl_manifest_to lib m))) (\<lambda>_.
       op_bind (content_params root cid m data_path manifest_path shared) (\<lambda>row.
       op_bind (execute (upsert_content row)) (\<lambda>_.
       op_bind (get_content lib cid) (\<lambda>r.
       op_result (ok_or r (NodeBail ''completed content was not indexed''))))))))))"

definition set_integrity :: "str \<Rightarrow> integrity_failure + unit \<Rightarrow> database \<Rightarrow> database option" where
  "set_integrity content_id integrity db =
    Some (db\<lparr>db_content := map (\<lambda>row.
      if cr_content_id row \<noteq> content_id then row
      else case integrity of
        Inr _ \<Rightarrow> row\<lparr>cr_integrity := ascii ''ok''\<rparr>
      | Inl MissingFile \<Rightarrow> row\<lparr>cr_integrity := ascii ''missing'', cr_shared := 0\<rparr>
      | Inl CorruptFile \<Rightarrow> row\<lparr>cr_integrity := ascii ''corrupt'', cr_shared := 0\<rparr>) (db_content db)\<rparr>)"

fun verify_rows :: "node_lib \<Rightarrow> (str \<times> str \<times> str) list \<Rightarrow> unit store_op" where
  "verify_rows lib [] = op_return ()"
| "verify_rows lib ((content_id, data_relative, manifest_relative) # rows) =
    op_bind (op_result (map_err (\<lambda>_. NodeText (ascii ''invalid content ID indexed in local state: '' @ content_id))
      (parse_id lib content_id))) (\<lambda>parsed.
    if display_id lib parsed \<noteq> content_id then op_bail ''non-canonical content ID indexed in local state''
    else
      op_bind (op_get st_root) (\<lambda>root.
      op_bind (op_result (ok_or (managed_path root data_relative)
        (NodeText (ascii ''invalid data path indexed for '' @ content_id)))) (\<lambda>data_path.
      op_bind (op_result (ok_or (managed_path root manifest_relative)
        (NodeText (ascii ''invalid manifest path indexed for '' @ content_id)))) (\<lambda>manifest_path.
      op_bind (verify_stored_content lib data_path manifest_path content_id) (\<lambda>integrity.
      op_bind (execute (set_integrity content_id integrity)) (\<lambda>_.
      verify_rows lib rows))))))"

definition verify_all :: "node_lib \<Rightarrow> unit store_op" where
  "verify_all lib =
    op_bind (query (\<lambda>db. map (\<lambda>row. (cr_content_id row, cr_data_path row, cr_manifest_path row))
      (filter (\<lambda>row. cr_complete row = 1) (db_content db)))) (\<lambda>rows.
    verify_rows lib rows)"

definition store_list_content :: "node_lib \<Rightarrow> content_record list store_op" where
  "store_list_content lib =
    op_bind (verify_all lib) (\<lambda>_.
    op_bind (query (\<lambda>db. sort_key cr_content_id (db_content db))) (\<lambda>rows.
    op_bind (op_get st_root) (\<lambda>root.
    op_result (ok_or (collect_options (content_from_row lib root) rows) NodeSql))))"

definition delete_content :: "str \<Rightarrow> database \<Rightarrow> database option" where
  "delete_content content_id db = Some (db\<lparr>db_content := filter (\<lambda>row. cr_content_id row \<noteq> content_id) (db_content db)\<rparr>)"

definition store_remove_content :: "node_lib \<Rightarrow> str \<Rightarrow> bool \<Rightarrow> unit store_op" where
  "store_remove_content lib content_id delete_bytes =
    op_bind (op_result (map_err (\<lambda>_. NodeBail ''invalid content ID'') (parse_id lib content_id))) (\<lambda>parsed.
    let content_id = display_id lib parsed in
    op_bind (get_content lib content_id) (\<lambda>r.
    if r = None then op_fail (NodeText (ascii ''unknown content ID '' @ content_id))
    else
      op_bind (execute (delete_content content_id)) (\<lambda>_.
      op_bind (op_get st_root) (\<lambda>root.
      op_bind (op_get (path_exists (content_directory root content_id))) (\<lambda>present.
      if delete_bytes \<and> present then remove_dir_all (content_directory root content_id) else op_return ())))))"

definition counts :: "(nat \<times> nat) store_op" where
  "counts =
    op_bind (query (\<lambda>db. length (db_content db))) (\<lambda>stored.
    op_bind (query (\<lambda>db. length (filter (\<lambda>row. cr_shared row = 1 \<and> cr_integrity row = ascii ''ok'') (db_content db)))) (\<lambda>shared.
    op_return (stored, shared)))"

section \<open>Transfers\<close>

definition resumable_states :: "string list" where
  "resumable_states = [''running'', ''pausing'', ''paused'', ''interrupted'']"

definition is_resumable :: "transfer_row \<Rightarrow> bool" where
  "is_resumable row \<longleftrightarrow> tr_status row \<in> ascii ` set resumable_states"

definition is_active :: "transfer_row \<Rightarrow> bool" where
  "is_active row \<longleftrightarrow> tr_status row = ascii ''running'' \<or> tr_status row = ascii ''pausing''"

definition new_transfer :: "int \<Rightarrow> str \<Rightarrow> bool \<Rightarrow> int \<Rightarrow> transfer_row" where
  "new_transfer tid content_id share now = \<lparr>tr_id = tid, tr_content_id = content_id, tr_direction = ascii ''download'',
    tr_status = ascii ''running'', tr_bytes_total = 0, tr_bytes_transferred = 0, tr_verified_chunks = 0, tr_total_chunks = 0,
    tr_current_rate_bps = 0, tr_provider_count = 0, tr_retry_count = 0, tr_rejected_chunks = 0,
    tr_provider_contributions = ascii ''[]'', tr_resumed_chunks = 0, tr_error = None, tr_share_on_complete = of_bool share,
    tr_network_path = ascii ''encrypted_relayed_swarm'', tr_created_at = now, tr_updated_at = now\<rparr>"

text \<open>\<open>AUTOINCREMENT\<close> never uses a number again; the insertion fails when the numbers are used up.\<close>

definition insert_transfer :: "str \<Rightarrow> bool \<Rightarrow> int \<Rightarrow> database \<Rightarrow> database option" where
  "insert_transfer content_id share now db =
    (if db_sequence db = 2 ^ 63 - 1 then None
     else Some (db\<lparr>db_transfers := db_transfers db @ [new_transfer (db_sequence db + 1) content_id share now],
       db_sequence := db_sequence db + 1\<rparr>))"

definition create_transfer :: "str \<Rightarrow> bool \<Rightarrow> int store_op" where
  "create_transfer content_id share =
    op_bind (query (\<lambda>db. length (filter (\<lambda>row. tr_content_id row = content_id \<and> is_resumable row) (db_transfers db)))) (\<lambda>active.
    if active \<noteq> 0 then op_fail (NodeText (ascii ''a resumable transfer already exists for '' @ content_id))
    else
      op_bind unix_time (\<lambda>now.
      op_bind (execute (insert_transfer content_id share now)) (\<lambda>_.
      op_get (\<lambda>st. db_sequence (st_db st)))))"

text \<open>\<open>UPDATE transfers SET .. WHERE ..\<close>.\<close>

definition update_transfers :: "(transfer_row \<Rightarrow> bool) \<Rightarrow> (transfer_row \<Rightarrow> transfer_row) \<Rightarrow> database \<Rightarrow> database option" where
  "update_transfers P f db = Some (db\<lparr>db_transfers := map (\<lambda>row. if P row then f row else row) (db_transfers db)\<rparr>)"

definition update_transfer :: "int \<Rightarrow> string \<Rightarrow> nat \<Rightarrow> nat \<Rightarrow> nat \<Rightarrow> str option \<Rightarrow> unit store_op" where
  "update_transfer tid status bytes_total bytes_transferred resumed_chunks error =
    op_bind (op_result (i64_try_from bytes_total)) (\<lambda>bytes_total.
    op_bind (op_result (i64_try_from bytes_transferred)) (\<lambda>bytes_transferred.
    op_bind (op_result (i64_try_from resumed_chunks)) (\<lambda>resumed_chunks.
    op_bind unix_time (\<lambda>now.
    execute (update_transfers (\<lambda>row. tr_id row = tid) (\<lambda>row. row\<lparr>tr_status := ascii status, tr_bytes_total := bytes_total,
      tr_bytes_transferred := bytes_transferred, tr_resumed_chunks := resumed_chunks, tr_error := error,
      tr_current_rate_bps := 0, tr_updated_at := now\<rparr>))))))"

definition update_progress :: "int \<Rightarrow> verified_progress \<Rightarrow> nat \<Rightarrow> unit store_op" where
  "update_progress tid progress current_rate_bps =
    op_bind (op_result (i64_try_from (vp_bytes_total progress))) (\<lambda>bytes_total.
    op_bind (op_result (i64_try_from (vp_verified_bytes progress))) (\<lambda>verified_bytes.
    op_bind (op_result (i64_try_from (vp_verified_chunks progress))) (\<lambda>verified_chunks.
    op_bind (op_result (i64_try_from (vp_total_chunks progress))) (\<lambda>total_chunks.
    op_bind (op_result (i64_try_from current_rate_bps)) (\<lambda>rate.
    op_bind (op_result (i64_try_from (vp_provider_count progress))) (\<lambda>provider_count.
    op_bind (op_result (i64_try_from (vp_retry_count progress))) (\<lambda>retry_count.
    op_bind (op_result (i64_try_from (vp_rejected_chunks progress))) (\<lambda>rejected_chunks.
    op_bind unix_time (\<lambda>now.
    execute (update_transfers (\<lambda>row. tr_id row = tid \<and> is_active row) (\<lambda>row. row\<lparr>tr_bytes_total := bytes_total,
      tr_bytes_transferred := verified_bytes, tr_verified_chunks := verified_chunks, tr_total_chunks := total_chunks,
      tr_current_rate_bps := rate, tr_provider_count := provider_count, tr_retry_count := retry_count,
      tr_rejected_chunks := rejected_chunks, tr_updated_at := now\<rparr>)))))))))))"

definition set_transfer_status :: "int \<Rightarrow> string \<Rightarrow> str option \<Rightarrow> unit store_op" where
  "set_transfer_status tid status error =
    op_bind unix_time (\<lambda>now.
    execute (update_transfers (\<lambda>row. tr_id row = tid) (\<lambda>row. row\<lparr>tr_status := ascii status, tr_error := error,
      tr_current_rate_bps := 0, tr_updated_at := now\<rparr>)))"

definition complete_transfer :: "node_lib \<Rightarrow> int \<Rightarrow> nat \<Rightarrow> nat \<Rightarrow> persistent_fetch_stats \<Rightarrow> unit store_op" where
  "complete_transfer lib tid content_length content_chunks stats =
    (let contributions = js_encode (nl_json lib) (JArray (map contribution_to_json (fs_provider_contributions stats))) in
     op_bind (op_result (i64_try_from content_length)) (\<lambda>content_length.
     op_bind (op_result (i64_try_from content_chunks)) (\<lambda>content_chunks.
     op_bind (op_result (i64_try_from (fs_retry_count stats))) (\<lambda>retry_count.
     op_bind (op_result (i64_try_from (fs_rejected_chunks stats))) (\<lambda>rejected_chunks.
     op_bind (op_result (i64_try_from (fs_resumed_chunks stats))) (\<lambda>resumed_chunks.
     op_bind unix_time (\<lambda>now.
     execute (update_transfers (\<lambda>row. tr_id row = tid) (\<lambda>row. row\<lparr>tr_status := ascii ''completed'',
       tr_bytes_total := content_length, tr_bytes_transferred := content_length, tr_verified_chunks := content_chunks,
       tr_total_chunks := content_chunks, tr_current_rate_bps := 0, tr_retry_count := retry_count,
       tr_rejected_chunks := rejected_chunks, tr_provider_contributions := contributions,
       tr_resumed_chunks := resumed_chunks, tr_error := None, tr_updated_at := now\<rparr>)))))))))"

definition read_transfers :: "node_lib \<Rightarrow> transfer_row list \<Rightarrow> transfer_record list store_op" where
  "read_transfers lib rows = op_result (ok_or (collect_options (transfer_from_row lib) rows) NodeSql)"

definition list_transfers :: "node_lib \<Rightarrow> transfer_record list store_op" where
  "list_transfers lib = op_bind (query (\<lambda>db. sort_key tr_id (db_transfers db))) (read_transfers lib)"

definition get_transfer :: "node_lib \<Rightarrow> int \<Rightarrow> transfer_record option store_op" where
  "get_transfer lib tid =
    op_bind (query (\<lambda>db. filter (\<lambda>row. tr_id row = tid) (db_transfers db))) (\<lambda>rows. case rows of
      [] \<Rightarrow> op_return None
    | row # _ \<Rightarrow> op_bind (op_result (ok_or (transfer_from_row lib row) NodeSql)) (\<lambda>r. op_return (Some r)))"

definition mark_running_interrupted :: "unit store_op" where
  "mark_running_interrupted =
    op_bind unix_time (\<lambda>now.
    execute (update_transfers is_active (\<lambda>row. row\<lparr>tr_status := ascii ''interrupted'', tr_current_rate_bps := 0,
      tr_updated_at := now\<rparr>)))"

definition recoverable_transfers :: "node_lib \<Rightarrow> transfer_record list store_op" where
  "recoverable_transfers lib =
    op_bind unix_time (\<lambda>now.
    op_bind (execute (update_transfers is_active (\<lambda>row. row\<lparr>tr_status := ascii ''interrupted'', tr_current_rate_bps := 0,
      tr_updated_at := now\<rparr>))) (\<lambda>_.
    op_bind (query (\<lambda>db. sort_key tr_id (filter (\<lambda>row. tr_status row = ascii ''interrupted'') (db_transfers db))))
      (read_transfers lib)))"

section \<open>Opening\<close>

definition SCHEMA_VERSION :: int where
  "SCHEMA_VERSION = 2"

text \<open>
  The first batch: two pragmas, \<open>schema_version\<close> and its row, \<open>content\<close>, \<open>transfers\<close>.
\<close>

definition schema_statements :: "(database \<Rightarrow> database option) list" where
  "schema_statements =
    [Some, Some, Some,
     (\<lambda>db. Some (if db_schema db = [] then db\<lparr>db_schema := [2]\<rparr> else db)),
     Some,
     (\<lambda>db. Some (if db_has_transfers db then db else db\<lparr>db_has_transfers := True, db_columns := 8\<rparr>))]"

text \<open>
  \<open>ALTER TABLE transfers ADD COLUMN\<close> for the column at a position, which fails when the column is
  there.
\<close>

definition add_column :: "nat \<Rightarrow> database \<Rightarrow> database option" where
  "add_column i db = (if i < db_columns db then None else Some (db\<lparr>db_columns := i + 1\<rparr>))"

definition migration_statements :: "(database \<Rightarrow> database option) list" where
  "migration_statements =
    map add_column [0..<8] @ [\<lambda>db. Some (db\<lparr>db_schema := map (\<lambda>_. 2) (db_schema db)\<rparr>)]"

definition store_open :: "node_lib \<Rightarrow> unit store_op" where
  "store_open lib =
    op_bind (op_get st_root) (\<lambda>root.
    op_bind (create_dir_all (path_join root (ascii ''content''))) (\<lambda>_.
    op_bind (create_dir_all (path_join root (ascii ''state''))) (\<lambda>_.
    op_bind (op_context (NodeText (ascii ''failed to open SQLite index '' @ path_join (path_join root (ascii ''state'')) (ascii ''node.sqlite3'')))
      sql_statement) (\<lambda>_.
    op_bind (execute_batch schema_statements) (\<lambda>_.
    op_bind (query db_schema) (\<lambda>versions. case versions of
      [] \<Rightarrow> op_fail NodeSql
    | version # _ \<Rightarrow>
        op_bind (if version = 1 then execute_batch migration_statements
                 else if version = SCHEMA_VERSION then op_return ()
                 else op_fail (NodeText (ascii ''unsupported node index schema version '' @ decimal_int version))) (\<lambda>_.
        verify_all lib)))))))"

section \<open>Frames\<close>

text \<open>A property of the root and the tables; only \<open>execute\<close> can change it.\<close>

definition store_inv :: "(path \<Rightarrow> database \<Rightarrow> bool) \<Rightarrow> store \<Rightarrow> bool" where
  "store_inv P st \<longleftrightarrow> P (st_root st) (st_db st)"

lemma keeps_disk_op [keeps_intros]: "keeps (store_inv P) (disk_op m)"
  unfolding disk_op_def by (rule keeps_zoom) (simp add: store_inv_def)

lemma keeps_primitive [keeps_intros]:
  "keeps (store_inv P) (create_dir_all p)" "keeps (store_inv P) (remove_dir_all p)"
  "keeps (store_inv P) sql_statement" "keeps (store_inv P) unix_time"
proof -
  have "keeps (store_inv P) (op_modify (st_dirs_update f))" for f
    by (rule keeps_modify) (simp add: store_inv_def)
  then show "keeps (store_inv P) (create_dir_all p)" unfolding create_dir_all_def by (intro keeps_intros)
  show "keeps (store_inv P) (remove_dir_all p)" "keeps (store_inv P) sql_statement" "keeps (store_inv P) unix_time"
    by (auto simp: keeps_def remove_dir_all_def sql_statement_def unix_time_def store_inv_def
        split: prod.splits option.splits fault.splits list.splits)
qed

lemma keeps_query [keeps_intros]: "keeps (store_inv P) (query f)"
  unfolding query_def by (intro keeps_intros)

lemma keeps_execute:
  assumes "\<And>root db db'. P root db \<Longrightarrow> f db = Some db' \<Longrightarrow> P root db'"
  shows "keeps (store_inv P) (execute f)"
proof -
  have "keeps (store_inv P) (\<lambda>st. case f (st_db st) of None \<Rightarrow> (Inl NodeSql, st) | Some db \<Rightarrow> (Inr (), st\<lparr>st_db := db\<rparr>))"
    using assms by (auto simp: keeps_def store_inv_def split: option.splits)
  then show ?thesis unfolding execute_def by (intro keeps_intros)
qed

lemma keeps_execute_batch: "(\<And>f. f \<in> set fs \<Longrightarrow> keeps I (execute f)) \<Longrightarrow> keeps I (execute_batch fs)"
  by (induction fs) (auto intro!: keeps_intros)

lemma keeps_reading [keeps_intros]:
  "keeps (store_inv P) (get_content lib content_id)" "keeps (store_inv P) (content_exists lib content_id)"
  "keeps (store_inv P) (verify_stored_content lib data_path manifest_path content_id)"
  "keeps (store_inv P) (content_params root content_id m data_path manifest_path shared)"
  "keeps (store_inv P) counts" "keeps (store_inv P) (read_transfers lib rows)" "keeps (store_inv P) (list_transfers lib)"
  "keeps (store_inv P) (get_transfer lib tid)"
  unfolding get_content_def content_exists_def verify_stored_content_def content_params_def counts_def
    read_transfers_def list_transfers_def get_transfer_def
  by (intro keeps_intros)+

lemma keeps_verify_rows:
  assumes "\<And>content_id integrity. keeps (store_inv P) (execute (set_integrity content_id integrity))"
  shows "keeps (store_inv P) (verify_rows lib rows)"
proof (induction rows)
  case (Cons row rows)
  then show ?case by (cases row) (simp, intro keeps_intros assms)
qed (simp add: keeps_simple)

text \<open>
  The operations on contents leave the transfers alone, and the other way round.
\<close>

abbreviation transfers_inv :: "(transfer_row list \<Rightarrow> int \<Rightarrow> bool) \<Rightarrow> store \<Rightarrow> bool" where
  "transfers_inv P \<equiv> store_inv (\<lambda>_ db. P (db_transfers db) (db_sequence db))"

abbreviation contents_inv :: "(path \<Rightarrow> content_row list \<Rightarrow> bool) \<Rightarrow> store \<Rightarrow> bool" where
  "contents_inv P \<equiv> store_inv (\<lambda>root db. P root (db_content db))"

lemma keeps_transfers [keeps_intros]:
  "keeps (transfers_inv P) (execute (set_integrity content_id integrity))"
  "keeps (transfers_inv P) (execute (insert_content row))" "keeps (transfers_inv P) (execute (upsert_content row))"
  "keeps (transfers_inv P) (execute (delete_content content_id))"
  by (rule keeps_execute; auto simp: set_integrity_def insert_content_def upsert_content_def delete_content_def
      split: if_splits)+

lemma keeps_transfers_contents [keeps_intros]:
  "keeps (transfers_inv P) (verify_all lib)" "keeps (transfers_inv P) (store_list_content lib)"
  "keeps (transfers_inv P) (store_add_content lib source shared)" "keeps (transfers_inv P) (complete_download lib content_id shared)"
  "keeps (transfers_inv P) (store_remove_content lib text_id delete_bytes)"
proof -
  show v: "keeps (transfers_inv P) (verify_all lib)"
    unfolding verify_all_def by (intro keeps_intros keeps_verify_rows)
  then show "keeps (transfers_inv P) (store_list_content lib)"
    unfolding store_list_content_def by (intro keeps_intros)
  show "keeps (transfers_inv P) (store_add_content lib source shared)"
    "keeps (transfers_inv P) (complete_download lib content_id shared)"
    "keeps (transfers_inv P) (store_remove_content lib text_id delete_bytes)"
    unfolding store_add_content_def complete_download_def store_remove_content_def Let_def
    by (intro keeps_intros)+
qed

lemma keeps_contents_transfers [keeps_intros]:
  "keeps (contents_inv P) (create_transfer content_id share)" "keeps (contents_inv P) (update_transfer tid status a b c e)"
  "keeps (contents_inv P) (update_progress tid progress rate)" "keeps (contents_inv P) (set_transfer_status tid status e)"
  "keeps (contents_inv P) (complete_transfer lib tid a b stats)" "keeps (contents_inv P) mark_running_interrupted"
  "keeps (contents_inv P) (recoverable_transfers lib)"
proof -
  have "keeps (contents_inv P) (execute (update_transfers Q f))" "keeps (contents_inv P) (execute (insert_transfer cid share now))"
    for Q f cid share now
    by (rule keeps_execute; auto simp: update_transfers_def insert_transfer_def split: if_splits)+
  note base = this
  show "keeps (contents_inv P) (create_transfer content_id share)" "keeps (contents_inv P) (update_transfer tid status a b c e)"
    "keeps (contents_inv P) (update_progress tid progress rate)" "keeps (contents_inv P) (set_transfer_status tid status e)"
    "keeps (contents_inv P) (complete_transfer lib tid a b stats)" "keeps (contents_inv P) mark_running_interrupted"
    "keeps (contents_inv P) (recoverable_transfers lib)"
    unfolding create_transfer_def update_transfer_def update_progress_def set_transfer_status_def complete_transfer_def
      mark_running_interrupted_def recoverable_transfers_def Let_def
    by (intro keeps_intros base)+
qed

end
