(* ===== verification/Node_Index.thy ===== *)
theory Node_Index
  imports Node_Store
begin

text \<open>
  What the store promises about contents: recorded paths stay below the root, every operation keeps
  the index well formed, and a listing tells the truth about the files.
\<close>

section \<open>Success of primitive operations\<close>

lemma disk_op_iff [result_iffs]:
  "disk_op m st = (Inr x, st') \<longleftrightarrow> (\<exists>d. m (st_disk st) = (Inr x, d) \<and> st' = st\<lparr>st_disk := d\<rparr>)"
  by (auto simp: disk_op_def result_iffs)

lemma sql_statement_iff [result_iffs]:
  "sql_statement st = (Inr x, st') \<longleftrightarrow>
    (\<exists>fs. st' = st\<lparr>st_sql := fs\<rparr> \<and> (st_sql st = [] \<and> fs = [] \<or> st_sql st = False # fs))"
  by (auto simp: sql_statement_def split: list.splits if_splits)

lemma query_iff [result_iffs]:
  "query f st = (Inr x, st') \<longleftrightarrow> x = f (st_db st) \<and> sql_statement st = (Inr (), st')"
  by (auto simp: query_def result_iffs)

lemma execute_iff [result_iffs]:
  "execute f st = (Inr x, st') \<longleftrightarrow>
    (\<exists>st1 db. sql_statement st = (Inr (), st1) \<and> f (st_db st) = Some db \<and> st' = st1\<lparr>st_db := db\<rparr>)"
  by (auto simp: execute_def op_bind_def sql_statement_def split: option.splits list.splits if_splits)

section \<open>Paths of the store\<close>

text \<open>A name that is one component of a path.\<close>

definition plain_name :: "str \<Rightarrow> bool" where
  "plain_name s \<longleftrightarrow> s \<noteq> [] \<and> 47 \<notin> set s \<and> 92 \<notin> set s \<and> s \<noteq> ascii ''.'' \<and> s \<noteq> ascii ''..''"

lemma path_parts_plain: "plain_name s \<Longrightarrow> path_parts s = [Normal s]"
  by (simp add: path_parts_def plain_name_def split_on_single named_component_def)

lemma plain_not_absolute: "plain_name s \<Longrightarrow> \<not> (s \<noteq> [] \<and> hd s = 47)"
  by (cases s) (auto simp: plain_name_def)

lemma components_join:
  assumes "r \<noteq> []" "plain_name s"
  shows "components (path_join r s) = components r @ [Normal s]" "path_join r s \<noteq> []" "last (path_join r s) \<noteq> 47"
proof -
  have s: "s \<noteq> []" "hd s \<noteq> 47" "last s \<noteq> 47"
    using assms(2) plain_not_absolute by (auto simp: plain_name_def dest: last_in_set)
  show "components (path_join r s) = components r @ [Normal s]"
  proof (cases "last r = 47")
    case True
    then obtain r' where "r = r' @ [47]" using assms(1) by (metis append_butlast_last_id)
    then show ?thesis
      using s components_under [of r' s] path_parts_plain [OF assms(2)] by (simp add: path_join_def)
  next
    case False
    then show ?thesis
      using s assms(1) components_under [of r s] components_trailing [of r] path_parts_plain [OF assms(2)]
      by (simp add: path_join_def)
  qed
  show "path_join r s \<noteq> []" "last (path_join r s) \<noteq> 47" using s by (simp_all add: path_join_def)
qed

lemma components_empty: "components [] = []"
  by (simp add: components_def path_parts_def ascii_def)

lemma components_plain: "plain_name s \<Longrightarrow> components s = [Normal s]"
  by (simp add: components_def path_parts_plain plain_not_absolute split_on_single)
    (auto simp: plain_name_def split_on_single)

lemma plain_end: "plain_name s \<Longrightarrow> s \<noteq> [] \<and> hd s \<noteq> 47 \<and> last s \<noteq> 47"
  using plain_not_absolute by (auto simp: plain_name_def dest: last_in_set)

text \<open>The paths of the store are found again from their recorded form.\<close>

lemma managed_roundtrip:
  assumes "plain_name a" "plain_name b" "plain_name c"
  shows "\<exists>relative. relative_string root (path_join (path_join (path_join root a) b) c) = Inr relative
    \<and> managed_path root relative = Some (path_join (path_join (path_join root a) b) c)"
proof -
  let ?p = "path_join (path_join (path_join root a) b) c" and ?rel = "a @ 47 # b @ 47 # c"
  have ne: "path_join root a \<noteq> []" using assms(1) by (simp add: path_join_def plain_name_def)
  have ra: "components (path_join root a) = components root @ [Normal a]"
  proof (cases "root = []")
    case True
    then show ?thesis by (simp add: components_empty path_join_def components_plain [OF assms(1)])
  qed (rule components_join(1) [OF _ assms(1)])
  have p: "components ?p = components root @ [Normal a, Normal b, Normal c]"
    using components_join [OF ne assms(2)] components_join [OF _ assms(3)] by (simp add: ra)
  have slashes: "map (\<lambda>x. if x = 92 then 47 else x) ?rel = ?rel"
    using assms by (auto simp: plain_name_def intro!: map_idI)
  have rel: "relative_string root ?p = Inr ?rel"
    using slashes by (simp add: relative_string_def p)
  have parts: "path_parts ?rel = [Normal a, Normal b, Normal c]"
    using assms by (simp add: path_parts_append path_parts_plain)
  have hd: "\<not> (?rel \<noteq> [] \<and> hd ?rel = 47)" "hd (split_on 47 ?rel) \<noteq> ascii ''.''"
    using assms(1) by (cases a; auto simp: plain_name_def split_on_join split_on_single)+
  then have "components ?rel = path_parts ?rel" unfolding components_def by auto
  then have "list_all is_normal (components ?rel)" by (simp add: parts is_normal_def)
  then have "managed_path root ?rel = Some (path_join root ?rel)" by (simp add: managed_path_def)
  moreover have "path_join root ?rel = ?p"
    using plain_end [OF assms(1)] plain_end [OF assms(2)] plain_end [OF assms(3)] by (simp add: path_join_def)
  ultimately show ?thesis using rel by auto
qed

section \<open>Verification of the stored files\<close>

definition store_files :: "store \<Rightarrow> path \<Rightarrow> u8 list option" where
  "store_files st = files (st_disk st)"

lemma read_frame:
  "disk_op (fs_read p) st = (r, st') \<Longrightarrow>
    store_files st' = store_files st \<and> st_root st' = st_root st \<and> st_db st' = st_db st"
  by (auto simp: disk_op_def op_zoom_def op_act_def store_files_def split: prod.splits dest: fs_read_files)

lemma read_Inr: "disk_op (fs_read p) st = (Inr bytes, st') \<Longrightarrow> store_files st p = Some bytes"
  by (auto simp: result_iffs store_files_def dest: fs_read_Inr)

lemma verify_stored_frame:
  assumes "verify_stored_content lib dp mp content_id st = (r, st')"
  shows "store_files st' = store_files st \<and> st_root st' = st_root st \<and> st_db st' = st_db st"
proof -
  obtain r1 st1 where 1: "disk_op (fs_read dp) st = (r1, st1)" by fastforce
  obtain r2 st2 where 2: "disk_op (fs_read mp) st1 = (r2, st2)" by fastforce
  have "st' = (case r1 of Inl _ \<Rightarrow> st1 | Inr _ \<Rightarrow> st2)"
    using assms 1 2 by (auto simp: verify_stored_content_def op_defs split: sum.splits)
  then show ?thesis using read_frame [OF 1] read_frame [OF 2] by (auto split: sum.splits)
qed

lemma verify_stored_ok:
  assumes "verify_stored_content lib dp mp content_id st = (Inr (Inr u), st')"
  shows "\<exists>bytes. store_files st dp = Some bytes \<and> display_id lib (content_id_digest (nl_hash lib) bytes) = content_id"
proof -
  obtain r1 st1 where 1: "disk_op (fs_read dp) st = (r1, st1)" by fastforce
  obtain r2 st2 where 2: "disk_op (fs_read mp) st1 = (r2, st2)" by fastforce
  obtain bytes where r1: "r1 = Inr bytes"
    using assms 1 by (auto simp: verify_stored_content_def op_defs split: sum.splits)
  have "display_id lib (content_id_digest (nl_hash lib) bytes) = content_id"
    using assms 1 2
    by (auto simp: verify_stored_content_def op_defs r1 result_iffs split: sum.splits option.splits if_splits)
  then show ?thesis using read_Inr [of dp st bytes st1] 1 r1 by auto
qed

text \<open>
  A row is truthful when it says \<open>ok\<close> of a file with the identifier of the row, and otherwise is not
  shared.
\<close>

definition truthful :: "node_lib \<Rightarrow> (path \<rightharpoonup> u8 list) \<Rightarrow> path \<Rightarrow> content_row \<Rightarrow> bool" where
  "truthful lib fs root row \<longleftrightarrow>
    cr_integrity row = ascii ''ok''
      \<and> (\<exists>p bytes. managed_path root (cr_data_path row) = Some p \<and> fs p = Some bytes
          \<and> display_id lib (content_id_digest (nl_hash lib) bytes) = cr_content_id row)
    \<or> cr_integrity row \<in> {ascii ''missing'', ascii ''corrupt''} \<and> cr_shared row = 0"

lemma set_integrity_row:
  assumes "set_integrity content_id integrity db = Some db'" "row \<in> set (db_content db')"
  shows "\<exists>old \<in> set (db_content db). cr_content_id row = cr_content_id old \<and> cr_data_path row = cr_data_path old
    \<and> cr_complete row = cr_complete old
    \<and> (cr_content_id old \<noteq> content_id \<longrightarrow> row = old)
    \<and> (cr_content_id old = content_id \<longrightarrow>
        (case integrity of Inr _ \<Rightarrow> cr_integrity row = ascii ''ok''
         | Inl _ \<Rightarrow> cr_integrity row \<in> {ascii ''missing'', ascii ''corrupt''} \<and> cr_shared row = 0))"
proof -
  obtain old where old: "old \<in> set (db_content db)"
    and row: "row = (if cr_content_id old \<noteq> content_id then old
      else case integrity of
        Inr _ \<Rightarrow> old\<lparr>cr_integrity := ascii ''ok''\<rparr>
      | Inl MissingFile \<Rightarrow> old\<lparr>cr_integrity := ascii ''missing'', cr_shared := 0\<rparr>
      | Inl CorruptFile \<Rightarrow> old\<lparr>cr_integrity := ascii ''corrupt'', cr_shared := 0\<rparr>)"
    using assms by (auto simp: set_integrity_def)
  show ?thesis
    by (rule bexI [OF _ old]) (auto simp: row split: sum.splits integrity_failure.splits)
qed

lemma verify_rows_truthful:
  assumes "verify_rows lib rows st = (Inr u, st')"
    and "\<forall>(i, dp, mp) \<in> set rows. \<forall>row \<in> set (db_content (st_db st)). cr_content_id row = i \<longrightarrow> cr_data_path row = dp"
  shows "store_files st' = store_files st \<and> st_root st' = st_root st
    \<and> (\<forall>row \<in> set (db_content (st_db st')). \<exists>old \<in> set (db_content (st_db st)).
        cr_content_id row = cr_content_id old \<and> cr_data_path row = cr_data_path old \<and> cr_complete row = cr_complete old
        \<and> (cr_content_id row \<in> fst ` set rows \<longrightarrow> truthful lib (store_files st) (st_root st) row)
        \<and> (cr_content_id row \<notin> fst ` set rows \<longrightarrow> row = old))"
  using assms
proof (induction rows arbitrary: st)
  case Nil
  then show ?case by (auto simp: result_iffs)
next
  case (Cons entry rows)
  obtain i dp mp where e: "entry = (i, dp, mp)" by (cases entry)
  obtain data_path manifest_path integrity st1 st2 db where
    p: "managed_path (st_root st) dp = Some data_path"
    and v: "verify_stored_content lib data_path manifest_path i st = (Inr integrity, st1)"
    and s: "sql_statement st1 = (Inr (), st2)" "set_integrity i integrity (st_db st1) = Some db"
    and rest: "verify_rows lib rows (st2\<lparr>st_db := db\<rparr>) = (Inr u, st')"
    using Cons.prems(1) by (auto simp: e result_iffs split: if_splits)
  note f1 = verify_stored_frame [OF v]
  let ?st = "st2\<lparr>st_db := db\<rparr>"
  have f2: "store_files ?st = store_files st" "st_root ?st = st_root st" "st_db ?st = db"
    using s(1) f1 by (auto simp: result_iffs store_files_def)
  have step: "\<exists>old \<in> set (db_content (st_db st)). cr_content_id row = cr_content_id old \<and> cr_data_path row = cr_data_path old
      \<and> cr_complete row = cr_complete old \<and> (cr_content_id row = i \<longrightarrow> truthful lib (store_files st) (st_root st) row)
      \<and> (cr_content_id row \<noteq> i \<longrightarrow> row = old)" if row: "row \<in> set (db_content db)" for row
  proof -
    obtain old where old: "old \<in> set (db_content (st_db st))" "cr_content_id row = cr_content_id old"
      "cr_data_path row = cr_data_path old" "cr_complete row = cr_complete old" "cr_content_id old \<noteq> i \<longrightarrow> row = old"
      "cr_content_id old = i \<longrightarrow>
        (case integrity of Inr _ \<Rightarrow> cr_integrity row = ascii ''ok''
         | Inl _ \<Rightarrow> cr_integrity row \<in> {ascii ''missing'', ascii ''corrupt''} \<and> cr_shared row = 0)"
      using set_integrity_row [OF s(2) row] f1 by auto
    moreover have "truthful lib (store_files st) (st_root st) row" if i: "cr_content_id row = i"
    proof (cases integrity)
      case (Inl e)
      then show ?thesis using old i by (auto simp: truthful_def)
    next
      case (Inr w)
      have "cr_data_path row = dp" using Cons.prems(2) old i by (auto simp: e)
      then show ?thesis using Inr old i p verify_stored_ok [of lib data_path manifest_path i st] v by (auto simp: truthful_def)
    qed
    ultimately show ?thesis by auto
  qed
  have paths: "\<forall>(i', dp', mp') \<in> set rows. \<forall>row \<in> set (db_content (st_db ?st)). cr_content_id row = i' \<longrightarrow> cr_data_path row = dp'"
  proof -
    have "cr_data_path row = dp'" if "(i', dp', mp') \<in> set rows" "row \<in> set (db_content db)" "cr_content_id row = i'"
      for i' dp' mp' row
      using step [OF that(2)] Cons.prems(2) that by fastforce
    then show ?thesis unfolding f2 by blast
  qed
  have IH: "store_files st' = store_files st \<and> st_root st' = st_root st
    \<and> (\<forall>row \<in> set (db_content (st_db st')). \<exists>old \<in> set (db_content db).
        cr_content_id row = cr_content_id old \<and> cr_data_path row = cr_data_path old \<and> cr_complete row = cr_complete old
        \<and> (cr_content_id row \<in> fst ` set rows \<longrightarrow> truthful lib (store_files st) (st_root st) row)
        \<and> (cr_content_id row \<notin> fst ` set rows \<longrightarrow> row = old))"
    using Cons.IH [OF rest paths] unfolding f2 .
  show ?case
  proof (intro conjI ballI)
    fix row assume row: "row \<in> set (db_content (st_db st'))"
    obtain mid where mid: "mid \<in> set (db_content db)" and m: "cr_content_id row = cr_content_id mid
      \<and> cr_data_path row = cr_data_path mid \<and> cr_complete row = cr_complete mid
      \<and> (cr_content_id row \<in> fst ` set rows \<longrightarrow> truthful lib (store_files st) (st_root st) row)
      \<and> (cr_content_id row \<notin> fst ` set rows \<longrightarrow> row = mid)"
      using bspec [OF conjunct2 [OF conjunct2 [OF IH]] row] by (rule bexE)
    obtain old where old: "old \<in> set (db_content (st_db st))" and o: "cr_content_id mid = cr_content_id old
      \<and> cr_data_path mid = cr_data_path old \<and> cr_complete mid = cr_complete old
      \<and> (cr_content_id mid = i \<longrightarrow> truthful lib (store_files st) (st_root st) mid)
      \<and> (cr_content_id mid \<noteq> i \<longrightarrow> mid = old)"
      using step [OF mid] by (rule bexE)
    show "\<exists>old \<in> set (db_content (st_db st)).
        cr_content_id row = cr_content_id old \<and> cr_data_path row = cr_data_path old \<and> cr_complete row = cr_complete old
        \<and> (cr_content_id row \<in> fst ` set (entry # rows) \<longrightarrow> truthful lib (store_files st) (st_root st) row)
        \<and> (cr_content_id row \<notin> fst ` set (entry # rows) \<longrightarrow> row = old)"
    proof (rule bexI [OF _ old], intro conjI)
      show "cr_content_id row = cr_content_id old" "cr_data_path row = cr_data_path old" "cr_complete row = cr_complete old"
        using m o by argo+
      show "cr_content_id row \<in> fst ` set (entry # rows) \<longrightarrow> truthful lib (store_files st) (st_root st) row"
        using m o unfolding e by (metis fst_conv image_insert insertE list.simps(15))
      show "cr_content_id row \<notin> fst ` set (entry # rows) \<longrightarrow> row = old"
        using m o unfolding e by (metis fst_conv image_insert insertCI list.simps(15))
    qed
  qed (use IH in auto)
qed

section \<open>The index of contents\<close>

definition content_ok :: "content_row list \<Rightarrow> bool" where
  "content_ok rows \<longleftrightarrow> distinct (map cr_content_id rows) \<and> list_all (\<lambda>row. cr_complete row = 1) rows"

lemma collect_options_member:
  "collect_options f xs = Some ys \<Longrightarrow> y \<in> set ys \<Longrightarrow> \<exists>x \<in> set xs. f x = Some y"
  by (induction xs arbitrary: ys) (auto split: Option.bind_splits)

lemma content_from_row_Some:
  assumes "content_from_row lib root row = Some r"
  shows "managed_path root (cr_data_path row) = Some (cd_data_path r)" "cd_content_id r = cr_content_id row"
    "cd_integrity r = cr_integrity row" "cd_shared r \<longleftrightarrow> cr_shared row \<noteq> 0" "cd_complete r \<longleftrightarrow> cr_complete row \<noteq> 0"
    "cd_length r = nat (cr_length row)" "cd_chunk_count r = nat (cr_chunk_count row)"
  using assms by (auto simp: content_from_row_def split: sum.splits if_splits Option.bind_splits)

text \<open>Every operation on contents keeps the index well formed.\<close>

lemma content_ok_statements:
  "keeps (contents_inv (\<lambda>_. content_ok)) (execute (set_integrity content_id integrity))"
  "keeps (contents_inv (\<lambda>_. content_ok)) (execute (delete_content content_id))"
  "cr_complete row = 1 \<Longrightarrow> keeps (contents_inv (\<lambda>_. content_ok)) (execute (insert_content row))"
  "cr_complete row = 1 \<Longrightarrow> keeps (contents_inv (\<lambda>_. content_ok)) (execute (upsert_content row))"
proof -
  have ids: "map cr_content_id (map (\<lambda>row. if cr_content_id row \<noteq> content_id then row
      else case integrity of Inr _ \<Rightarrow> row\<lparr>cr_integrity := ascii ''ok''\<rparr>
        | Inl MissingFile \<Rightarrow> row\<lparr>cr_integrity := ascii ''missing'', cr_shared := 0\<rparr>
        | Inl CorruptFile \<Rightarrow> row\<lparr>cr_integrity := ascii ''corrupt'', cr_shared := 0\<rparr>) rows) = map cr_content_id rows"
    for rows content_id and integrity :: "integrity_failure + unit"
    by (auto split: sum.split integrity_failure.split)
  show "keeps (contents_inv (\<lambda>_. content_ok)) (execute (set_integrity content_id integrity))"
    by (rule keeps_execute)
      (auto simp: set_integrity_def content_ok_def list_all_iff ids simp del: map_map
        split: sum.splits integrity_failure.splits)
  show "keeps (contents_inv (\<lambda>_. content_ok)) (execute (delete_content content_id))"
    by (rule keeps_execute) (auto simp: delete_content_def content_ok_def list_all_iff distinct_map_filter)
  assume c: "cr_complete row = 1"
  then show "keeps (contents_inv (\<lambda>_. content_ok)) (execute (insert_content row))"
    by (intro keeps_execute) (auto simp: insert_content_def content_ok_def list_all_iff split: if_splits)
  have up: "map cr_content_id (map (\<lambda>old. if cr_content_id old = k
      then row\<lparr>cr_created_at := cr_created_at old\<rparr> else old) rows) = map cr_content_id rows"
    if "cr_content_id row = k" for rows k
    using that by simp
  show "keeps (contents_inv (\<lambda>_. content_ok)) (execute (upsert_content row))"
    using c by (intro keeps_execute)
      (auto simp: upsert_content_def content_ok_def list_all_iff up simp del: map_map split: if_splits)
qed

lemma keeps_bind_result:
  assumes "keeps I m" "\<And>x s s'. m s = (Inr x, s') \<Longrightarrow> keeps I (f x)"
  shows "keeps I (op_bind m f)"
  unfolding keeps_def
proof (intro allI impI)
  fix s assume "I s"
  then show "I (snd (op_bind m f s))"
    using assms keepsD [OF assms(1)] by (auto simp: op_bind_def keeps_def split: prod.splits sum.splits)
qed

lemma content_params_Inr:
  assumes "content_params root content_id m dp mp shared st = (Inr row, st')"
  shows "\<exists>data_relative manifest_relative ts now. relative_string root dp = Inr data_relative
    \<and> relative_string root mp = Inr manifest_relative \<and> st' = st\<lparr>st_times := ts\<rparr>
    \<and> row = \<lparr>cr_content_id = content_id, cr_length = int (unat (m_length m)), cr_chunk_count = int (length (m_chunks m)),
        cr_data_path = data_relative, cr_manifest_path = manifest_relative, cr_shared = of_bool shared, cr_complete = 1,
        cr_integrity = ascii ''ok'', cr_created_at = now\<rparr>"
proof -
  have "\<exists>ts. st1 = st\<lparr>st_times := ts\<rparr>" if "unix_time st = (Inr t, st1)" for t st1
    using that by (intro exI [of _ "st_times st1"]) (auto simp: unix_time_def split: list.splits)
  moreover have "i64_try_from n = Inr k \<longleftrightarrow> n < 2 ^ 63 \<and> k = int n" for n k by (auto simp: i64_try_from_def)
  ultimately show ?thesis
    using assms by (fastforce simp: content_params_def result_iffs)
qed

lemma keeps_content_ok [keeps_intros]:
  "keeps (contents_inv (\<lambda>_. content_ok)) (verify_all lib)" "keeps (contents_inv (\<lambda>_. content_ok)) (store_list_content lib)"
  "keeps (contents_inv (\<lambda>_. content_ok)) (store_add_content lib source shared)"
  "keeps (contents_inv (\<lambda>_. content_ok)) (complete_download lib content_id shared)"
  "keeps (contents_inv (\<lambda>_. content_ok)) (store_remove_content lib text_id delete_bytes)"
proof -
  show v: "keeps (contents_inv (\<lambda>_. content_ok)) (verify_all lib)"
    unfolding verify_all_def by (intro keeps_intros keeps_verify_rows content_ok_statements)
  then show "keeps (contents_inv (\<lambda>_. content_ok)) (store_list_content lib)"
    unfolding store_list_content_def by (intro keeps_intros)
  have row: "cr_complete row = 1" if "content_params root cid m dp mp sh st = (Inr row, st')" for root cid m dp mp sh st row st'
    using content_params_Inr [OF that] by auto
  have "keeps (contents_inv (\<lambda>_. content_ok)) (op_bind (content_params root cid m dp mp sh) f)"
    if "\<And>row. cr_complete row = 1 \<Longrightarrow> keeps (contents_inv (\<lambda>_. content_ok)) (f row)"
    for root cid m dp mp sh and f :: "content_row \<Rightarrow> content_record store_op"
    by (rule keeps_bind_result) (auto intro!: keeps_intros that dest: row)
  note params = this
  show "keeps (contents_inv (\<lambda>_. content_ok)) (store_add_content lib source shared)"
    "keeps (contents_inv (\<lambda>_. content_ok)) (complete_download lib content_id shared)"
    unfolding store_add_content_def complete_download_def Let_def
    by (intro params keeps_intros content_ok_statements; assumption)+
  show "keeps (contents_inv (\<lambda>_. content_ok)) (store_remove_content lib text_id delete_bytes)"
    unfolding store_remove_content_def Let_def by (intro keeps_intros content_ok_statements)
qed

text \<open>
  (C38) A listing tells the truth: of every content it reports as intact, the file at the reported path
  below the root has the content's identifier; everything else is reported missing or corrupt and
  is no longer shared.  Listing changes no file.
\<close>

theorem listed_content_verified:
  assumes "store_list_content lib st = (Inr records, st')" "content_ok (db_content (st_db st))"
  shows "store_files st' = store_files st \<and> (\<forall>r \<in> set records.
    (\<exists>names. components (cd_data_path r) = components (st_root st) @ names \<and> list_all is_normal names)
    \<and> (cd_integrity r = ascii ''ok'' \<and> (\<exists>bytes. store_files st (cd_data_path r) = Some bytes
          \<and> display_id lib (content_id_digest (nl_hash lib) bytes) = cd_content_id r)
       \<or> cd_integrity r \<in> {ascii ''missing'', ascii ''corrupt''} \<and> \<not> cd_shared r))"
proof -
  let ?rows = "map (\<lambda>row. (cr_content_id row, cr_data_path row, cr_manifest_path row))
    (filter (\<lambda>row. cr_complete row = 1) (db_content (st_db st)))"
  obtain st1 st2 where q: "sql_statement st = (Inr (), st1)" and v: "verify_rows lib ?rows st1 = (Inr (), st2)"
    and l: "sql_statement st2 = (Inr (), st')"
      "collect_options (content_from_row lib (st_root st')) (sort_key cr_content_id (db_content (st_db st2))) = Some records"
    using assms(1) by (auto simp: store_list_content_def verify_all_def result_iffs)
  have f: "store_files st1 = store_files st" "st_root st1 = st_root st" "st_db st1 = st_db st"
    "store_files st' = store_files st2" "st_root st' = st_root st2"
    using q l(1) by (auto simp: result_iffs store_files_def)
  have paths: "\<forall>(i, dp, mp) \<in> set ?rows. \<forall>row \<in> set (db_content (st_db st1)). cr_content_id row = i \<longrightarrow> cr_data_path row = dp"
    using assms(2) by (auto simp: f content_ok_def distinct_map inj_on_def)
  note t = verify_rows_truthful [OF v paths]
  have "truthful lib (store_files st) (st_root st) row" if row: "row \<in> set (db_content (st_db st2))" for row
  proof -
    obtain old where "old \<in> set (db_content (st_db st))" "cr_content_id row = cr_content_id old"
      "cr_content_id row \<in> fst ` set ?rows \<longrightarrow> truthful lib (store_files st) (st_root st) row"
      using t row unfolding f by blast
    moreover from this have "cr_content_id row \<in> fst ` set ?rows"
      using assms(2) by (force simp: content_ok_def list_all_iff)
    ultimately show ?thesis by simp
  qed
  note truthful = this
  have "(\<exists>names. components (cd_data_path r) = components (st_root st) @ names \<and> list_all is_normal names)
    \<and> (cd_integrity r = ascii ''ok'' \<and> (\<exists>bytes. store_files st (cd_data_path r) = Some bytes
          \<and> display_id lib (content_id_digest (nl_hash lib) bytes) = cd_content_id r)
       \<or> cd_integrity r \<in> {ascii ''missing'', ascii ''corrupt''} \<and> \<not> cd_shared r)" if r: "r \<in> set records" for r
  proof -
    obtain row where row: "row \<in> set (db_content (st_db st2))" "content_from_row lib (st_root st) row = Some r"
      using collect_options_member [OF l(2) r] t unfolding f by auto
    note fields = content_from_row_Some [OF row(2)]
    show ?thesis
      using managed_path_inside [OF fields(1)] truthful [OF row(1)] fields by (auto simp: truthful_def)
  qed
  then show ?thesis using t unfolding f by blast
qed

definition demo_row :: content_row where
  "demo_row = \<lparr>cr_content_id = ascii ''x'', cr_length = 5, cr_chunk_count = 1, cr_data_path = ascii ''d'',
    cr_manifest_path = ascii ''m'', cr_shared = 1, cr_complete = 1, cr_integrity = ascii ''ok'', cr_created_at = 0\<rparr>"

definition short_lib :: node_lib where
  "short_lib = \<lparr>nl_hash = demo_hash, nl_hex_encode = (\<lambda>_. ascii ''x''), nl_hex_decode = (\<lambda>_. Inr (bytes_of (bytes32_fill 3))),
    nl_manifest_to = (\<lambda>_. []), nl_manifest_from = (\<lambda>_. None),
    nl_json = \<lparr>js_encode = (\<lambda>_. []), js_decode = (\<lambda>_. None)\<rparr>, nl_error_text = (\<lambda>_. [])\<rparr>"

definition row_store :: store where
  "row_store = \<lparr>st_root = ascii ''n'', st_disk = \<lparr>files = Map.empty, faults = []\<rparr>, st_dirs = [],
    st_db = empty_database\<lparr>db_content := [demo_row]\<rparr>, st_sql = [], st_times = []\<rparr>"

theorem listed_content_verified_witness:
  "\<exists>r st'. store_list_content short_lib row_store = (Inr [r], st') \<and> \<not> cd_shared r"
proof -
  have id: "parse_id short_lib (ascii ''x'') = Inr (ContentId (bytes32_fill 3))"
    "display_id short_lib c = ascii ''x''" for c
    by (simp_all add: parse_id_def display_id_def short_lib_def content_id_from_str_def content_id_display_def
        del: bytes_of_fill)
  have paths: "managed_path (ascii ''n'') (ascii ''d'') = Some (ascii ''n/d'')"
    "managed_path (ascii ''n'') (ascii ''m'') = Some (ascii ''n/m'')"
    by code_simp+
  obtain r st' where r: "store_list_content short_lib row_store = (Inr [r], st')"
    by (simp add: store_list_content_def verify_all_def op_defs query_def execute_def sql_statement_def row_store_def
        empty_database_def demo_row_def id paths verify_stored_content_def disk_op_def fs_read_def next_fault_def
        set_integrity_def content_from_row_def)
  have "content_ok (db_content (st_db row_store))" by (simp add: content_ok_def row_store_def demo_row_def)
  from listed_content_verified [OF r this] show ?thesis using r by (auto simp: store_files_def row_store_def)
qed

end
