(* ===== verification/Node_Import.thy ===== *)
theory Node_Import
  imports Node_Index
begin

text \<open>
  Importing a file into the store, completing a download there, and the migration of an old index.
\<close>

section \<open>Importing a file\<close>

lemma get_content_Inr:
  assumes "get_content lib content_id st = (Inr r, st')"
  shows "(\<exists>fs. st' = st\<lparr>st_sql := fs\<rparr>)
    \<and> (r = None \<longleftrightarrow> content_id \<notin> cr_content_id ` set (db_content (st_db st)))
    \<and> (\<forall>c. r = Some c \<longrightarrow> (\<exists>row \<in> set (db_content (st_db st)).
        cr_content_id row = content_id \<and> content_from_row lib (st_root st) row = Some c))"
proof -
  let ?rows = "filter (\<lambda>row. cr_content_id row = content_id) (db_content (st_db st))"
  obtain fs where fs: "st' = st\<lparr>st_sql := fs\<rparr>"
    and r: "case ?rows of [] \<Rightarrow> r = None | row # _ \<Rightarrow> \<exists>c. content_from_row lib (st_root st) row = Some c \<and> r = Some c"
    using assms by (cases ?rows) (auto simp: get_content_def result_iffs)
  show ?thesis
  proof (cases ?rows)
    case Nil
    then show ?thesis using fs r by (auto simp: filter_empty_conv)
  next
    case (Cons row rest)
    have "row \<in> set ?rows" unfolding Cons by simp
    then have "row \<in> set (db_content (st_db st))" "cr_content_id row = content_id" by simp_all
    then show ?thesis using fs r Cons by auto
  qed
qed

lemma content_exists_Inr:
  assumes "content_exists lib content_id st = (Inr b, st')"
  shows "(\<exists>fs. st' = st\<lparr>st_sql := fs\<rparr>) \<and> (b \<longleftrightarrow> content_id \<in> cr_content_id ` set (db_content (st_db st)))"
proof -
  obtain r where "get_content lib content_id st = (Inr r, st')" "b \<longleftrightarrow> r \<noteq> None"
    using assms by (auto simp: content_exists_def result_iffs)
  then show ?thesis using get_content_Inr by fastforce
qed

lemma create_dir_all_Inr:
  "create_dir_all p st = (Inr u, st') \<Longrightarrow>
    store_files st' = store_files st \<and> st_root st' = st_root st \<and> st_db st' = st_db st"
  by (auto simp: create_dir_all_def fs_create_dirs_def result_iffs store_files_def split: prod.splits option.splits
      dest!: next_fault_files)

text \<open>Three names in one directory are three paths.\<close>

lemma path_join_inject:
  "plain_name a \<Longrightarrow> plain_name b \<Longrightarrow> path_join r a = path_join r b \<longleftrightarrow> a = b"
  using plain_end [of a] plain_end [of b] by (simp add: path_join_def)

lemma plain_file_names:
  "plain_name (ascii ''data'')" "plain_name (ascii ''data.importing'')" "plain_name (ascii ''manifest.postcard'')"
  "plain_name (ascii ''content'')"
  by (simp_all add: plain_name_def) (simp_all add: ascii_def)

lemma plain_hex:
  assumes "hex_codec (nl_hex_decode lib) (nl_hex_encode lib)"
  shows "plain_name (display_id lib c)"
proof -
  let ?t = "display_id lib c"
  have "length ?t = 64" "list_all hex_char ?t"
    using assms by (auto simp: display_id_def content_id_display_def hex_codec_def length_bytes_of)
  moreover have "\<not> hex_char 47" "\<not> hex_char 92" by (simp_all add: hex_char_def is_ascii_digit_def)
  ultimately show ?thesis by (auto simp: plain_name_def list_all_iff ascii_def)
qed

lemma parse_display:
  assumes "hex_codec (nl_hex_decode lib) (nl_hex_encode lib)"
  shows "parse_id lib (display_id lib c) = Inr c"
  using assms
  by (cases c) (simp add: parse_id_def display_id_def content_id_from_str_def content_id_display_def hex_codec_def)

definition stored_path :: "path \<Rightarrow> str \<Rightarrow> string \<Rightarrow> path" where
  "stored_path root content_id name = path_join (content_directory root content_id) (ascii name)"

lemma stored_paths_distinct:
  "stored_path root i ''data'' \<noteq> stored_path root i ''manifest.postcard''"
  "stored_path root i ''data'' \<noteq> stored_path root i ''data.importing''"
  "stored_path root i ''data.importing'' \<noteq> stored_path root i ''manifest.postcard''"
  by (simp_all add: stored_path_def path_join_inject plain_file_names)

lemma stored_relative:
  assumes "hex_codec (nl_hex_decode lib) (nl_hex_encode lib)" "plain_name (ascii name)"
    and "relative_string root (stored_path root (display_id lib c) name) = Inr relative"
  shows "managed_path root relative = Some (stored_path root (display_id lib c) name)"
  using managed_roundtrip [OF plain_file_names(4) plain_hex [OF assms(1)] assms(2), of root c] assms(3)
  by (auto simp: stored_path_def content_directory_def)

lemma store_add_content_stored:
  assumes "store_add_content lib source shared st = (Inr r, st')" "hex_codec (nl_hex_decode lib) (nl_hex_encode lib)"
  shows "\<exists>bytes row. store_files st source = Some bytes \<and> length bytes \<le> unat MAX_CONTENT_LENGTH
    \<and> cd_content_id r = display_id lib (content_id_digest (nl_hash lib) bytes)
    \<and> cd_data_path r = stored_path (st_root st) (cd_content_id r) ''data''
    \<and> cd_shared r = shared \<and> cd_complete r \<and> cd_integrity r = ascii ''ok'' \<and> cd_length r = length bytes
    \<and> store_files st' (cd_data_path r) = Some bytes
    \<and> store_files st' (stored_path (st_root st) (cd_content_id r) ''manifest.postcard'')
      = Some (nl_manifest_to lib (manifest_of (nl_hash lib) bytes))
    \<and> st_root st' = st_root st
    \<and> cr_content_id row = cd_content_id r \<and> cr_content_id row \<notin> cr_content_id ` set (db_content (st_db st))
    \<and> st_db st' = (st_db st)\<lparr>db_content := db_content (st_db st) @ [row]\<rparr>"
proof -
  let ?H = "nl_hash lib"
  obtain bytes d1 m chunks where src: "fs_read source (st_disk st) = (Inr bytes, d1)"
    and fb: "from_bytes ?H bytes = Inr (m, chunks)"
    using assms(1) by (auto simp: store_add_content_def result_iffs)
  have m: "m = manifest_of ?H bytes" and len: "length bytes \<le> unat MAX_CONTENT_LENGTH"
    using fb by (simp_all add: from_bytes_eq split: if_splits)
  define i where "i = display_id lib (content_id_digest ?H bytes)"
  have i: "display_id lib (m_content_id m) = i" by (simp add: i_def m manifest_of_def)
  let ?st1 = "st\<lparr>st_disk := d1\<rparr>" and ?root = "st_root st"
  let ?data = "stored_path ?root i ''data''" and ?tmp = "stored_path ?root i ''data.importing''"
    and ?man = "stored_path ?root i ''manifest.postcard''"
  obtain st2 st3 d4 d5 d6 d7 copy row st8 st9 db where
    ex: "content_exists lib i ?st1 = (Inr False, st2)"
    and dir: "create_dir_all (content_directory (st_root st2) i) st2 = (Inr (), st3)"
    and w: "fs_write (stored_path (st_root st2) i ''data.importing'') bytes (st_disk st3) = (Inr (), d4)"
    and rd: "fs_read (stored_path (st_root st2) i ''data.importing'') d4 = (Inr copy, d5)"
    and rep: "replace_file (stored_path (st_root st2) i ''data.importing'') (stored_path (st_root st2) i ''data'') d5 = (Inr (), d6)"
    and wm: "fs_write (stored_path (st_root st2) i ''manifest.postcard'') (nl_manifest_to lib m) d6 = (Inr (), d7)"
    and par: "content_params (st_root st2) i m (stored_path (st_root st2) i ''data'') (stored_path (st_root st2) i ''manifest.postcard'')
      shared (st3\<lparr>st_disk := d7\<rparr>) = (Inr row, st8)"
    and ins: "sql_statement st8 = (Inr (), st9)" "insert_content row (st_db st8) = Some db"
    and get: "get_content lib i (st9\<lparr>st_db := db\<rparr>) = (Inr (Some r), st')"
    using assms(1) src fb
    by (simp add: store_add_content_def result_iffs i Let_def stored_path_def split: if_splits) (fastforce simp: i)
  let ?data = "stored_path (st_root st) i ''data''" and ?tmp = "stored_path (st_root st) i ''data.importing''"
    and ?man = "stored_path (st_root st) i ''manifest.postcard''"
  note distinct = stored_paths_distinct [of "st_root st" i]
  have f2: "st_root st2 = st_root st" "st_db st2 = st_db st" "i \<notin> cr_content_id ` set (db_content (st_db st))"
    using content_exists_Inr [OF ex] by auto
  have f3: "st_root st3 = st_root st" "st_db st3 = st_db st" using create_dir_all_Inr [OF dir] f2 by simp_all
  have "files d4 ?tmp = Some bytes" using fs_write_Inr [OF w] by (simp add: f2)
  then have "files d5 ?tmp = Some bytes" using fs_read_files [OF rd] by simp
  then have data: "files d6 ?data = Some bytes"
    using replace_file_cases(1) [OF rep] distinct by (auto simp: f2)
  then have data: "files d7 ?data = Some bytes"
    using fs_write_other [OF wm, of ?data] distinct by (simp add: f2)
  have man: "files d7 ?man = Some (nl_manifest_to lib m)" using fs_write_Inr [OF wm] by (simp add: f2)
  obtain dr mr ts now where p: "relative_string (st_root st) ?data = Inr dr" "st8 = st3\<lparr>st_disk := d7, st_times := ts\<rparr>"
    "row = \<lparr>cr_content_id = i, cr_length = int (unat (m_length m)), cr_chunk_count = int (length (m_chunks m)),
        cr_data_path = dr, cr_manifest_path = mr, cr_shared = of_bool shared, cr_complete = 1,
        cr_integrity = ascii ''ok'', cr_created_at = now\<rparr>"
    using content_params_Inr [OF par] by (auto simp: f2)
  have db: "db = (st_db st)\<lparr>db_content := db_content (st_db st) @ [row]\<rparr>"
    using ins(2) f3 by (auto simp: insert_content_def p(2) split: if_splits)
  have f9: "st_root st9 = st_root st" "store_files st9 = files d7" using ins(1) f3 by (auto simp: result_iffs p(2) store_files_def)
  note g = get_content_Inr [OF get]
  obtain fs where st'_eq: "st' = st9\<lparr>st_db := db, st_sql := fs\<rparr>" using g by auto
  have "\<exists>row \<in> set (db_content (st_db (st9\<lparr>st_db := db\<rparr>))). cr_content_id row = i
      \<and> content_from_row lib (st_root (st9\<lparr>st_db := db\<rparr>)) row = Some r"
    using g by blast
  then obtain row' where get': "row' \<in> set (db_content db)" "cr_content_id row' = i"
    "content_from_row lib (st_root st) row' = Some r"
    using f9(1) by auto
  have "row' = row" using get'(1,2) f2(3) by (auto simp: db)
  note fields = content_from_row_Some [OF get'(3), unfolded this]
  have "managed_path (st_root st) dr = Some ?data"
    by (rule stored_relative [OF assms(2) plain_file_names(1), of _ "content_id_digest ?H bytes", folded i_def]) (rule p(1))
  then have path: "cd_data_path r = ?data" using fields(1) by (simp add: p(3))
  have l: "unat (m_length m) = length bytes"
    using le_trans [OF len unat_lt_u64] by (simp add: m manifest_of_def unat_of_nat_u64)
  have src': "store_files st source = Some bytes" using fs_read_Inr [OF src] by (simp add: store_files_def)
  have r: "cd_content_id r = i" "cd_shared r = shared" "cd_complete r = True" "cd_integrity r = ascii ''ok''"
    "cd_length r = length bytes"
    using fields(2-6) by (simp_all add: p(3) l)
  have st': "store_files st' = files d7" "st_root st' = st_root st" "st_db st' = db"
    using f9 by (simp_all add: st'_eq store_files_def)
  have row: "cr_content_id row = i" by (simp add: p(3))
  show ?thesis
    unfolding st' r path db
    by (intro exI [of _ bytes] exI [of _ row] conjI) (simp_all add: src' len data man f2(3) row i_def [symmetric] m [symmetric])
qed


definition demo_lib :: node_lib where
  "demo_lib = \<lparr>nl_hash = demo_hash, nl_hex_encode = hex_encode_table, nl_hex_decode = (\<lambda>t. map_err (\<lambda>_. []) (hex_decode_table t)),
    nl_manifest_to = (\<lambda>_. []), nl_manifest_from = (\<lambda>_. Some (manifest_of demo_hash [1, 2])),
    nl_json = \<lparr>js_encode = (\<lambda>_. []), js_decode = (\<lambda>_. Some (JArray []))\<rparr>, nl_error_text = (\<lambda>_. [])\<rparr>"

definition demo_store :: store where
  "demo_store = \<lparr>st_root = ascii ''/n'', st_disk = \<lparr>files = [ascii ''f'' \<mapsto> [1, 2]], faults = []\<rparr>, st_dirs = [],
    st_db = empty_database\<lparr>db_schema := [2], db_has_transfers := True, db_columns := 8\<rparr>, st_sql = [], st_times = []\<rparr>"

lemma demo_lib_hex: "hex_codec (nl_hex_decode demo_lib) (nl_hex_encode demo_lib)"
  using hex_codec_table by (auto simp: hex_codec_def demo_lib_def result_iffs)

text \<open>Without failures a file that is not indexed yet is imported.\<close>

lemma store_add_content_succeeds:
  assumes "hex_codec (nl_hex_decode lib) (nl_hex_encode lib)" "faults (st_disk st) = []" "st_sql st = []"
    and "store_files st source = Some bytes" "length bytes \<le> unat MAX_CONTENT_LENGTH"
    and "display_id lib (content_id_digest (nl_hash lib) bytes) \<notin> cr_content_id ` set (db_content (st_db st))"
  shows "\<exists>r st'. store_add_content lib source shared st = (Inr r, st') \<and> faults (st_disk st') = []"
proof -
  let ?H = "nl_hash lib" and ?c = "content_id_digest (nl_hash lib) bytes"
  define i where "i = display_id lib ?c"
  let ?data = "stored_path (st_root st) i ''data''" and ?tmp = "stored_path (st_root st) i ''data.importing''"
    and ?man = "stored_path (st_root st) i ''manifest.postcard''"
  note distinct = stored_paths_distinct [of "st_root st" i]
  let ?m = "manifest_of ?H bytes"
  have m: "m_content_id ?m = ?c" "unat (m_length ?m) = length bytes" "length (m_chunks ?m) < 2 ^ 63" "length bytes < 2 ^ 63"
    using le_trans [OF assms(5) unat_lt_u64] assms(5) chunk_count_bound [OF assms(5)]
    by (simp_all add: manifest_of_def unat_of_nat_u64 length_chunks_of MAX_CONTENT_LENGTH_def MAX_MANIFEST_CHUNKS_def)
  have none: "filter (\<lambda>row. cr_content_id row = i) (db_content (st_db st)) = []"
    using assms(6) by (simp add: filter_empty_conv i_def) (metis image_eqI)
  obtain dr mr where rel: "relative_string (st_root st) ?data = Inr dr" "managed_path (st_root st) dr = Some ?data"
    "relative_string (st_root st) ?man = Inr mr"
    using managed_roundtrip [OF plain_file_names(4) plain_hex [OF assms(1)] plain_file_names(1), of "st_root st" ?c]
      managed_roundtrip [OF plain_file_names(4) plain_hex [OF assms(1)] plain_file_names(3), of "st_root st" ?c]
    by (auto simp: stored_path_def content_directory_def i_def)
  have parse: "parse_id lib i = Inr ?c" by (simp add: i_def parse_display [OF assms(1)])
  have rd: "fs_read source (st_disk st) = (Inr bytes, st_disk st)"
    using assms(2,4) by (simp add: fs_read_def next_fault_def store_files_def)
  have ex: "content_exists lib i st = (Inr False, st)"
    using none assms(3) by (simp add: content_exists_def get_content_def query_def sql_statement_def op_defs)
  let ?d = "(st_disk st)\<lparr>files := (files (st_disk st))(?tmp \<mapsto> bytes)\<rparr>"
  let ?e = "(st_disk st)\<lparr>files := (files (st_disk st))(?tmp := None, ?data \<mapsto> bytes)\<rparr>"
  let ?f = "(st_disk st)\<lparr>files := (files (st_disk st))(?tmp := None, ?data \<mapsto> bytes, ?man \<mapsto> nl_manifest_to lib ?m)\<rparr>"
  have disk: "fs_create_dirs (st_disk st) = (Inr (), st_disk st)" "fs_write ?tmp bytes (st_disk st) = (Inr (), ?d)"
    "fs_read ?tmp ?d = (Inr bytes, ?d)" "replace_file ?tmp ?data ?d = (Inr (), ?e)"
    "fs_write ?man (nl_manifest_to lib ?m) ?e = (Inr (), ?f)"
    using assms(2) distinct
    by (simp_all add: fs_create_dirs_def fs_write_def fs_read_def replace_file_def fs_rename_def next_fault_def)
  show ?thesis
    using assms(2,3) m(3,4)
    by (simp add: store_add_content_def op_defs disk_op_def rd from_bytes_eq assms(5) m i_def [symmetric] Let_def ex
      stored_path_def [symmetric] create_dir_all_def disk content_params_def i64_try_from_def rel unix_time_def
      execute_def sql_statement_def insert_content_def assms(6) [folded i_def] get_content_def query_def none content_from_row_def parse
      split: list.split)
qed


section \<open>Completing a download\<close>

lemma upsert_content_row:
  assumes "upsert_content row db = Some db'"
  shows "\<exists>new \<in> set (db_content db'). cr_content_id new = cr_content_id row \<and> cr_integrity new = cr_integrity row
    \<and> cr_complete new = cr_complete row \<and> cr_shared new = cr_shared row"
proof (cases "cr_content_id row \<in> cr_content_id ` set (db_content db)")
  case True
  then obtain old where "old \<in> set (db_content db)" "cr_content_id old = cr_content_id row" by auto
  then show ?thesis using assms True by (intro bexI [of _ "row\<lparr>cr_created_at := cr_created_at old\<rparr>"])
    (auto simp: upsert_content_def intro!: rev_image_eqI)
next
  case False
  then show ?thesis using assms by (intro bexI [of _ row]) (auto simp: upsert_content_def)
qed

lemma complete_download_verified:
  assumes "complete_download lib content_id shared st = (Inr r, st')"
  shows "cd_content_id r = display_id lib content_id
    \<and> (\<exists>bytes. store_files st (stored_path (st_root st) (display_id lib content_id) ''data'') = Some bytes
      \<and> store_files st' (stored_path (st_root st) (display_id lib content_id) ''data'') = Some bytes
      \<and> content_id_digest (nl_hash lib) bytes = content_id)
    \<and> (\<exists>row \<in> set (db_content (st_db st')). cr_content_id row = display_id lib content_id \<and> cr_integrity row = ascii ''ok''
        \<and> cr_complete row = 1 \<and> cr_shared row = of_bool shared)"
proof -
  let ?i = "display_id lib content_id"
  let ?data = "stored_path (st_root st) ?i ''data''" and ?man = "stored_path (st_root st) ?i ''manifest.postcard''"
  obtain bytes d1 m chunks d2 row st3 st4 db where
    rd: "fs_read ?data (st_disk st) = (Inr bytes, d1)"
    and fb: "from_bytes (nl_hash lib) bytes = Inr (m, chunks)" "m_content_id m = content_id"
    and w: "fs_write ?man (nl_manifest_to lib m) d1 = (Inr (), d2)"
    and par: "content_params (st_root st) ?i m ?data ?man shared (st\<lparr>st_disk := d2\<rparr>) = (Inr row, st3)"
    and ins: "sql_statement st3 = (Inr (), st4)" "upsert_content row (st_db st3) = Some db"
    and get: "get_content lib ?i (st4\<lparr>st_db := db\<rparr>) = (Inr (Some r), st')"
    using assms
    by (simp add: complete_download_def result_iffs Let_def stored_path_def split: if_splits) fastforce
  obtain ts dr mr now where p: "st3 = st\<lparr>st_disk := d2, st_times := ts\<rparr>" 
    "row = \<lparr>cr_content_id = ?i, cr_length = int (unat (m_length m)), cr_chunk_count = int (length (m_chunks m)),
        cr_data_path = dr, cr_manifest_path = mr, cr_shared = of_bool shared, cr_complete = 1,
        cr_integrity = ascii ''ok'', cr_created_at = now\<rparr>"
    using content_params_Inr [OF par] by auto
  note g = get_content_Inr [OF get]
  obtain fs where st': "st' = st4\<lparr>st_db := db, st_sql := fs\<rparr>" using g by auto
  obtain row' where row': "cr_content_id row' = ?i" "content_from_row lib (st_root st4) row' = Some r"
    using g by auto
  have "content_id_digest (nl_hash lib) bytes = content_id"
    using fb by (auto simp: from_bytes_eq manifest_of_def split: if_splits)
  moreover have "store_files st ?data = Some bytes" using fs_read_Inr [OF rd] by (simp add: store_files_def)
  moreover have "store_files st' ?data = Some bytes"
  proof -
    have "store_files st' = files d2" using ins(1) by (auto simp: result_iffs p(1) st' store_files_def)
    moreover have "files d2 ?data = files d1 ?data"
      using fs_write_other [OF w, of ?data] stored_paths_distinct(1) by simp
    ultimately show ?thesis using fs_read_files [OF rd] fs_read_Inr [OF rd] by simp
  qed
  moreover have "\<exists>row \<in> set (db_content db). cr_content_id row = ?i \<and> cr_integrity row = ascii ''ok''
        \<and> cr_complete row = 1 \<and> cr_shared row = of_bool shared"
    using upsert_content_row [OF ins(2)] by (simp add: p(2))
  ultimately show ?thesis using content_from_row_Some(2) [OF row'(2)] row'(1) by (simp add: st')
qed

section \<open>Migration\<close>

definition half_migrated :: "path \<Rightarrow> database \<Rightarrow> bool" where
  "half_migrated root db \<longleftrightarrow> db_has_transfers db \<and> 0 < db_columns db \<and> (\<exists>vs. db_schema db = 1 # vs)"

lemma migration_first: "migration_statements = add_column 0 # tl migration_statements"
  by (simp add: migration_statements_def upt_rec)

text \<open>An operation that never succeeds where the invariant holds, and keeps it.\<close>

definition stuck :: "('s \<Rightarrow> bool) \<Rightarrow> ('s, 'a) op \<Rightarrow> bool" where
  "stuck I m \<longleftrightarrow> keeps I m \<and> (\<forall>s. I s \<longrightarrow> \<not> is_ok (fst (m s)))"

lemma stuck_bind: "stuck I m \<Longrightarrow> stuck I (op_bind m f)"
  by (auto simp: stuck_def keeps_def op_bind_def split: prod.splits sum.splits)

lemma stuck_later: "keeps I m \<Longrightarrow> (\<And>x. stuck I (f x)) \<Longrightarrow> stuck I (op_bind m f)"
  by (auto simp: stuck_def keeps_def op_bind_def split: prod.splits sum.splits)

lemma migration_stuck: "stuck (store_inv half_migrated) (execute_batch migration_statements)"
proof -
  have "keeps (store_inv half_migrated) (execute (add_column 0))"
    by (rule keeps_execute) (auto simp: add_column_def half_migrated_def split: if_splits)
  then have "stuck (store_inv half_migrated) (execute (add_column 0))"
    by (auto simp: stuck_def execute_def op_bind_def sql_statement_def add_column_def half_migrated_def store_inv_def
        split: list.split)
  then show ?thesis by (subst migration_first) (simp add: stuck_bind)
qed

lemma schema_keeps_half: "keeps (store_inv half_migrated) (execute_batch schema_statements)"
  by (rule keeps_execute_batch, rule keeps_execute)
    (auto simp: schema_statements_def half_migrated_def split: if_splits)

text \<open>
  (C40) The migration of an old index cannot be restarted: once an interrupted migration has added one
  column, no later opening succeeds, because each begins by adding the first column again.
\<close>

theorem migration_not_restartable:
  assumes "half_migrated (st_root st) (st_db st)"
  shows "\<not> is_ok (fst (store_open lib st))
    \<and> half_migrated (st_root (snd (store_open lib st))) (st_db (snd (store_open lib st)))"
proof -
  have "stuck (store_inv half_migrated) (op_bind (query db_schema) (\<lambda>versions. case versions of
      [] \<Rightarrow> op_fail NodeSql
    | version # _ \<Rightarrow>
        op_bind (if version = 1 then execute_batch migration_statements
                 else if version = SCHEMA_VERSION then op_return ()
                 else op_fail (NodeText (ascii ''unsupported node index schema version '' @ decimal_int version))) (\<lambda>_.
        verify_all lib)))" (is "stuck ?I ?m")
  proof -
    have "\<exists>e s'. ?m s = (Inl e, s') \<and> ?I s'" if I: "?I s" for s
    proof -
      obtain r s1 where q: "sql_statement s = (r, s1)" by fastforce
      have I1: "?I s1" using keepsD [OF keeps_primitive(3) q I] .
      then obtain vs where v: "db_schema (st_db s1) = 1 # vs" by (auto simp: half_migrated_def store_inv_def)
      obtain e s' where "execute_batch migration_statements s1 = (Inl e, s')" "?I s'"
        using migration_stuck I1 by (cases "execute_batch migration_statements s1"; cases "fst (execute_batch migration_statements s1)")
          (auto simp: stuck_def keeps_def)
      then show ?thesis using q v I1 by (cases r) (simp_all add: query_def op_defs)
    qed
    note fails = this
    show ?thesis unfolding stuck_def keeps_def
    proof (intro conjI allI impI)
      fix s assume "?I s"
      then obtain e s' where m: "?m s = (Inl e, s')" "?I s'" using fails by blast
      show "?I (snd (?m s))" unfolding m(1) using m(2) by simp
      show "\<not> is_ok (fst (?m s))" unfolding m(1) by simp
    qed
  qed
  note last_step = this
  have "stuck ?I (store_open lib)"
    unfolding store_open_def by (rule stuck_later last_step schema_keeps_half keeps_intros)+
  then show ?thesis using assms by (auto simp: stuck_def keeps_def store_inv_def)
qed

theorem migration_not_restartable_witness:
  "\<exists>st. st = demo_store\<lparr>st_db := empty_database\<lparr>db_schema := [1], db_has_transfers := True, db_columns := 0\<rparr>,
      st_sql := replicate 9 False @ [True]\<rparr>
    \<and> half_migrated (st_root (snd (store_open demo_lib st))) (st_db (snd (store_open demo_lib st)))
    \<and> \<not> is_ok (fst (store_open demo_lib (snd (store_open demo_lib st))))"
proof -
  let ?st = "demo_store\<lparr>st_db := empty_database\<lparr>db_schema := [1], db_has_transfers := True, db_columns := 0\<rparr>,
      st_sql := replicate 9 False @ [True]\<rparr>"
  have h: "half_migrated (st_root (snd (store_open demo_lib ?st))) (st_db (snd (store_open demo_lib ?st)))"
    by (simp add: half_migrated_def store_open_def op_defs create_dir_all_def disk_op_def fs_create_dirs_def next_fault_def
        demo_store_def empty_database_def sql_statement_def query_def schema_statements_def execute_def
        migration_statements_def upt_rec add_column_def numeral_eq_Suc)
  then show ?thesis using migration_not_restartable [OF h] by blast
qed

end
